(* ===== verification/Prelude.thy ===== *)
theory Prelude
  imports Main "HOL-Library.Word" "HOL-Library.Char_ord" "HOL-Library.List_Lexorder" "HOL-Library.AList"
begin

text \<open>
  Shared vocabulary of the development: the names of the machine types, the outcome of a C++ call
  that may throw, the state-and-exception sequencing the stateful components are written with, and
  the generic facts on lists that several components use.

  A \<open>std::string\<close> is a list of 8-bit \<^typ>\<open>char\<close>s.  The order on strings is the one of
  \<open>std::char_traits<char>::compare\<close>: lexicographic over unsigned bytes, which is what
  \<open>Char_ord\<close> and \<open>List_Lexorder\<close> give.
\<close>

unbundle bit_operations_syntax

named_theorems sx_simps \<open>evaluation of the sequencing combinators\<close>
named_theorems io_simps \<open>evaluation of the file-system primitives\<close>
named_theorems reads_intros \<open>what a reader consumes from a stream\<close>
named_theorems emits_intros \<open>what a writer appends to a file\<close>

section \<open>Types\<close>

type_synonym bytes = string
type_synonym path = string
type_synonym u32 = "32 word"
type_synonym u64 = "64 word"

text \<open>
  How a C++ call can end other than by returning.  The last constructor stands for the calls whose
  behaviour the language leaves undefined (an index past the end of a vector, a copy from outside a
  buffer): the model makes them visible instead of picking a value.
\<close>

datatype exn =
    Runtime_error string
  | Bad_optional_access
  | Filesystem_error string
  | Out_of_range string
  | Length_error string
  | Undefined_behaviour string

section \<open>Calls that change a state and may throw\<close>

text \<open>
  A call maps the state it can change to an outcome and the state it leaves, which is kept also
  when it throws: what was written before the throw stays written.
\<close>

type_synonym ('s, 'a) sx = "'s \<Rightarrow> (exn + 'a) \<times> 's"

definition sx_return :: "'a \<Rightarrow> ('s, 'a) sx" where
  "sx_return x = (\<lambda>s. (Inr x, s))"

definition sx_throw :: "exn \<Rightarrow> ('s, 'a) sx" where
  "sx_throw e = (\<lambda>s. (Inl e, s))"

definition sx_bind :: "('s, 'a) sx \<Rightarrow> ('a \<Rightarrow> ('s, 'b) sx) \<Rightarrow> ('s, 'b) sx" where
  "sx_bind m f = (\<lambda>s. case m s of (Inl e, t) \<Rightarrow> (Inl e, t) | (Inr x, t) \<Rightarrow> f x t)"

lemma sx_return_apply [sx_simps]: "sx_return x s = (Inr x, s)"
  by (simp add: sx_return_def)

lemma sx_throw_apply [sx_simps]: "sx_throw e s = (Inl e, s)"
  by (simp add: sx_throw_def)

lemma sx_bind_return [sx_simps]: "m s = (Inr x, t) \<Longrightarrow> sx_bind m f s = f x t"
  by (simp add: sx_bind_def)

lemma sx_bind_throw [sx_simps]: "m s = (Inl e, t) \<Longrightarrow> sx_bind m f s = (Inl e, t)"
  by (simp add: sx_bind_def)

lemma sx_bind_assoc: "sx_bind (sx_bind m f) g = sx_bind m (\<lambda>x. sx_bind (f x) g)"
  by (auto simp: sx_bind_def fun_eq_iff split: prod.splits sum.splits)

lemma sx_bind_eq_InrE:
  assumes "sx_bind m f s = (Inr y, u)"
  obtains x t where "m s = (Inr x, t)" and "f x t = (Inr y, u)"
  using assms by (auto simp: sx_bind_def split: prod.splits sum.splits)

text \<open>Pure calls that may throw, without a state of their own.\<close>

fun rbind :: "exn + 'a \<Rightarrow> ('a \<Rightarrow> exn + 'b) \<Rightarrow> exn + 'b" where
  "rbind (Inl e) f = Inl e"
| "rbind (Inr x) f = f x"

lemma rbind_eq_Inr: "rbind r f = Inr y \<longleftrightarrow> (\<exists>x. r = Inr x \<and> f x = Inr y)"
  by (cases r) auto

section \<open>Vectors\<close>

text \<open>
  \<open>operator[]\<close> of \<open>std::vector\<close> with a signed index: undefined outside the vector.
\<close>

definition vec_at :: "'a list \<Rightarrow> int \<Rightarrow> exn + 'a" where
  "vec_at xs i =
     (if 0 \<le> i \<and> i < int (length xs) then Inr (xs ! nat i)
      else Inl (Undefined_behaviour ''vector index out of range''))"

lemma vec_at_in [simp]: "0 \<le> i \<Longrightarrow> i < int (length xs) \<Longrightarrow> vec_at xs i = Inr (xs ! nat i)"
  by (simp add: vec_at_def)

lemma vec_at_Nil [simp]: "vec_at [] i = Inl (Undefined_behaviour ''vector index out of range'')"
  by (simp add: vec_at_def)

lemma vec_at_hd: "xs \<noteq> [] \<Longrightarrow> vec_at xs 0 = Inr (hd xs)"
  by (simp add: vec_at_def hd_conv_nth)

lemma vec_at_last: "xs \<noteq> [] \<Longrightarrow> vec_at xs (int (length xs) - 1) = Inr (last xs)"
  by (cases xs) (simp_all add: vec_at_def last_conv_nth)

text \<open>The conversion of a \<open>std::size_t\<close> to a 32-bit \<open>int\<close>.\<close>

definition int_of_size :: "int \<Rightarrow> int" where
  "int_of_size n = sint (word_of_int n :: 32 word)"

lemma int_of_size_small: "- (2 ^ 31) \<le> n \<Longrightarrow> n < 2 ^ 31 \<Longrightarrow> int_of_size n = n"
  by (simp add: int_of_size_def sint_sbintrunc' signed_take_bit_int_eq_self)

section \<open>Lists\<close>

lemma takeWhile_append_stop: "(\<forall>x \<in> set xs. P x) \<Longrightarrow> \<not> P y \<Longrightarrow> takeWhile P (xs @ y # ys) = xs"
  by (induction xs) auto

lemma dropWhile_append_stop: "(\<forall>x \<in> set xs. P x) \<Longrightarrow> \<not> P y \<Longrightarrow> dropWhile P (xs @ y # ys) = y # ys"
  by (induction xs) auto

text \<open>Lookup of a key in a list of items, the reference for every search of the program.\<close>

definition find_key :: "('a \<Rightarrow> 'k) \<Rightarrow> 'k \<Rightarrow> 'a list \<Rightarrow> 'a option" where
  "find_key f k xs = find (\<lambda>x. f x = k) xs"

lemma find_key_Nil [simp]: "find_key f k [] = None"
  by (simp add: find_key_def)

lemma find_key_Cons [simp]: "find_key f k (x # xs) = (if f x = k then Some x else find_key f k xs)"
  by (simp add: find_key_def)

lemma find_key_append: "find_key f k (xs @ ys) = (case find_key f k xs of None \<Rightarrow> find_key f k ys | Some x \<Rightarrow> Some x)"
  by (induction xs) auto

lemma find_key_None_iff: "find_key f k xs = None \<longleftrightarrow> k \<notin> f ` set xs"
  by (induction xs) auto

lemma find_key_SomeD: "find_key f k xs = Some x \<Longrightarrow> x \<in> set xs \<and> f x = k"
  by (induction xs) (auto split: if_splits)

lemma find_key_distinct:
  "distinct (map f xs) \<Longrightarrow> x \<in> set xs \<Longrightarrow> find_key f (f x) xs = Some x"
  by (induction xs) auto

lemma find_key_nth:
  assumes "distinct (map f xs)" and "i < length xs"
  shows "find_key f (f (xs ! i)) xs = Some (xs ! i)"
  using assms by (simp add: find_key_distinct)

text \<open>Strictly sorted keys.\<close>

abbreviation sorted_keys :: "('a \<Rightarrow> 'k::linorder) \<Rightarrow> 'a list \<Rightarrow> bool" where
  "sorted_keys f xs \<equiv> sorted_wrt (<) (map f xs)"

lemma sorted_keys_nth_less: "sorted_keys f xs \<Longrightarrow> i < j \<Longrightarrow> j < length xs \<Longrightarrow> f (xs ! i) < f (xs ! j)"
  using sorted_wrt_nth_less [of "(<)" "map f xs" i j] by simp

lemma sorted_keys_distinct: "sorted_keys f xs \<Longrightarrow> distinct (map f xs)"
  by (simp add: strict_sorted_iff)

lemma sorted_keys_sort: "sorted_keys f xs \<Longrightarrow> sort_key f xs = xs"
  by (simp add: strict_sorted_iff sorted_sort_id sort_key_id_if_sorted)

lemma sorted_keys_bounds:
  assumes "sorted_keys f xs" and "x \<in> set xs"
  shows "f (hd xs) \<le> f x" and "f x \<le> f (last xs)"
proof -
  obtain i where i: "i < length xs" "x = xs ! i" using assms(2) by (auto simp: in_set_conv_nth)
  then have ne: "xs \<noteq> []" by auto
  show "f (hd xs) \<le> f x"
    using i ne sorted_keys_nth_less [OF assms(1), of 0 i] by (cases i) (auto simp: hd_conv_nth)
  show "f x \<le> f (last xs)"
  proof (cases "i = length xs - 1")
    case False
    with i have "i < length xs - 1" by simp
    then show ?thesis
      using i ne sorted_keys_nth_less [OF assms(1), of i "length xs - 1"] by (simp add: last_conv_nth)
  qed (use i ne in \<open>simp add: last_conv_nth\<close>)
qed

end
