(* ===== verification/Entry.thy ===== *)
theory Entry
  imports Prelude
begin

text \<open>
  The value types of \<open>src/types\<close>: \<open>Entry\<close>, \<open>Error\<close>, \<open>Status\<close>, and the table metadata.
  The interface \<open>tinykv::Iterator\<close> of \<open>src/core/iterators/iterator.h\<close> is the locale \<open>cursor\<close>;
  each of its implementations is interpreted in the theory that models it.
\<close>

section \<open>Entry, Error, Status\<close>

record entry =
  e_key :: string
  e_val :: string
  e_tombstone :: bool

definition Entry :: "string \<Rightarrow> string \<Rightarrow> bool \<Rightarrow> entry" where
  "Entry k v t = \<lparr>e_key = k, e_val = v, e_tombstone = t\<rparr>"

lemma Entry_sel [simp]:
  "e_key (Entry k v t) = k" "e_val (Entry k v t) = v" "e_tombstone (Entry k v t) = t"
  by (simp_all add: Entry_def)

lemma Entry_collapse [simp]: "Entry (e_key e) (e_val e) (e_tombstone e) = e"
  by (simp add: Entry_def)

text \<open>\<open>Entry::operator<\<close> and \<open>operator==\<close> compare keys only.\<close>

definition entry_less :: "entry \<Rightarrow> entry \<Rightarrow> bool" where
  "entry_less a b \<longleftrightarrow> e_key a < e_key b"

definition entry_eq :: "entry \<Rightarrow> entry \<Rightarrow> bool" where
  "entry_eq a b \<longleftrightarrow> e_key a = e_key b"

text \<open>
  \<open>std::hash<Entry>\<close>, over the hash \<open>h\<close> of strings: it looks at the key only, as \<open>operator==\<close> does, so
  an \<open>std::unordered_set<Entry>\<close> holds one entry per key.
\<close>

definition entry_hash :: "(string \<Rightarrow> 'h) \<Rightarrow> entry \<Rightarrow> 'h" where
  "entry_hash h e = h (e_key e)"

lemma entry_hash_respects_eq: "entry_eq a b \<Longrightarrow> entry_hash h a = entry_hash h b"
  by (simp add: entry_eq_def entry_hash_def)

text \<open>\<open>operator<<\<close>\<close>

definition entry_show :: "entry \<Rightarrow> string" where
  "entry_show e = ''('' @ e_key e @ '', '' @ e_val e @ '', '' @ (if e_tombstone e then ''true'' else ''false'') @ '')''"

text \<open>
  \<open>std::sort\<close> over entries: sorted by key; on entries with distinct keys, the only ones the
  program sorts, every correct sort gives this result.
\<close>

definition std_sort :: "entry list \<Rightarrow> entry list" where
  "std_sort es = sort_key e_key es"

lemma std_sort_sorted: "sorted_keys e_key es \<Longrightarrow> std_sort es = es"
  by (simp add: std_sort_def sorted_keys_sort)

datatype error = Error (error_msg: string)

datatype status_code = kOk | kError

record status =
  m_code :: status_code
  m_msg :: string

definition Status_OK :: status where
  "Status_OK = \<lparr>m_code = kOk, m_msg = ''OK''\<rparr>"

definition Status_Error :: "string \<Rightarrow> status" where
  "Status_Error msg = \<lparr>m_code = kError, m_msg = msg\<rparr>"

definition status_ok :: "status \<Rightarrow> bool" where
  "status_ok s \<longleftrightarrow> m_code s = kOk"

lemma status_ok_simps [simp]: "status_ok Status_OK" "\<not> status_ok (Status_Error msg)"
  by (simp_all add: status_ok_def Status_OK_def Status_Error_def)

section \<open>Table metadata\<close>

record sstable_metadata =
  m_file_number :: u64
  m_timestamp :: u64
  m_min_key :: string
  m_max_key :: string

definition SSTableMetadata :: "u64 \<Rightarrow> u64 \<Rightarrow> string \<Rightarrow> string \<Rightarrow> sstable_metadata" where
  "SSTableMetadata fn ts mn mx =
     \<lparr>m_file_number = fn, m_timestamp = ts, m_min_key = mn, m_max_key = mx\<rparr>"

text \<open>The ordering rule for compaction: the file number.\<close>

definition metadata_less :: "sstable_metadata \<Rightarrow> sstable_metadata \<Rightarrow> bool" where
  "metadata_less a b \<longleftrightarrow> m_file_number a < m_file_number b"

section \<open>The iterator interface\<close>

text \<open>
  A cursor stands on one of the entries of its source or past the last one.  \<open>items\<close> and \<open>at\<close> are
  the abstraction: the entries of the source in order, and the position in them.
\<close>

locale cursor =
  fixes Valid :: "'i \<Rightarrow> bool"
    and SeekToFirst :: "'i \<Rightarrow> 'i"
    and SeekToLast :: "'i \<Rightarrow> 'i"
    and Next :: "'i \<Rightarrow> 'i"
    and current :: "'i \<Rightarrow> entry"
    and items :: "'i \<Rightarrow> entry list"
    and at :: "'i \<Rightarrow> nat"
  assumes Valid_iff: "Valid it \<longleftrightarrow> at it < length (items it)"
    and first_at: "at (SeekToFirst it) = 0"
    and first_items: "items (SeekToFirst it) = items it"
    and last_at: "items it \<noteq> [] \<Longrightarrow> at (SeekToLast it) = length (items it) - 1"
    and last_empty: "items it = [] \<Longrightarrow> \<not> Valid (SeekToLast it)"
    and last_items: "items (SeekToLast it) = items it"
    and next_at: "Valid it \<Longrightarrow> at (Next it) = Suc (at it)"
    and next_items: "items (Next it) = items it"
    and current_item: "Valid it \<Longrightarrow> current it = items it ! at it"
begin

lemma SeekToFirst_Valid: "Valid (SeekToFirst it) \<longleftrightarrow> items it \<noteq> []"
  by (simp add: Valid_iff first_at first_items)

lemma SeekToLast_Valid: "Valid (SeekToLast it) \<longleftrightarrow> items it \<noteq> []"
  using last_empty [of it] last_at [of it] by (cases "items it") (auto simp: Valid_iff last_items)

text \<open>
  Any loop of the shape \<open>for (it.SeekToFirst(); it.Valid(); it.Next()) use(*it)\<close>, given by its two
  unfolding equations, visits the entries of the source once each, in order.
\<close>

lemma scan_suffix:
  assumes stop: "\<And>it. \<not> Valid it \<Longrightarrow> loop it = []"
    and step: "\<And>it. Valid it \<Longrightarrow> loop it = current it # loop (Next it)"
  shows "loop it = drop (at it) (items it)"
proof (induction "length (items it) - at it" arbitrary: it)
  case 0
  then show ?case using stop by (simp add: Valid_iff)
next
  case (Suc n)
  then have v: "Valid it" by (simp add: Valid_iff)
  with Suc.hyps(2) have "n = length (items (Next it)) - at (Next it)"
    by (simp add: next_at next_items)
  from Suc.hyps(1) [OF this] v have "loop it = items it ! at it # drop (Suc (at it)) (items it)"
    by (simp add: step current_item next_at next_items)
  then show ?case
    using v by (simp add: Valid_iff Cons_nth_drop_Suc)
qed

lemma scan_all:
  assumes "\<And>it. \<not> Valid it \<Longrightarrow> loop it = []"
    and "\<And>it. Valid it \<Longrightarrow> loop it = current it # loop (Next it)"
  shows "loop (SeekToFirst it) = items it"
  using scan_suffix [of loop, OF assms] by (simp add: first_at first_items)

end

end
