(* ===== verification/Skip_List.thy ===== *)
theory Skip_List
  imports Entry
begin

text \<open>
  \<open>SkipListImpl\<close> (\<open>src/core/skip_list\<close>), the ordered in-memory store behind the memtable.  The code
  keeps a \<open>std::map<std::string, Entry>\<close>; the model keeps its key/value pairs in iteration order,
  which is the order of the keys.  The store meets the contract \<open>ordered_store\<close>, and its nested
  iterator the contract \<open>cursor\<close>.
\<close>

section \<open>The store\<close>

record skip_list =
  m_map :: "(string \<times> entry) list"

text \<open>\<open>std::map::operator[]\<close> followed by an assignment.\<close>

fun map_assign :: "string \<Rightarrow> entry \<Rightarrow> (string \<times> entry) list \<Rightarrow> (string \<times> entry) list" where
  "map_assign k e [] = [(k, e)]"
| "map_assign k e ((k', e') # m) =
     (if k < k' then (k, e) # (k', e') # m
      else if k = k' then (k, e) # m
      else (k', e') # map_assign k e m)"

definition skip_list_empty :: skip_list where
  "skip_list_empty = \<lparr>m_map = []\<rparr>"

definition skip_list_set :: "entry \<Rightarrow> skip_list \<Rightarrow> error option \<times> skip_list" where
  "skip_list_set e s = (None, s\<lparr>m_map := map_assign (e_key e) e (m_map s)\<rparr>)"

definition skip_list_get :: "string \<Rightarrow> skip_list \<Rightarrow> entry option" where
  "skip_list_get k s = map_of (m_map s) k"

definition skip_list_getAll :: "skip_list \<Rightarrow> entry list option" where
  "skip_list_getAll s = Some (map snd (m_map s))"

text \<open>The length is converted from \<open>std::size_t\<close> to \<open>int\<close>.\<close>

definition skip_list_getLength :: "skip_list \<Rightarrow> int option" where
  "skip_list_getLength s = Some (int_of_size (int (length (m_map s))))"

definition skip_list_clear :: "skip_list \<Rightarrow> error option \<times> skip_list" where
  "skip_list_clear s = (None, s\<lparr>m_map := []\<rparr>)"

section \<open>The iterator\<close>

text \<open>A \<open>std::map\<close> iterator is a position in the sequence; \<open>end()\<close> is one past the last.\<close>

record skip_iter =
  it_map :: "(string \<times> entry) list"
  it_pos :: nat

definition skip_list_NewIterator :: "skip_list \<Rightarrow> skip_iter" where
  "skip_list_NewIterator s = \<lparr>it_map = m_map s, it_pos = length (m_map s)\<rparr>"

definition skip_iter_Valid :: "skip_iter \<Rightarrow> bool" where
  "skip_iter_Valid it \<longleftrightarrow> it_pos it < length (it_map it)"

definition skip_iter_SeekToFirst :: "skip_iter \<Rightarrow> skip_iter" where
  "skip_iter_SeekToFirst it = it\<lparr>it_pos := 0\<rparr>"

definition skip_iter_SeekToLast :: "skip_iter \<Rightarrow> skip_iter" where
  "skip_iter_SeekToLast it =
     (if it_map it = [] then it\<lparr>it_pos := length (it_map it)\<rparr>
      else it\<lparr>it_pos := length (it_map it) - 1\<rparr>)"

text \<open>\<open>std::map::find\<close>: the position of the key, or the end.\<close>

fun map_find :: "string \<Rightarrow> (string \<times> entry) list \<Rightarrow> nat" where
  "map_find k [] = 0"
| "map_find k ((k', e) # m) = (if k = k' then 0 else Suc (map_find k m))"

definition skip_iter_Seek :: "string \<Rightarrow> skip_iter \<Rightarrow> skip_iter" where
  "skip_iter_Seek k it = it\<lparr>it_pos := map_find k (it_map it)\<rparr>"

definition skip_iter_Next :: "skip_iter \<Rightarrow> skip_iter" where
  "skip_iter_Next it = (if skip_iter_Valid it then it\<lparr>it_pos := Suc (it_pos it)\<rparr> else it)"

definition skip_iter_Key :: "skip_iter \<Rightarrow> string" where
  "skip_iter_Key it = e_key (snd (it_map it ! it_pos it))"

definition skip_iter_Value :: "skip_iter \<Rightarrow> string" where
  "skip_iter_Value it = e_val (snd (it_map it ! it_pos it))"

definition skip_iter_isTombstone :: "skip_iter \<Rightarrow> bool" where
  "skip_iter_isTombstone it = e_tombstone (snd (it_map it ! it_pos it))"

definition skip_iter_current :: "skip_iter \<Rightarrow> entry" where
  "skip_iter_current it = Entry (skip_iter_Key it) (skip_iter_Value it) (skip_iter_isTombstone it)"

definition skip_iter_items :: "skip_iter \<Rightarrow> entry list" where
  "skip_iter_items it = map snd (it_map it)"

lemmas skip_iter_defs =
  skip_iter_Valid_def skip_iter_SeekToFirst_def skip_iter_SeekToLast_def skip_iter_Next_def
  skip_iter_Key_def skip_iter_Value_def skip_iter_isTombstone_def skip_iter_current_def
  skip_iter_items_def

interpretation skit: cursor skip_iter_Valid skip_iter_SeekToFirst skip_iter_SeekToLast
    skip_iter_Next skip_iter_current skip_iter_items it_pos
  by unfold_locales (auto simp: skip_iter_defs)

section \<open>What the store promises\<close>

text \<open>
  The contract between the memtable and its store: lookups see the last write of a key, and the
  entries come out ordered by key with no key twice.
\<close>

locale ordered_store =
  fixes empty :: 's
    and put_entry :: "entry \<Rightarrow> 's \<Rightarrow> 's"
    and lookup :: "string \<Rightarrow> 's \<Rightarrow> entry option"
    and listing :: "'s \<Rightarrow> entry list"
    and invar :: "'s \<Rightarrow> bool"
  assumes invar_empty: "invar empty"
    and invar_put: "invar s \<Longrightarrow> invar (put_entry e s)"
    and lookup_empty: "lookup k empty = None"
    and lookup_put: "invar s \<Longrightarrow> lookup k (put_entry e s) = (if k = e_key e then Some e else lookup k s)"
    and listing_sorted: "invar s \<Longrightarrow> sorted_keys e_key (listing s)"
    and listing_lookup: "invar s \<Longrightarrow> find_key e_key k (listing s) = lookup k s"
begin

lemma invar_fold: "invar s \<Longrightarrow> invar (fold put_entry es s)"
  by (induction es arbitrary: s) (simp_all add: invar_put)

text \<open>After a sequence of writes a lookup returns the latest write of the key.\<close>

lemma lookup_fold:
  "invar s \<Longrightarrow> lookup k (fold put_entry es s) =
     (case find_key e_key k (rev es) of None \<Rightarrow> lookup k s | Some e \<Rightarrow> Some e)"
proof (induction es arbitrary: s)
  case (Cons e es)
  then show ?case
    by (auto simp: invar_put lookup_put find_key_append split: option.splits)
qed simp

end

definition skip_list_inv :: "skip_list \<Rightarrow> bool" where
  "skip_list_inv s \<longleftrightarrow> sorted_keys fst (m_map s) \<and> (\<forall>x \<in> set (m_map s). e_key (snd x) = fst x)"

lemma fst_map_assign: "fst ` set (map_assign k e m) = insert k (fst ` set m)"
  by (induction k e m rule: map_assign.induct) auto

lemma sorted_map_assign: "sorted_keys fst m \<Longrightarrow> sorted_keys fst (map_assign k e m)"
  by (induction k e m rule: map_assign.induct) (auto simp: fst_map_assign)

lemma keys_map_assign:
  "\<forall>x \<in> set m. e_key (snd x) = fst x \<Longrightarrow> e_key e = k \<Longrightarrow>
     \<forall>x \<in> set (map_assign k e m). e_key (snd x) = fst x"
  by (induction k e m rule: map_assign.induct) auto

lemma map_of_map_assign: "map_of (map_assign k e m) = (map_of m)(k \<mapsto> e)"
  by (induction k e m rule: map_assign.induct) (auto simp: fun_eq_iff)

lemma length_map_assign: "length (map_assign k e m) \<le> Suc (length m)"
  by (induction k e m rule: map_assign.induct) auto

lemma keys_snd: "\<forall>x \<in> set m. e_key (snd x) = fst x \<Longrightarrow> map (e_key \<circ> snd) m = map fst m"
  by (induction m) auto

lemma find_key_snd: "\<forall>x \<in> set m. e_key (snd x) = fst x \<Longrightarrow> find_key e_key k (map snd m) = map_of m k"
  by (induction m) auto

interpretation sl: ordered_store skip_list_empty "\<lambda>e s. snd (skip_list_set e s)" skip_list_get
    "\<lambda>s. the (skip_list_getAll s)" skip_list_inv
  by unfold_locales
    (auto simp: skip_list_inv_def skip_list_empty_def skip_list_set_def skip_list_get_def
      skip_list_getAll_def sorted_map_assign map_of_map_assign keys_snd find_key_snd
      intro: keys_map_assign [rule_format])

text \<open>Scanning a fresh iterator over the store visits exactly \<open>getAll()\<close>.\<close>

lemma skip_iter_items_new [simp]: "skip_iter_items (skip_list_NewIterator s) = map snd (m_map s)"
  by (simp add: skip_iter_items_def skip_list_NewIterator_def)

lemma map_find_le: "map_find k m \<le> length m"
  by (induction k m rule: map_find.induct) auto

lemma map_find_less_iff: "map_find k m < length m \<longleftrightarrow> k \<in> fst ` set m"
  by (induction k m rule: map_find.induct) auto

lemma map_find_nth: "map_find k m < length m \<Longrightarrow> fst (m ! map_find k m) = k"
  by (induction k m rule: map_find.induct) auto

end
