(* ===== verification/SSTable.thy ===== *)
theory SSTable
  imports Entry
begin

text \<open>
  \<open>SSTable\<close> (\<open>src/core/sstable_manager/sstable.{h,cpp}\<close>, \<open>sstable_iterator.cpp\<close>): a table held in
  memory as a vector of entries sorted by key, its binary searches with \<open>int\<close> bounds, and its
  iterator.  Every vector access goes through \<^const>\<open>vec_at\<close>, so that an index outside the vector
  would show up as \<^const>\<open>Undefined_behaviour\<close>; the search theorems exclude it.
\<close>

section \<open>The table\<close>

record sstable =
  m_meta :: sstable_metadata
  m_entries :: "entry list"

definition SSTable :: "sstable_metadata \<Rightarrow> entry list \<Rightarrow> sstable" where
  "SSTable meta es = \<lparr>m_meta = meta, m_entries = std_sort es\<rparr>"

text \<open>The loop of \<open>SSTable::get\<close> and the comparison after it.\<close>

function sstable_search :: "entry list \<Rightarrow> string \<Rightarrow> int \<Rightarrow> int \<Rightarrow> exn + entry option" where
  "sstable_search es k l r =
     (if l < r then
        (let mid = l + (r - l) div 2
         in rbind (vec_at es mid) (\<lambda>midEntry.
              if e_key midEntry = k then Inr (Some midEntry)
              else if k < e_key midEntry then sstable_search es k l (mid - 1)
              else sstable_search es k (mid + 1) r))
      else rbind (vec_at es l) (\<lambda>e. if e_key e = k then Inr (Some e) else Inr None))"
  by pat_completeness auto
termination
  by (relation "measure (\<lambda>(es, k, l, r). nat (r - l))") auto

declare sstable_search.simps [simp del]

definition sstable_get :: "string \<Rightarrow> sstable \<Rightarrow> exn + entry option" where
  "sstable_get k t =
     (if length (m_entries t) = 0 then Inr None
      else sstable_search (m_entries t) k 0 (int_of_size (int (length (m_entries t)) - 1)))"

definition sstable_getStartKey :: "sstable \<Rightarrow> exn + string" where
  "sstable_getStartKey t = rbind (vec_at (m_entries t) 0) (\<lambda>e. Inr (e_key e))"

definition sstable_getEndKey :: "sstable \<Rightarrow> exn + string" where
  "sstable_getEndKey t =
     rbind (vec_at (m_entries t) (int (length (m_entries t)) - 1)) (\<lambda>e. Inr (e_key e))"

definition sstable_withinRange :: "string \<Rightarrow> sstable \<Rightarrow> exn + bool" where
  "sstable_withinRange k t =
     rbind (vec_at (m_entries t) 0) (\<lambda>a.
       if e_key a \<le> k
       then rbind (vec_at (m_entries t) (int (length (m_entries t)) - 1)) (\<lambda>b. Inr (k \<le> e_key b))
       else Inr False)"

definition sstable_getSize :: "sstable \<Rightarrow> nat" where
  "sstable_getSize t = length (m_entries t)"

definition sstable_getEntries :: "sstable \<Rightarrow> entry list" where
  "sstable_getEntries t = m_entries t"

section \<open>The iterator\<close>

record table_iter =
  ti_index :: nat
  ti_table :: sstable

definition sstable_NewIterator :: "sstable \<Rightarrow> table_iter" where
  "sstable_NewIterator t = \<lparr>ti_index = 0, ti_table = t\<rparr>"

definition table_iter_Valid :: "table_iter \<Rightarrow> bool" where
  "table_iter_Valid it \<longleftrightarrow> ti_index it < length (m_entries (ti_table it))"

definition table_iter_SeekToFirst :: "table_iter \<Rightarrow> table_iter" where
  "table_iter_SeekToFirst it = it\<lparr>ti_index := 0\<rparr>"

definition table_iter_SeekToLast :: "table_iter \<Rightarrow> table_iter" where
  "table_iter_SeekToLast it =
     (if m_entries (ti_table it) = [] then it\<lparr>ti_index := 0\<rparr>
      else it\<lparr>ti_index := length (m_entries (ti_table it)) - 1\<rparr>)"

text \<open>The loop of \<open>Iter::Seek\<close>: the index of the entry with the key, if the search finds one.\<close>

function table_iter_seek_loop :: "entry list \<Rightarrow> string \<Rightarrow> int \<Rightarrow> int \<Rightarrow> exn + int option" where
  "table_iter_seek_loop es k l r =
     (if l \<le> r then
        (let mid = l + (r - l) div 2
         in rbind (vec_at es mid) (\<lambda>midEntry.
              if e_key midEntry = k then Inr (Some mid)
              else if k < e_key midEntry then table_iter_seek_loop es k l (mid - 1)
              else table_iter_seek_loop es k (mid + 1) r))
      else Inr None)"
  by pat_completeness auto
termination
  by (relation "measure (\<lambda>(es, k, l, r). nat (r + 1 - l))") auto

declare table_iter_seek_loop.simps [simp del]

definition table_iter_Seek :: "string \<Rightarrow> table_iter \<Rightarrow> exn + table_iter" where
  "table_iter_Seek k it =
     (let es = m_entries (ti_table it)
      in if length es = 0 then Inr (it\<lparr>ti_index := length es\<rparr>)
         else rbind (table_iter_seek_loop es k 0 (int_of_size (int (length es) - 1))) (\<lambda>found.
                case found of
                  Some i \<Rightarrow> Inr (it\<lparr>ti_index := nat i\<rparr>)
                | None \<Rightarrow> Inr (it\<lparr>ti_index := length es\<rparr>)))"

definition table_iter_Next :: "table_iter \<Rightarrow> table_iter" where
  "table_iter_Next it =
     (if ti_index it < length (m_entries (ti_table it)) then it\<lparr>ti_index := Suc (ti_index it)\<rparr> else it)"

definition table_iter_Key :: "table_iter \<Rightarrow> string" where
  "table_iter_Key it = e_key (m_entries (ti_table it) ! ti_index it)"

definition table_iter_Value :: "table_iter \<Rightarrow> string" where
  "table_iter_Value it = e_val (m_entries (ti_table it) ! ti_index it)"

definition table_iter_isTombstone :: "table_iter \<Rightarrow> bool" where
  "table_iter_isTombstone it = e_tombstone (m_entries (ti_table it) ! ti_index it)"

definition table_iter_current :: "table_iter \<Rightarrow> entry" where
  "table_iter_current it =
     Entry (table_iter_Key it) (table_iter_Value it) (table_iter_isTombstone it)"

definition table_iter_items :: "table_iter \<Rightarrow> entry list" where
  "table_iter_items it = m_entries (ti_table it)"

lemmas table_iter_defs =
  table_iter_Valid_def table_iter_SeekToFirst_def table_iter_SeekToLast_def table_iter_Next_def
  table_iter_Key_def table_iter_Value_def table_iter_isTombstone_def table_iter_current_def
  table_iter_items_def

interpretation tbit: cursor table_iter_Valid table_iter_SeekToFirst table_iter_SeekToLast
    table_iter_Next table_iter_current table_iter_items ti_index
  by unfold_locales (auto simp: table_iter_defs)

section \<open>Searching\<close>

text \<open>
  The state of a binary search in a sorted vector: the key can only be at an index in \<open>{l..r}\<close>.
\<close>

definition narrowed :: "entry list \<Rightarrow> string \<Rightarrow> int \<Rightarrow> int \<Rightarrow> bool" where
  "narrowed es k l r \<longleftrightarrow>
     0 \<le> l \<and> r < int (length es) \<and>
     (\<forall>i < length es. int i < l \<longrightarrow> e_key (es ! i) < k) \<and>
     (\<forall>i < length es. r < int i \<longrightarrow> k < e_key (es ! i))"

lemma narrowed_init: "narrowed es k 0 (int (length es) - 1)"
  by (auto simp: narrowed_def)

lemma sorted_keys_int_less:
  assumes "sorted_keys f es" and "i < j" and "0 \<le> i" and "j < int (length es)"
  shows "f (es ! nat i) < f (es ! nat j)"
  using assms by (intro sorted_keys_nth_less) auto

lemma narrowed_left:
  assumes "sorted_keys e_key es" and "narrowed es k l r" and "0 \<le> m" and "m < int (length es)"
    and "k < e_key (es ! nat m)"
  shows "narrowed es k l (m - 1)"
proof -
  have "k < e_key (es ! i)" if "i < length es" "m - 1 < int i" for i
  proof (cases "int i = m")
    case False
    then have "e_key (es ! nat m) < e_key (es ! nat (int i))"
      using that assms by (intro sorted_keys_int_less) auto
    then show ?thesis using assms(5) by simp
  qed (use assms in auto)
  then show ?thesis using assms by (auto simp: narrowed_def)
qed

lemma narrowed_right:
  assumes "sorted_keys e_key es" and "narrowed es k l r" and "0 \<le> m" and "m < int (length es)"
    and "e_key (es ! nat m) < k"
  shows "narrowed es k (m + 1) r"
proof -
  have "e_key (es ! i) < k" if "i < length es" "int i < m + 1" for i
  proof (cases "int i = m")
    case False
    then have "e_key (es ! nat (int i)) < e_key (es ! nat m)"
      using that assms by (intro sorted_keys_int_less) auto
    then show ?thesis using assms(5) by simp
  qed (use assms in auto)
  then show ?thesis using assms by (auto simp: narrowed_def)
qed

lemma narrowed_absent:
  assumes "narrowed es k l r" and "\<forall>i < length es. l \<le> int i \<longrightarrow> int i \<le> r \<longrightarrow> e_key (es ! i) \<noteq> k"
  shows "find_key e_key k es = None"
proof -
  have "e_key (es ! i) \<noteq> k" if "i < length es" for i
    using assms that by (fastforce simp: narrowed_def)
  then have "k \<notin> e_key ` set es" by (metis imageE in_set_conv_nth)
  then show ?thesis by (simp add: find_key_None_iff)
qed

lemma sstable_search_correct:
  assumes "sorted_keys e_key es" and "narrowed es k l r" and "l < int (length es)" and "l - 1 \<le> r"
  shows "sstable_search es k l r = Inr (find_key e_key k es)"
  using assms
proof (induction "nat (r - l + 1)" arbitrary: l r rule: less_induct)
  case less
  let ?m = "l + (r - l) div 2"
  have d: "distinct (map e_key es)" using less(2) by (rule sorted_keys_distinct)
  have l: "0 \<le> l" and r: "r < int (length es)" using less(3) by (simp_all add: narrowed_def)
  note step = sstable_search.simps [of es k l r]
  show ?case
  proof (cases "l < r")
    case True
    then have m: "0 \<le> ?m" "?m < int (length es)" "l \<le> ?m" "?m < r" using l r by auto
    consider "e_key (es ! nat ?m) = k" | "k < e_key (es ! nat ?m)" | "e_key (es ! nat ?m) < k"
      by force
    then show ?thesis
    proof cases
      case 1
      then show ?thesis using True m d find_key_nth [of e_key es "nat ?m"] by (auto simp: step Let_def)
    next
      case 2
      have "sstable_search es k l (?m - 1) = Inr (find_key e_key k es)"
        using m True less(2,4) narrowed_left [OF less(2,3) m(1,2) 2] by (intro less(1)) auto
      then show ?thesis using 2 True m by (auto simp: step Let_def)
    next
      case 3
      have "sstable_search es k (?m + 1) r = Inr (find_key e_key k es)"
        using m True r less(2) narrowed_right [OF less(2,3) m(1,2) 3] by (intro less(1)) auto
      then show ?thesis using 3 True m by (auto simp: step Let_def)
    qed
  next
    case False
    show ?thesis
    proof (cases "e_key (es ! nat l) = k")
      case True
      then show ?thesis using False l less(4) d find_key_nth [of e_key es "nat l"] by (auto simp: step)
    next
      case neq: False
      then have "find_key e_key k es = None"
        using False l less(5) by (intro narrowed_absent [OF less(3)]) (auto dest: order_antisym)
      then show ?thesis using False neq l less(4) by (simp add: step)
    qed
  qed
qed

lemma table_iter_seek_loop_correct:
  assumes "sorted_keys e_key es" and "narrowed es k l r"
  shows "case find_key e_key k es of
      None \<Rightarrow> table_iter_seek_loop es k l r = Inr None
    | Some e \<Rightarrow> \<exists>i < length es. table_iter_seek_loop es k l r = Inr (Some (int i)) \<and> es ! i = e"
    (is "?P l r")
  using assms
proof (induction "nat (r - l + 1)" arbitrary: l r rule: less_induct)
  case less
  let ?m = "l + (r - l) div 2"
  have d: "distinct (map e_key es)" using less(2) by (rule sorted_keys_distinct)
  have l: "0 \<le> l" and r: "r < int (length es)" using less(3) by (simp_all add: narrowed_def)
  note step = table_iter_seek_loop.simps [of es k l r]
  show ?case
  proof (cases "l \<le> r")
    case True
    then have m: "0 \<le> ?m" "?m < int (length es)" "l \<le> ?m" "?m \<le> r" using l r by auto
    consider "e_key (es ! nat ?m) = k" | "k < e_key (es ! nat ?m)" | "e_key (es ! nat ?m) < k"
      by force
    then show ?thesis
    proof cases
      case 1
      then have "find_key e_key k es = Some (es ! nat ?m)"
        using m d find_key_nth [of e_key es "nat ?m"] by auto
      moreover have "table_iter_seek_loop es k l r = Inr (Some (int (nat ?m)))" 
        using 1 m True by (auto simp: step Let_def)
      moreover have "nat ?m < length es" using m by auto
      ultimately show ?thesis by auto
    next
      case 2
      have "?P l (?m - 1)"
        using m True less(2) narrowed_left [OF less(2,3) m(1,2) 2] by (intro less(1)) auto
      moreover have "table_iter_seek_loop es k l r = table_iter_seek_loop es k l (?m - 1)"
        using 2 True m by (auto simp: step Let_def)
      ultimately show ?thesis by (simp only:)
    next
      case 3
      have "?P (?m + 1) r"
        using m True less(2) narrowed_right [OF less(2,3) m(1,2) 3] by (intro less(1)) auto
      moreover have "table_iter_seek_loop es k l r = table_iter_seek_loop es k (?m + 1) r"
        using 3 True m by (auto simp: step Let_def)
      ultimately show ?thesis by (simp only:)
    qed
  next
    case False
    then have "find_key e_key k es = None"
      by (intro narrowed_absent [OF less(3)]) auto
    then show ?thesis using False by (simp add: step)
  qed
qed

text \<open>A sorted table: the class invariants 3 and 4, and a size that fits the \<open>int\<close> bounds.\<close>

definition sstable_ok :: "sstable \<Rightarrow> bool" where
  "sstable_ok t \<longleftrightarrow> sorted_keys e_key (m_entries t) \<and> length (m_entries t) < 2 ^ 31"

lemma sstable_ok_new:
  assumes "sorted_keys e_key es" and "length es < 2 ^ 31"
  shows "sstable_ok (SSTable meta es)" and "m_entries (SSTable meta es) = es" and "m_meta (SSTable meta es) = meta"
  using assms by (simp_all add: sstable_ok_def SSTable_def std_sort_sorted)

lemma sstable_get_ok:
  assumes "sstable_ok t"
  shows "sstable_get k t = Inr (find_key e_key k (m_entries t))"
proof (cases "m_entries t = []")
  case False
  then have "int_of_size (int (length (m_entries t)) - 1) = int (length (m_entries t)) - 1"
    using assms by (intro int_of_size_small) (simp_all add: sstable_ok_def)
  then show ?thesis
    using False assms sstable_search_correct [OF _ narrowed_init, of "m_entries t" k]
    by (simp add: sstable_get_def sstable_ok_def)
qed (simp add: sstable_get_def)

text \<open>On a non-empty table \<open>withinRange\<close> is defined, and it never rejects a key the table holds.\<close>

lemma sstable_withinRange_ok:
  assumes "m_entries t \<noteq> []"
  shows "sstable_withinRange k t =
    Inr (e_key (hd (m_entries t)) \<le> k \<and> k \<le> e_key (last (m_entries t)))"
  using assms by (cases "m_entries t") 
    (auto simp: sstable_withinRange_def vec_at_def last_conv_nth nat_diff_distrib)

lemma sstable_withinRange_key:
  assumes "sstable_ok t" and "find_key e_key k (m_entries t) = Some e"
  shows "sstable_withinRange k t = Inr True"
proof -
  have e: "e \<in> set (m_entries t)" "e_key e = k" using find_key_SomeD [OF assms(2)] by auto
  then have "m_entries t \<noteq> []" by auto
  with e show ?thesis
    using sstable_withinRange_ok [of t k] sorted_keys_bounds [of e_key "m_entries t" e] assms(1)
    by (auto simp: sstable_ok_def)
qed

text \<open>\<open>Seek\<close> stands on the entry with the key, or is no longer valid.\<close>

lemma table_iter_Seek_ok:
  assumes "sstable_ok (ti_table it)"
  shows "\<exists>it'. table_iter_Seek k it = Inr it' \<and> ti_table it' = ti_table it \<and>
    (case find_key e_key k (table_iter_items it) of
       None \<Rightarrow> \<not> table_iter_Valid it'
     | Some e \<Rightarrow> table_iter_Valid it' \<and> table_iter_current it' = e)"
proof (cases "m_entries (ti_table it) = []")
  case True
  then show ?thesis by (simp add: table_iter_Seek_def table_iter_defs)
next
  case False
  let ?es = "m_entries (ti_table it)"
  have r: "int_of_size (int (length ?es) - 1) = int (length ?es) - 1"
    using False assms by (intro int_of_size_small) (simp_all add: sstable_ok_def)
  have s: "sorted_keys e_key ?es" using assms by (simp add: sstable_ok_def)
  show ?thesis
    using table_iter_seek_loop_correct [OF s narrowed_init, of k] False r
    by (auto simp: table_iter_Seek_def table_iter_defs Let_def split: option.splits)
qed

section \<open>Properties\<close>

text \<open>
  C12: on a sorted table of fewer than \<open>2 ^ 31\<close> entries the binary search of \<open>SSTable::get\<close> never
  indexes outside the vector and returns the entry with the key, or nothing when there is none.
\<close>

theorem sstable_get_finds_key:
  assumes "sorted_keys e_key es" and "length es < 2 ^ 31"
  shows "sstable_get k (SSTable meta es) = Inr (find_key e_key k es)"
  using sstable_get_ok [OF sstable_ok_new(1) [OF assms]] sstable_ok_new(2) [OF assms] by simp

theorem sstable_get_finds_key_witness:
  "sstable_get ''b'' (SSTable (SSTableMetadata 1 2 ''a'' ''c'')
      [Entry ''a'' ''1'' False, Entry ''b'' ''2'' False, Entry ''c'' [] True]) =
    Inr (Some (Entry ''b'' ''2'' False))"
  using sstable_get_finds_key
    [of "[Entry ''a'' ''1'' False, Entry ''b'' ''2'' False, Entry ''c'' [] True]" "''b''" "SSTableMetadata 1 2 ''a'' ''c''"]
  by (simp add: less_char_def)

text \<open>
  On such a table \<open>Iter::Seek\<close> also stays inside the vector; afterwards the iterator is valid
  exactly when the table holds the key, and then stands on its entry.
\<close>

theorem sstable_seek_finds_key:
  assumes "sorted_keys e_key es" and "length es < 2 ^ 31"
  shows "\<exists>it. table_iter_Seek k (sstable_NewIterator (SSTable meta es)) = Inr it \<and>
    (table_iter_Valid it \<longleftrightarrow> k \<in> e_key ` set es) \<and>
    (table_iter_Valid it \<longrightarrow> find_key e_key k es = Some (table_iter_current it))"
proof -
  let ?it = "sstable_NewIterator (SSTable meta es)"
  have "sstable_ok (ti_table ?it)" "table_iter_items ?it = es"
    using sstable_ok_new [OF assms] by (simp_all add: sstable_NewIterator_def table_iter_items_def)
  then obtain it where "table_iter_Seek k ?it = Inr it"
    "case find_key e_key k es of None \<Rightarrow> \<not> table_iter_Valid it
     | Some e \<Rightarrow> table_iter_Valid it \<and> table_iter_current it = e"
    using table_iter_Seek_ok [of ?it k] by auto
  then show ?thesis
    using find_key_None_iff [of e_key k es] by (auto split: option.splits)
qed

theorem sstable_seek_finds_key_witness:
  "\<exists>it. table_iter_Seek ''b'' (sstable_NewIterator (SSTable (SSTableMetadata 1 2 ''a'' ''b'')
      [Entry ''a'' ''1'' False, Entry ''b'' ''2'' False])) = Inr it \<and>
    table_iter_Valid it \<and> table_iter_current it = Entry ''b'' ''2'' False"
  using sstable_seek_finds_key
    [of "[Entry ''a'' ''1'' False, Entry ''b'' ''2'' False]" "''b''" "SSTableMetadata 1 2 ''a'' ''b''"]
  by (auto simp: less_char_def)

end
