(* ===== verification/Iterators.thy ===== *)
theory Iterators
  imports Skip_List SSTable
begin

text \<open>
  A \<open>tinykv::Iterator &\<close> of \<open>src/core/iterators/iterator.h\<close> is one of the two iterators of the
  program; the virtual calls dispatch on which.  The table formats consume their input through this
  type.
\<close>

section \<open>Dispatch\<close>

datatype kv_iterator = Skip_it skip_iter | Table_it table_iter

fun it_Valid :: "kv_iterator \<Rightarrow> bool" where
  "it_Valid (Skip_it i) = skip_iter_Valid i"
| "it_Valid (Table_it i) = table_iter_Valid i"

fun it_SeekToFirst :: "kv_iterator \<Rightarrow> kv_iterator" where
  "it_SeekToFirst (Skip_it i) = Skip_it (skip_iter_SeekToFirst i)"
| "it_SeekToFirst (Table_it i) = Table_it (table_iter_SeekToFirst i)"

fun it_SeekToLast :: "kv_iterator \<Rightarrow> kv_iterator" where
  "it_SeekToLast (Skip_it i) = Skip_it (skip_iter_SeekToLast i)"
| "it_SeekToLast (Table_it i) = Table_it (table_iter_SeekToLast i)"

fun it_Seek :: "string \<Rightarrow> kv_iterator \<Rightarrow> exn + kv_iterator" where
  "it_Seek k (Skip_it i) = Inr (Skip_it (skip_iter_Seek k i))"
| "it_Seek k (Table_it i) = rbind (table_iter_Seek k i) (\<lambda>j. Inr (Table_it j))"

fun it_Next :: "kv_iterator \<Rightarrow> kv_iterator" where
  "it_Next (Skip_it i) = Skip_it (skip_iter_Next i)"
| "it_Next (Table_it i) = Table_it (table_iter_Next i)"

fun it_Key :: "kv_iterator \<Rightarrow> string" where
  "it_Key (Skip_it i) = skip_iter_Key i"
| "it_Key (Table_it i) = table_iter_Key i"

fun it_Value :: "kv_iterator \<Rightarrow> string" where
  "it_Value (Skip_it i) = skip_iter_Value i"
| "it_Value (Table_it i) = table_iter_Value i"

fun it_isTombstone :: "kv_iterator \<Rightarrow> bool" where
  "it_isTombstone (Skip_it i) = skip_iter_isTombstone i"
| "it_isTombstone (Table_it i) = table_iter_isTombstone i"

definition it_current :: "kv_iterator \<Rightarrow> entry" where
  "it_current it = Entry (it_Key it) (it_Value it) (it_isTombstone it)"

section \<open>Abstraction\<close>

fun it_items :: "kv_iterator \<Rightarrow> entry list" where
  "it_items (Skip_it i) = skip_iter_items i"
| "it_items (Table_it i) = table_iter_items i"

fun it_at :: "kv_iterator \<Rightarrow> nat" where
  "it_at (Skip_it i) = it_pos i"
| "it_at (Table_it i) = ti_index i"

lemma it_current_simps [simp]:
  "it_current (Skip_it i) = skip_iter_current i"
  "it_current (Table_it j) = table_iter_current j"
  by (simp_all add: it_current_def skip_iter_current_def table_iter_current_def)

lemma it_current_key: "e_key (it_current it) = it_Key it"
  by (simp add: it_current_def)

interpretation it: cursor it_Valid it_SeekToFirst it_SeekToLast it_Next it_current it_items it_at
proof (unfold_locales, goal_cases)
  case (1 i)
  then show ?case by (cases i) (simp_all add: skit.Valid_iff tbit.Valid_iff)
next
  case (2 i)
  then show ?case by (cases i) (simp_all add: skit.first_at tbit.first_at)
next
  case (3 i)
  then show ?case by (cases i) (simp_all add: skit.first_items tbit.first_items)
next
  case (4 i)
  then show ?case by (cases i) (simp_all add: skit.last_at tbit.last_at)
next
  case (5 i)
  then show ?case by (cases i) (simp_all add: skit.last_empty tbit.last_empty)
next
  case (6 i)
  then show ?case by (cases i) (simp_all add: skit.last_items tbit.last_items)
next
  case (7 i)
  then show ?case by (cases i) (simp_all add: skit.next_at tbit.next_at)
next
  case (8 i)
  then show ?case by (cases i) (simp_all add: skit.next_items tbit.next_items)
next
  case (9 i)
  then show ?case by (cases i) (simp_all add: skit.current_item tbit.current_item)
qed

text \<open>What is left of a scan shrinks with every \<open>Next\<close>: the measure of every scanning loop.\<close>

definition it_remaining :: "kv_iterator \<Rightarrow> nat" where
  "it_remaining it = length (it_items it) - it_at it"

lemma it_remaining_Next: "it_Valid it \<Longrightarrow> it_remaining (it_Next it) < it_remaining it"
  by (simp add: it_remaining_def it.Valid_iff it.next_at it.next_items)

text \<open>The loop \<open>for (; it.Valid(); it.Next()) out.emplace_back(*it)\<close>.\<close>

function materialize :: "kv_iterator \<Rightarrow> entry list \<Rightarrow> entry list" where
  "materialize it acc = (if it_Valid it then materialize (it_Next it) (acc @ [it_current it]) else acc)"
  by pat_completeness auto
termination
  by (relation "measure (\<lambda>(it, acc). it_remaining it)") (simp_all add: it_remaining_Next)

declare materialize.simps [simp del]

lemma materialize_eq: "materialize it acc = acc @ drop (it_at it) (it_items it)"
proof (induction it acc rule: materialize.induct)
  case (1 it acc)
  show ?case
  proof (cases "it_Valid it")
    case True
    then have "drop (it_at it) (it_items it) = it_current it # drop (it_at (it_Next it)) (it_items (it_Next it))"
      by (simp add: it.next_at it.next_items it.current_item it.Valid_iff Cons_nth_drop_Suc)
    then show ?thesis using 1 True by (simp add: materialize.simps [of it acc])
  next
    case False
    then show ?thesis by (simp add: materialize.simps [of it acc] it.Valid_iff)
  qed
qed

lemma materialize_all [simp]: "materialize (it_SeekToFirst it) [] = it_items it"
  by (simp add: materialize_eq it.first_at it.first_items)

end
