(* ===== verification/Bytes.thy ===== *)
theory Bytes
  imports Prelude
begin

text \<open>
  Integers as bytes.  The big-endian encoders and decoders of the block-based format
  (\<open>appendUint32BigEndian\<close>, \<open>writeUint64BigEndian\<close>, \<open>readUint32BigEndian\<close>, \<dots>),
  \<open>htonl\<close> / \<open>ntohl\<close>, and the copy of an integer's object representation in host byte order that
  the write-ahead log and the trailer of the in-memory format use.
\<close>

section \<open>Bytes of a word\<close>

text \<open>\<open>static_cast<char>(value & 0xff)\<close>\<close>

definition low_byte :: "'a::len word \<Rightarrow> char" where
  "low_byte v = char_of (unat (v AND 0xff))"

text \<open>The two ways the code writes a 32-bit value: four shifts into an array.\<close>

definition appendUint32BigEndian :: "bytes \<Rightarrow> u32 \<Rightarrow> bytes" where
  "appendUint32BigEndian out v =
     out @ [low_byte (drop_bit 24 v), low_byte (drop_bit 16 v), low_byte (drop_bit 8 v), low_byte v]"

text \<open>
  The loop of \<open>writeUint64BigEndian\<close>: fill an array of \<open>n\<close> bytes from its last element to its
  first, shifting the value right by eight bits each time.
\<close>

fun be_bytes :: "nat \<Rightarrow> 'a::len word \<Rightarrow> bytes \<Rightarrow> bytes" where
  "be_bytes 0 v acc = acc"
| "be_bytes (Suc n) v acc = be_bytes n (drop_bit 8 v) (low_byte v # acc)"

text \<open>The decoding loop: \<open>value = (value << 8) | byte\<close> for each byte in turn.\<close>

definition be_value :: "bytes \<Rightarrow> 'a::len word" where
  "be_value bs = foldl (\<lambda>v b. push_bit 8 v OR of_char b) 0 bs"

section \<open>Host byte order\<close>

datatype endian = Little | Big

text \<open>The object representation of an \<open>n\<close>-byte integer, and the integer of a representation.\<close>

definition host_bytes :: "endian \<Rightarrow> nat \<Rightarrow> 'a::len word \<Rightarrow> bytes" where
  "host_bytes e n v = (case e of Little \<Rightarrow> rev (be_bytes n v []) | Big \<Rightarrow> be_bytes n v [])"

definition host_value :: "endian \<Rightarrow> bytes \<Rightarrow> 'a::len word" where
  "host_value e bs = be_value (case e of Little \<Rightarrow> rev bs | Big \<Rightarrow> bs)"

definition htonl :: "endian \<Rightarrow> u32 \<Rightarrow> u32" where
  "htonl e v = (case e of Little \<Rightarrow> be_value (rev (be_bytes 4 v [])) | Big \<Rightarrow> v)"

definition ntohl :: "endian \<Rightarrow> u32 \<Rightarrow> u32" where
  "ntohl e v = htonl e v"

section \<open>Round trips\<close>

lemma of_char_low_byte: "(of_char (low_byte v) :: 'a::len word) = take_bit 8 v"
proof -
  have *: "v AND 255 = take_bit 8 v"
    by (simp add: take_bit_eq_mask mask_numeral)
  have "unat (take_bit 8 v) < 256"
    using take_bit_nat_less_exp [of 8 "unat v"] by (simp add: unsigned_take_bit_eq)
  then have "of_char (low_byte v) = unat (take_bit 8 v)"
    by (simp add: low_byte_def *)
  then have "of_nat (of_char (low_byte v)) = (of_nat (unat (take_bit 8 v)) :: 'a word)"
    by simp
  then show ?thesis by (simp add: of_nat_of_char)
qed

lemma be_bytes_acc: "be_bytes n v acc = be_bytes n v [] @ acc"
proof (induction n arbitrary: v acc)
  case (Suc n)
  show ?case using Suc.IH [of "drop_bit 8 v" "low_byte v # acc"] Suc.IH [of "drop_bit 8 v" "[low_byte v]"] by simp
qed simp

lemma be_bytes_Suc: "be_bytes (Suc n) v [] = be_bytes n (drop_bit 8 v) [] @ [low_byte v]"
  by (simp add: be_bytes_acc [of n _ "[_]"])

lemma length_be_bytes [simp]: "length (be_bytes n v acc) = n + length acc"
  by (induction n arbitrary: v acc) simp_all

lemma foldl_be_bytes:
  "foldl (\<lambda>v b. push_bit 8 v OR of_char b) x (be_bytes n v []) = push_bit (8 * n) x OR take_bit (8 * n) v"
  for v x :: "'a::len word"
proof (induction n arbitrary: v)
  case 0
  then show ?case by simp
next
  case (Suc n)
  show ?case
    unfolding be_bytes_Suc foldl_append foldl_Cons foldl_Nil Suc.IH of_char_low_byte
    by (rule bit_word_eqI) (auto simp: bit_simps)
qed

lemma be_value_be_bytes: "be_value (be_bytes n v []) = take_bit (8 * n) v" for v :: "'a::len word"
  by (simp add: be_value_def foldl_be_bytes)

lemma be_value_bytes32 [simp]: "be_value (be_bytes 4 v []) = v" for v :: u32
  by (simp add: be_value_be_bytes take_bit_word_eq_self)

lemma be_value_bytes64 [simp]: "be_value (be_bytes 8 v []) = v" for v :: u64
  by (simp add: be_value_be_bytes take_bit_word_eq_self)

lemma appendUint32_eq: "appendUint32BigEndian out v = out @ be_bytes 4 v []"
  by (simp add: appendUint32BigEndian_def eval_nat_numeral drop_bit_drop_bit)

lemma host_value_bytes32 [simp]: "host_value e (host_bytes e 4 v) = v" for v :: u32
  by (cases e) (simp_all add: host_value_def host_bytes_def)

lemma host_value_bytes64 [simp]: "host_value e (host_bytes e 8 v) = v" for v :: u64
  by (cases e) (simp_all add: host_value_def host_bytes_def)

lemma bit_of_char_less: "bit (of_char c :: nat) i \<Longrightarrow> i < 8"
proof -
  assume "bit (of_char c :: nat) i"
  then have "bit (take_bit 8 (of_char c :: nat)) i"
    by (simp add: take_bit_nat_eq_self)
  then show ?thesis by (simp add: bit_simps)
qed

lemma bit_of_char_word: "bit (of_char c :: 'a::len word) i \<longleftrightarrow> i < LENGTH('a) \<and> bit (of_char c :: nat) i"
proof -
  have "bit (of_nat (of_char c) :: 'a word) i \<longleftrightarrow> i < LENGTH('a) \<and> bit (of_char c :: nat) i"
    by (simp only: bit_of_nat_iff possible_bit_word)
  then show ?thesis by (simp only: of_nat_of_char)
qed

lemma of_char_inject_word: "8 \<le> LENGTH('a) \<Longrightarrow> (of_char b :: 'a::len word) = of_char c \<Longrightarrow> b = c"
proof -
  assume n: "8 \<le> LENGTH('a)" and e: "(of_char b :: 'a::len word) = of_char c"
  have "(of_char b :: nat) = of_char c"
  proof (rule bit_eqI)
    fix i
    show "bit (of_char b :: nat) i = bit (of_char c :: nat) i"
      using n arg_cong [OF e, of "\<lambda>w. bit w i"] bit_of_char_less [of b i] bit_of_char_less [of c i]
      by (auto simp: bit_of_char_word)
  qed
  then show ?thesis by simp
qed

lemma be_value_snoc: "be_value (bs @ [b]) = push_bit 8 (be_value bs) OR of_char b"
  by (simp add: be_value_def)

lemma be_value_bound: "bit (be_value bs :: 'a::len word) i \<Longrightarrow> i < 8 * length bs"
proof (induction bs arbitrary: i rule: rev_induct)
  case Nil
  then show ?case by (simp add: be_value_def)
next
  case (snoc b bs)
  then show ?case 
    by (fastforce simp: be_value_snoc bit_simps bit_of_char_word dest: bit_of_char_less)
qed

lemma be_bytes_be_value:
  "8 * length bs \<le> LENGTH('a) \<Longrightarrow> be_bytes (length bs) (be_value bs :: 'a::len word) [] = bs"
proof (induction bs rule: rev_induct)
  case Nil
  then show ?case by simp
next
  case (snoc b bs)
  let ?v = "be_value (bs @ [b]) :: 'a word"
  have "drop_bit 8 ?v = be_value bs"
    using snoc.prems
    by (intro bit_word_eqI)
      (auto simp: be_value_snoc bit_simps bit_of_char_word dest: bit_of_char_less be_value_bound)
  moreover have "(of_char (low_byte ?v) :: 'a word) = of_char b"
    unfolding of_char_low_byte
    by (rule bit_word_eqI)
      (auto simp: be_value_snoc bit_simps bit_of_char_word dest: bit_of_char_less)
  then have "low_byte ?v = b"
    using snoc.prems by (intro of_char_inject_word [where 'a = 'a]) simp_all
  ultimately show ?case
    using snoc by (simp add: be_bytes_Suc del: be_bytes.simps)
qed

lemma host_bytes_htonl [simp]: "host_bytes e 4 (htonl e v) = be_bytes 4 v []"
  using be_bytes_be_value [of "rev (be_bytes 4 v [])", where 'a = 32]
  by (cases e) (simp_all add: host_bytes_def htonl_def)

lemma ntohl_htonl [simp]: "ntohl e (htonl e v) = v"
  using be_bytes_be_value [of "rev (be_bytes 4 v [])", where 'a = 32]
  by (cases e) (simp_all add: ntohl_def htonl_def)

lemma ntohl_host_value [simp]: "ntohl e (host_value e bs) = be_value bs" if "length bs = 4"
  using be_bytes_be_value [of "rev bs", where 'a = 32] that
  by (cases e) (simp_all add: ntohl_def htonl_def host_value_def)

lemma length_host_bytes [simp]: "length (host_bytes en n v) = n"
  by (simp add: host_bytes_def split: endian.splits)

section \<open>Lengths as 32-bit words\<close>

lemma unat_u32_len: "n < 2 ^ 32 \<Longrightarrow> unat (of_nat n :: u32) = n"
  by (simp add: unat_of_nat)

lemma u32_len_0:
  assumes "n < 2 ^ 32"
  shows "(of_nat n :: u32) = 0 \<longleftrightarrow> n = 0"
proof
  assume "(of_nat n :: u32) = 0"
  then have "unat (of_nat n :: u32) = 0" by simp
  with unat_u32_len [OF assms] show "n = 0" by simp
qed simp

end
