(* ===== verification/World.thy ===== *)
theory World
  imports Bytes
begin

text \<open>
  The part of the C++ runtime the program relies on: the file system behind \<open>std::filesystem\<close>,
  \<open>std::ifstream\<close> and \<open>std::ofstream\<close>, and the clock behind \<open>std::chrono\<close>.

  What the operating system decides is a field of the state and never a fixed choice: which paths
  can be opened, how many bytes a device still accepts for a file, where a device stops being
  readable, which directory cannot be created, in which order a directory is listed, what the clock
  shows.  A theorem that needs a well-behaved system says so through \<open>healthy\<close>.
\<close>

section \<open>State\<close>

record world =
  fs_files :: "(path \<times> bytes) list"           \<comment> \<open>regular files and their contents\<close>
  fs_dirs :: "path list"                        \<comment> \<open>directories\<close>
  fs_openable :: "path \<Rightarrow> bool"                \<comment> \<open>permission to open a path\<close>
  fs_quota :: "path \<Rightarrow> nat option"             \<comment> \<open>size at which writes to a file start to fail\<close>
  fs_bad :: "path \<Rightarrow> nat option"               \<comment> \<open>offset from which reads of a file fail\<close>
  fs_mkdir_error :: "path \<Rightarrow> string option"    \<comment> \<open>why a directory cannot be created\<close>
  fs_remove_error :: "path \<Rightarrow> string option"   \<comment> \<open>why a file cannot be removed\<close>
  fs_listing :: "path list \<Rightarrow> path list"       \<comment> \<open>the order a directory is listed in\<close>
  clock :: "nat \<Rightarrow> u64"                        \<comment> \<open>successive readings of the clocks, in nanoseconds\<close>
  ticks :: nat                                  \<comment> \<open>readings taken so far\<close>
  host_order :: endian                          \<comment> \<open>byte order of the machine\<close>
  name_counter :: u64                           \<comment> \<open>the function-local static of \<open>_generateSSTableFileName\<close>\<close>

definition content :: "world \<Rightarrow> path \<Rightarrow> bytes option" where
  "content w p = map_of (fs_files w) p"

definition is_directory :: "world \<Rightarrow> path \<Rightarrow> bool" where
  "is_directory w p \<longleftrightarrow> p \<in> set (fs_dirs w)"

definition set_file :: "path \<Rightarrow> bytes \<Rightarrow> world \<Rightarrow> world" where
  "set_file p d w = w\<lparr>fs_files := AList.update p d (fs_files w)\<rparr>"

definition delete_file :: "path \<Rightarrow> world \<Rightarrow> world" where
  "delete_file p w = w\<lparr>fs_files := AList.delete p (fs_files w)\<rparr>"

lemma content_set_file [io_simps, simp]: "content (set_file p d w) q = (if q = p then Some d else content w q)"
  by (simp add: content_def set_file_def update_conv')

lemma content_delete_file [io_simps, simp]: "content (delete_file p w) q = (if q = p then None else content w q)"
  by (simp add: content_def delete_file_def delete_conv')

lemma set_file_set_file [io_simps, simp]: "set_file p d (set_file p d' w) = set_file p d w"
  by (simp add: set_file_def)

lemma set_file_frame [io_simps, simp]:
  "fs_dirs (set_file p d w) = fs_dirs w"
  "fs_openable (set_file p d w) = fs_openable w"
  "fs_quota (set_file p d w) = fs_quota w"
  "fs_bad (set_file p d w) = fs_bad w"
  "fs_mkdir_error (set_file p d w) = fs_mkdir_error w"
  "fs_remove_error (set_file p d w) = fs_remove_error w"
  "fs_listing (set_file p d w) = fs_listing w"
  "clock (set_file p d w) = clock w"
  "ticks (set_file p d w) = ticks w"
  "host_order (set_file p d w) = host_order w"
  "name_counter (set_file p d w) = name_counter w"
  by (simp_all add: set_file_def)

lemma delete_file_frame [io_simps, simp]:
  "fs_dirs (delete_file p w) = fs_dirs w"
  "fs_openable (delete_file p w) = fs_openable w"
  "fs_quota (delete_file p w) = fs_quota w"
  "fs_bad (delete_file p w) = fs_bad w"
  "fs_mkdir_error (delete_file p w) = fs_mkdir_error w"
  "fs_remove_error (delete_file p w) = fs_remove_error w"
  "fs_listing (delete_file p w) = fs_listing w"
  "clock (delete_file p w) = clock w"
  "ticks (delete_file p w) = ticks w"
  "host_order (delete_file p w) = host_order w"
  "name_counter (delete_file p w) = name_counter w"
  by (simp_all add: delete_file_def)

lemma is_directory_set_file [io_simps, simp]: "is_directory (set_file p d w) q = is_directory w q"
  by (simp add: is_directory_def)

lemma is_directory_delete_file [io_simps, simp]: "is_directory (delete_file p w) q = is_directory w q"
  by (simp add: is_directory_def)

text \<open>A system on which no operation fails.\<close>

definition healthy :: "world \<Rightarrow> bool" where
  "healthy w \<longleftrightarrow> fs_openable w = (\<lambda>_. True) \<and> fs_quota w = (\<lambda>_. None) \<and> fs_bad w = (\<lambda>_. None) \<and>
     fs_mkdir_error w = (\<lambda>_. None) \<and> fs_remove_error w = (\<lambda>_. None)"

lemma healthy_set_file [io_simps, simp]: "healthy (set_file p d w) = healthy w"
  by (simp add: healthy_def)

lemma healthy_delete_file [io_simps, simp]: "healthy (delete_file p w) = healthy w"
  by (simp add: healthy_def)

section \<open>Paths and directories\<close>

text \<open>\<open>path::parent_path\<close>: everything before the last separator.\<close>

definition parent_path :: "path \<Rightarrow> path" where
  "parent_path p = rev (drop 1 (dropWhile (\<lambda>c. c \<noteq> CHR ''/'') (rev p)))"

lemma parent_path_append: "CHR ''/'' \<notin> set n \<Longrightarrow> parent_path (d @ ''/'' @ n) = d"
proof -
  assume n: "CHR ''/'' \<notin> set n"
  have "dropWhile (\<lambda>c. c \<noteq> CHR ''/'') (rev n @ CHR ''/'' # rev d) = CHR ''/'' # rev d"
    by (rule dropWhile_append_stop) (use n in auto)
  then show ?thesis by (simp add: parent_path_def)
qed

text \<open>The directories \<open>create_directories\<close> creates: the path and its ancestors.\<close>

definition path_and_ancestors :: "path \<Rightarrow> path list" where
  "path_and_ancestors p =
     map (\<lambda>i. take i p) (filter (\<lambda>i. 0 < i \<and> p ! i = CHR ''/'') [0..<length p]) @ [p]"

definition create_directories :: "path \<Rightarrow> world \<Rightarrow> string option \<times> world" where
  "create_directories p w =
     (case fs_mkdir_error w p of
        Some msg \<Rightarrow> (Some msg, w)
      | None \<Rightarrow> (None, w\<lparr>fs_dirs := fs_dirs w @ filter (\<lambda>d. d \<notin> set (fs_dirs w)) (path_and_ancestors p)\<rparr>))"

text \<open>The overload without an error code throws \<open>filesystem_error\<close>.\<close>

definition create_directories_or_throw :: "path \<Rightarrow> (world, unit) sx" where
  "create_directories_or_throw p w =
     (case create_directories p w of
        (Some msg, w') \<Rightarrow> (Inl (Filesystem_error msg), w')
      | (None, w') \<Rightarrow> (Inr (), w'))"

definition mkdir_all :: "path \<Rightarrow> world \<Rightarrow> world" where
  "mkdir_all p w = snd (create_directories p w)"

lemma path_in_ancestors [simp]: "p \<in> set (path_and_ancestors p)"
  by (simp add: path_and_ancestors_def)

lemma create_directories_healthy [io_simps]:
  "healthy w \<Longrightarrow> create_directories p w = (None, mkdir_all p w)"
  by (simp add: create_directories_def mkdir_all_def healthy_def)

lemma create_directories_or_throw_healthy [io_simps]:
  "healthy w \<Longrightarrow> create_directories_or_throw p w = (Inr (), mkdir_all p w)"
  by (simp add: create_directories_or_throw_def create_directories_healthy)

lemma mkdir_ok:
  assumes "fs_mkdir_error w p = None"
  shows "create_directories_or_throw p w = (Inr (), mkdir_all p w)" and "is_directory (mkdir_all p w) p"
  using assms
  by (auto simp: create_directories_or_throw_def create_directories_def mkdir_all_def is_directory_def)

lemma mkdir_all_frame [io_simps, simp]:
  "fs_files (mkdir_all p w) = fs_files w"
  "fs_openable (mkdir_all p w) = fs_openable w"
  "fs_quota (mkdir_all p w) = fs_quota w"
  "fs_bad (mkdir_all p w) = fs_bad w"
  "fs_mkdir_error (mkdir_all p w) = fs_mkdir_error w"
  "fs_remove_error (mkdir_all p w) = fs_remove_error w"
  "fs_listing (mkdir_all p w) = fs_listing w"
  "clock (mkdir_all p w) = clock w"
  "ticks (mkdir_all p w) = ticks w"
  "host_order (mkdir_all p w) = host_order w"
  "name_counter (mkdir_all p w) = name_counter w"
  by (simp_all add: mkdir_all_def create_directories_def split: option.splits)

lemma content_mkdir_all [io_simps, simp]: "content (mkdir_all p w) q = content w q"
  by (simp add: content_def)

lemma healthy_mkdir_all [io_simps, simp]: "healthy (mkdir_all p w) = healthy w"
  by (simp add: healthy_def)

lemma is_directory_mkdir_all [simp]:
  "healthy w \<Longrightarrow> is_directory (mkdir_all p w) q \<longleftrightarrow> is_directory w q \<or> q \<in> set (path_and_ancestors p)"
  by (auto simp: mkdir_all_def create_directories_def is_directory_def healthy_def)

text \<open>
  \<open>directory_iterator\<close>: the regular files, or the directories, right below a directory, in the
  order the system lists them; it throws when there is no such directory.
\<close>

definition child_of :: "path \<Rightarrow> path \<Rightarrow> bool" where
  "child_of d p \<longleftrightarrow> take (length d + 1) p = d @ ''/'' \<and> CHR ''/'' \<notin> set (drop (length d + 1) p)"

lemma child_of_append [simp]: "child_of d (d @ CHR ''/'' # n) \<longleftrightarrow> CHR ''/'' \<notin> set n"
  by (simp add: child_of_def)

definition list_files :: "path \<Rightarrow> world \<Rightarrow> exn + path list" where
  "list_files d w =
     (if is_directory w d then Inr (fs_listing w (filter (child_of d) (map fst (fs_files w))))
      else Inl (Filesystem_error d))"

definition list_directories :: "path \<Rightarrow> world \<Rightarrow> exn + path list" where
  "list_directories d w =
     (if is_directory w d then Inr (fs_listing w (filter (child_of d) (fs_dirs w)))
      else Inl (Filesystem_error d))"

text \<open>\<open>std::filesystem::exists\<close> and \<open>remove\<close> on a regular file; the result is the error, if any.\<close>

definition remove_file :: "path \<Rightarrow> world \<Rightarrow> string option \<times> world" where
  "remove_file p w =
     (case fs_remove_error w p of Some msg \<Rightarrow> (Some msg, w) | None \<Rightarrow> (None, delete_file p w))"

lemma remove_file_healthy [io_simps]: "healthy w \<Longrightarrow> remove_file p w = (None, delete_file p w)"
  by (simp add: remove_file_def healthy_def)

section \<open>Clock\<close>

definition read_clock :: "world \<Rightarrow> u64 \<times> world" where
  "read_clock w = (clock w (ticks w), w\<lparr>ticks := Suc (ticks w)\<rparr>)"

section \<open>Evolution\<close>

text \<open>
  What a write may change: the file it names, and directories it creates.
\<close>

definition evolves :: "path \<Rightarrow> world \<Rightarrow> world \<Rightarrow> bool" where
  "evolves p w w' \<longleftrightarrow>
     (\<forall>q. q \<noteq> p \<longrightarrow> content w' q = content w q) \<and> (\<forall>q. is_directory w q \<longrightarrow> is_directory w' q) \<and>
     fs_openable w' = fs_openable w \<and> fs_quota w' = fs_quota w \<and> fs_bad w' = fs_bad w \<and>
     fs_mkdir_error w' = fs_mkdir_error w \<and> fs_remove_error w' = fs_remove_error w \<and>
     fs_listing w' = fs_listing w \<and> clock w' = clock w \<and> ticks w' = ticks w \<and>
     host_order w' = host_order w \<and> name_counter w' = name_counter w"

lemma evolves_healthy: "evolves p w w' \<Longrightarrow> healthy w' = healthy w"
  by (simp add: evolves_def healthy_def)

lemma evolves_set_file: "evolves p w w' \<Longrightarrow> evolves p w (set_file p d w')"
  by (simp add: evolves_def)

lemma evolves_mkdir: "healthy w \<Longrightarrow> evolves p w (mkdir_all d w)"
  by (auto simp: evolves_def is_directory_def [symmetric])

lemma evolves_refl: "evolves p w w"
  by (simp add: evolves_def)

section \<open>A concrete system\<close>

text \<open>An empty little-endian machine on which nothing fails, used where a theorem is evaluated.\<close>

definition fresh_world :: world where
  "fresh_world =
     \<lparr>fs_files = [], fs_dirs = [], fs_openable = (\<lambda>_. True), fs_quota = (\<lambda>_. None),
      fs_bad = (\<lambda>_. None), fs_mkdir_error = (\<lambda>_. None), fs_remove_error = (\<lambda>_. None),
      fs_listing = (\<lambda>ps. ps), clock = (\<lambda>n. of_nat n), ticks = 0, host_order = Little,
      name_counter = 0\<rparr>"

lemma healthy_fresh_world [simp]: "healthy fresh_world"
  by (simp add: healthy_def fresh_world_def)

lemma content_fresh_world [simp]: "content fresh_world p = None"
  by (simp add: content_def fresh_world_def)

end
