(* ===== verification/Streams.thy ===== *)
theory Streams
  imports World
begin

text \<open>
  \<open>std::ifstream\<close> and \<open>std::ofstream\<close> over the files of the world, and two predicates that carry
  the correctness of the codecs: \<open>reads m x bs\<close> (the reader \<open>m\<close> consumes exactly the bytes \<open>bs\<close> and
  returns \<open>x\<close>) and \<open>emits m r B\<close> (the writer \<open>m\<close>, started at offset \<open>n\<close>, appends \<open>B n\<close> and
  returns \<open>r n\<close>).  Both compose along \<^const>\<open>sx_bind\<close>.
\<close>

section \<open>Input streams\<close>

record istream =
  i_data :: bytes
  i_pos :: nat
  i_good :: bool
  i_eof :: bool
  i_bad :: "nat option"

definition open_in :: "path \<Rightarrow> world \<Rightarrow> istream option" where
  "open_in p w =
     (case content w p of
        None \<Rightarrow> None
      | Some d \<Rightarrow>
          if fs_openable w p
          then Some \<lparr>i_data = d, i_pos = 0, i_good = True, i_eof = False, i_bad = fs_bad w p\<rparr>
          else None)"

definition readable_end :: "istream \<Rightarrow> nat" where
  "readable_end s = (case i_bad s of None \<Rightarrow> length (i_data s) | Some b \<Rightarrow> min b (length (i_data s)))"

text \<open>
  \<open>istream::read\<close> of \<open>n\<close> bytes: a short read sets the fail state, and the end-of-file flag when
  it was the end of the file that stopped it.
\<close>

definition iread :: "nat \<Rightarrow> istream \<Rightarrow> bytes \<times> istream" where
  "iread n s =
     (if \<not> i_good s then ([], s)
      else if n = 0 \<or> i_pos s + n \<le> readable_end s
      then (take n (drop (i_pos s) (i_data s)), s\<lparr>i_pos := i_pos s + n\<rparr>)
      else (take (readable_end s - i_pos s) (drop (i_pos s) (i_data s)),
            s\<lparr>i_good := False, i_eof := (readable_end s = length (i_data s))\<rparr>))"

lemma iread_exact:
  assumes "i_data s = pre @ bs @ post" and "i_pos s = length pre" and "i_good s" and "i_bad s = None"
  shows "iread (length bs) s = (bs, s\<lparr>i_pos := length pre + length bs\<rparr>)"
  using assms by (simp add: iread_def readable_end_def)

lemma iread_short:
  assumes "length (i_data s) < i_pos s + n" and "0 < n" and "i_good s" and "i_bad s = None"
  shows "iread n s = (drop (i_pos s) (i_data s), s\<lparr>i_good := False, i_eof := True\<rparr>)"
  using assms by (simp add: iread_def readable_end_def)

text \<open>Reading a file that was cut off in the middle of \<open>r\<close>.\<close>

lemma iread_slice:
  assumes "i_data s = pre @ take n r" and "n \<le> length r" and "i_pos s = length pre + j"
    and "i_good s" and "i_bad s = None" and "0 < k"
  shows "iread k s =
    (if j + k \<le> n then (take k (drop j r), s\<lparr>i_pos := length pre + (j + k)\<rparr>)
     else (drop (i_pos s) (i_data s), s\<lparr>i_good := False, i_eof := True\<rparr>))"
  using assms by (auto simp: iread_def readable_end_def drop_take min_def)

lemma iread_goodD:
  assumes "iread n s = (d, t)" and "i_good t"
  shows "i_good s" and "t = s\<lparr>i_pos := i_pos s + n\<rparr>" and "0 < n \<Longrightarrow> i_pos s + n \<le> length (i_data s)"
  using assms by (auto simp: iread_def readable_end_def split: if_splits option.splits)

definition iread_or_throw :: "nat \<Rightarrow> string \<Rightarrow> (istream, bytes) sx" where
  "iread_or_throw n msg s =
     (case iread n s of (d, t) \<Rightarrow> if i_good t then (Inr d, t) else (Inl (Runtime_error msg), t))"

text \<open>
  \<open>seekg\<close> from the beginning takes a signed 64-bit offset, so an offset of \<open>2 ^ 63\<close> or more arrives
  as a negative one and fails; \<open>tellg\<close> is \<open>-1\<close> on a failed stream.
\<close>

definition iseek :: "u64 \<Rightarrow> istream \<Rightarrow> istream" where
  "iseek off s =
     (if \<not> i_good s then s
      else if unat off < 2 ^ 63 then s\<lparr>i_pos := unat off\<rparr>
      else s\<lparr>i_good := False\<rparr>)"

definition itell :: "istream \<Rightarrow> nat option" where
  "itell s = (if i_good s then Some (i_pos s) else None)"

definition itell_or_throw :: "string \<Rightarrow> (istream, nat) sx" where
  "itell_or_throw msg s = (case itell s of None \<Rightarrow> (Inl (Runtime_error msg), s) | Some n \<Rightarrow> (Inr n, s))"

section \<open>Reading exactly\<close>

definition reads :: "(istream, 'a) sx \<Rightarrow> 'a \<Rightarrow> bytes \<Rightarrow> bool" where
  "reads m x bs \<longleftrightarrow>
     (\<forall>pre post s. i_data s = pre @ bs @ post \<longrightarrow> i_pos s = length pre \<longrightarrow> i_good s \<longrightarrow> i_bad s = None \<longrightarrow>
        m s = (Inr x, s\<lparr>i_pos := length pre + length bs\<rparr>))"

lemma readsI:
  assumes "\<And>pre post s. i_data s = pre @ bs @ post \<Longrightarrow> i_pos s = length pre \<Longrightarrow> i_good s \<Longrightarrow>
    i_bad s = None \<Longrightarrow> m s = (Inr x, s\<lparr>i_pos := length pre + length bs\<rparr>)"
  shows "reads m x bs"
  using assms by (simp add: reads_def)

lemma readsD:
  assumes "reads m x bs" and "i_data s = pre @ bs @ post" and "i_pos s = length pre"
    and "i_good s" and "i_bad s = None"
  shows "m s = (Inr x, s\<lparr>i_pos := length pre + length bs\<rparr>)"
  using assms unfolding reads_def by blast

lemma reads_return [reads_intros]: "reads (sx_return x) x []"
  by (rule readsI) (simp add: sx_return_def)

lemma reads_bind [reads_intros]:
  assumes "reads m x bs" and "reads (f x) y cs"
  shows "reads (sx_bind m f) y (bs @ cs)"
proof (rule readsI)
  fix pre post and s :: istream
  assume s: "i_data s = pre @ (bs @ cs) @ post" "i_pos s = length pre" "i_good s" "i_bad s = None"
  let ?t = "s\<lparr>i_pos := length pre + length bs\<rparr>"
  have "m s = (Inr x, ?t)"
    using readsD [OF assms(1), of s pre "cs @ post"] s by simp
  moreover have "f x ?t = (Inr y, ?t\<lparr>i_pos := length (pre @ bs) + length cs\<rparr>)"
    using s by (intro readsD [OF assms(2), of ?t "pre @ bs" post]) simp_all
  ultimately show "sx_bind m f s = (Inr y, s\<lparr>i_pos := length pre + length (bs @ cs)\<rparr>)"
    by (simp add: sx_simps add.assoc)
qed

lemma reads_bind_return [reads_intros]:
  assumes "reads m x bs"
  shows "reads (sx_bind m (\<lambda>a. sx_return (f a))) (f x) bs"
  using reads_bind [OF assms reads_return, of f] by simp

lemma reads_iread [reads_intros]: "n = length bs \<Longrightarrow> reads (iread_or_throw n msg) bs bs"
  by (rule readsI) (auto simp: iread_or_throw_def iread_def readable_end_def)

section \<open>Output streams\<close>

record ostream =
  o_path :: path
  o_good :: bool

type_synonym out = "ostream \<times> world"

text \<open>A file can be created when its directory exists and the path may be opened.\<close>

definition can_create :: "path \<Rightarrow> world \<Rightarrow> bool" where
  "can_create p w \<longleftrightarrow> fs_openable w p \<and> (parent_path p = [] \<or> is_directory w (parent_path p))"

lemma can_create_mkdir:
  assumes "fs_mkdir_error w (parent_path p) = None" and "fs_openable w p"
  shows "can_create p (mkdir_all (parent_path p) w)"
  using assms mkdir_ok(2) [OF assms(1)] by (simp add: can_create_def)

definition open_trunc :: "path \<Rightarrow> world \<Rightarrow> out" where
  "open_trunc p w =
     (if can_create p w then (\<lparr>o_path = p, o_good = True\<rparr>, set_file p [] w)
      else (\<lparr>o_path = p, o_good = False\<rparr>, w))"

definition open_append :: "path \<Rightarrow> world \<Rightarrow> out" where
  "open_append p w =
     (if can_create p w
      then (\<lparr>o_path = p, o_good = True\<rparr>,
            case content w p of None \<Rightarrow> set_file p [] w | Some _ \<Rightarrow> w)
      else (\<lparr>o_path = p, o_good = False\<rparr>, w))"

text \<open>
  \<open>ostream::write\<close>: the bytes the device accepts reach the file; if it does not accept all of
  them the stream fails, and later writes do nothing.
\<close>

definition owrite :: "bytes \<Rightarrow> out \<Rightarrow> out" where
  "owrite bs ow =
     (case ow of (s, w) \<Rightarrow>
        if \<not> o_good s then (s, w)
        else
          (let d = (case content w (o_path s) of None \<Rightarrow> [] | Some d \<Rightarrow> d);
               room = (case fs_quota w (o_path s) of None \<Rightarrow> length bs | Some q \<Rightarrow> q - length d)
           in (s\<lparr>o_good := (length bs \<le> room)\<rparr>, set_file (o_path s) (d @ take room bs) w)))"

text \<open>\<open>ostream::flush\<close>: the model's streams hold nothing back, so a rejected write shows at the write.\<close>

definition oflush :: "out \<Rightarrow> out" where
  "oflush ow = ow"

definition owrite_or_throw :: "bytes \<Rightarrow> string \<Rightarrow> (out, unit) sx" where
  "owrite_or_throw bs msg ow =
     (let ow' = owrite bs ow
      in if o_good (fst ow') then (Inr (), ow') else (Inl (Runtime_error msg), ow'))"

definition otell_or_throw :: "string \<Rightarrow> (out, nat) sx" where
  "otell_or_throw msg ow =
     (if o_good (fst ow)
      then (Inr (length (case content (snd ow) (o_path (fst ow)) of None \<Rightarrow> [] | Some d \<Rightarrow> d)), ow)
      else (Inl (Runtime_error msg), ow))"

lemma owrite_frame [simp]:
  "o_path (fst (owrite bs ow)) = o_path (fst ow)"
  "q \<noteq> o_path (fst ow) \<Longrightarrow> content (snd (owrite bs ow)) q = content (snd ow) q"
  by (cases ow; simp add: owrite_def Let_def)+

lemma owrite_ok [io_simps]:
  assumes "o_good s" and "fs_quota w (o_path s) = None" and "content w (o_path s) = Some d"
  shows "owrite bs (s, w) = (s, set_file (o_path s) (d @ bs) w)"
  using assms by (simp add: owrite_def Let_def)

lemma set_file_same: "content w p = Some d \<Longrightarrow> set_file p d w = w"
  by (simp add: set_file_def content_def update_triv)

lemma owrite_append: "owrite cs (owrite bs ow) = owrite (bs @ cs) ow"
proof (cases ow)
  case (Pair s w)
  have good: "\<And>P Q. P = Q \<Longrightarrow> s\<lparr>o_good := P\<rparr> = s\<lparr>o_good := Q\<rparr>" by simp
  show ?thesis
    unfolding Pair by (auto simp: owrite_def Let_def intro!: good split: option.splits)
qed

lemma owrite_Nil: "content (snd ow) (o_path (fst ow)) \<noteq> None \<Longrightarrow> owrite [] ow = ow"
  by (cases ow) (auto simp: owrite_def Let_def set_file_same split: option.splits)

lemma owrite_stuck: "\<not> o_good (fst ow) \<Longrightarrow> owrite bs ow = ow"
  by (cases ow) (simp add: owrite_def)

lemma owrite_content:
  "content (snd ow) (o_path (fst ow)) \<noteq> None \<Longrightarrow>
     content (snd (owrite bs ow)) (o_path (fst (owrite bs ow))) \<noteq> None"
  by (cases ow) (auto simp: owrite_def Let_def)

text \<open>The contents of a file, empty when there is none.\<close>

definition old_content :: "path \<Rightarrow> world \<Rightarrow> bytes" where
  "old_content p w = (case content w p of None \<Rightarrow> [] | Some d \<Rightarrow> d)"

lemma open_append_ok:
  assumes "can_create p w"
  shows "open_append p w = (\<lparr>o_path = p, o_good = True\<rparr>, set_file p (old_content p w) w)"
  using assms by (auto simp: open_append_def old_content_def set_file_same split: option.splits)

section \<open>Appending exactly\<close>

definition emits :: "(out, 'a) sx \<Rightarrow> (nat \<Rightarrow> 'a) \<Rightarrow> (nat \<Rightarrow> bytes) \<Rightarrow> bool" where
  "emits m r B \<longleftrightarrow>
     (\<forall>s w d. o_good s \<longrightarrow> fs_quota w (o_path s) = None \<longrightarrow> content w (o_path s) = Some d \<longrightarrow>
        m (s, w) = (Inr (r (length d)), (s, set_file (o_path s) (d @ B (length d)) w)))"

lemma emitsI:
  assumes "\<And>s w d. o_good s \<Longrightarrow> fs_quota w (o_path s) = None \<Longrightarrow> content w (o_path s) = Some d \<Longrightarrow>
    m (s, w) = (Inr (r (length d)), (s, set_file (o_path s) (d @ B (length d)) w))"
  shows "emits m r B"
  using assms by (simp add: emits_def)

lemma emitsD:
  assumes "emits m r B" and "o_good s" and "fs_quota w (o_path s) = None"
    and "content w (o_path s) = Some d"
  shows "m (s, w) = (Inr (r (length d)), (s, set_file (o_path s) (d @ B (length d)) w))"
  using assms unfolding emits_def by blast

lemma emits_return [emits_intros]: "emits (sx_return x) (\<lambda>_. x) (\<lambda>_. [])"
  by (rule emitsI) (simp add: sx_return_def set_file_same)

lemma emits_bind:
  assumes "emits m r B" and "\<And>n. emits (f (r n)) (g n) (C n)"
  shows "emits (sx_bind m f) (\<lambda>n. g n (n + length (B n))) (\<lambda>n. B n @ C n (n + length (B n)))"
proof (rule emitsI)
  fix s :: ostream and w :: world and d
  assume h: "o_good s" "fs_quota w (o_path s) = None" "content w (o_path s) = Some d"
  let ?n = "length d"
  let ?w = "set_file (o_path s) (d @ B ?n) w"
  have "m (s, w) = (Inr (r ?n), (s, ?w))"
    by (rule emitsD [OF assms(1) h])
  moreover have "f (r ?n) (s, ?w) =
      (Inr (g ?n (length (d @ B ?n))), (s, set_file (o_path s) ((d @ B ?n) @ C ?n (length (d @ B ?n))) ?w))"
    using h by (intro emitsD [OF assms(2)]) simp_all
  ultimately show "sx_bind m f (s, w) = (Inr (g ?n (?n + length (B ?n))),
      (s, set_file (o_path s) (d @ B ?n @ C ?n (?n + length (B ?n))) w))"
    by (simp add: sx_simps)
qed

lemma emits_bind_fixed:
  assumes "emits m r (\<lambda>_. bs)" and "\<And>n. emits (f (r n)) (g n) (\<lambda>_. cs)"
  shows "emits (sx_bind m f) (\<lambda>n. g n (n + length bs)) (\<lambda>_. bs @ cs)"
  using emits_bind [where f = f and g = g and B = "\<lambda>_. bs" and C = "\<lambda>_ _. cs", OF assms] by simp

lemma emits_write [emits_intros]: "emits (owrite_or_throw bs msg) (\<lambda>_. ()) (\<lambda>_. bs)"
  by (rule emitsI) (simp add: owrite_or_throw_def owrite_def Let_def)

lemma emits_tell [emits_intros]: "emits (otell_or_throw msg) (\<lambda>n. n) (\<lambda>_. [])"
  by (rule emitsI) (simp add: otell_or_throw_def set_file_same)

lemma emits_conv: "emits m r B \<Longrightarrow> r = r' \<Longrightarrow> B = B' \<Longrightarrow> emits m r' B'"
  by simp

end
