(* ===== verification/SSTable_File.thy ===== *)
theory SSTable_File
  imports Iterators Streams
begin

text \<open>
  The file format of the in-memory tables: \<open>SSTableWriter\<close> and \<open>SSTableReader\<close>
  (\<open>src/core/sstable_manager/sstable_writer.cpp\<close>, \<open>sstable_reader.cpp\<close>).  A file is the serialised
  entries followed by the timestamp and the file number, eight bytes each in host byte order.
\<close>

section \<open>Writer\<close>

definition tombstone_byte :: "entry \<Rightarrow> char" where
  "tombstone_byte e = (if e_tombstone e then char_of (1::nat) else char_of (0::nat))"

definition serializeEntry :: "endian \<Rightarrow> entry \<Rightarrow> bytes" where
  "serializeEntry en e =
     host_bytes en 4 (htonl en (of_nat (length (e_key e)))) @ e_key e @
     host_bytes en 4 (htonl en (of_nat (length (e_val e)))) @ e_val e @ [tombstone_byte e]"

text \<open>The result of the write is not looked at: the call reports only whether the file was opened.\<close>

definition writeBinaryToFile :: "path \<Rightarrow> bytes \<Rightarrow> (world, bool) sx" where
  "writeBinaryToFile p d =
     sx_bind (create_directories_or_throw (parent_path p)) (\<lambda>_ w.
       let out = open_trunc p w
       in if \<not> o_good (fst out) then (Inr False, snd out)
          else (Inr True, snd (owrite d out)))"

text \<open>\<open>_createFileIfNotExists\<close>, which no code calls: opening for output truncates, so an existing file is emptied.\<close>

definition createFileIfNotExists :: "path \<Rightarrow> (world, bool) sx" where
  "createFileIfNotExists p =
     sx_bind (create_directories_or_throw (parent_path p)) (\<lambda>_ w.
       let out = open_trunc p w in (Inr (o_good (fst out)), snd out))"

text \<open>
  \<open>SSTableWriter::write\<close>.  It sorts the caller's vector in place, so the sorted entries are part of
  the result.
\<close>

definition serializeTable :: "endian \<Rightarrow> entry list \<Rightarrow> u64 \<Rightarrow> u64 \<Rightarrow> bytes" where
  "serializeTable en es timestamp file_num =
     concat (map (serializeEntry en) es) @ host_bytes en 8 timestamp @ host_bytes en 8 file_num"

definition sstable_write ::
  "path \<Rightarrow> entry list \<Rightarrow> u64 \<Rightarrow> u64 \<Rightarrow> (world, sstable_metadata \<times> entry list) sx" where
  "sstable_write fname entries timestamp file_num w =
     (if entries = [] then (Inl (Runtime_error ''SSTableWriter::write(): Cannot write empty SSTable''), w)
      else
        (let es = std_sort entries;
             writeData = serializeTable (host_order w) es timestamp file_num
         in sx_bind (writeBinaryToFile fname writeData) (\<lambda>ok.
              if \<not> ok then sx_throw (Runtime_error ''SSTableWriter::write(): Failed to write SSTable'')
              else sx_return (SSTableMetadata file_num timestamp (e_key (hd es)) (e_key (last es)), es)) w))"

section \<open>Reader\<close>

definition deserialize_error :: "string \<Rightarrow> exn" where
  "deserialize_error msg =
     Runtime_error (''[SSTableReader._deserializeEntry()] Failed to deserialize entry: '' @ msg)"

text \<open>The buffer starts at \<open>data\<close> and has \<open>size\<close> bytes; the result has the number of bytes read.\<close>

definition deserializeEntry :: "endian \<Rightarrow> bytes \<Rightarrow> exn + entry \<times> nat" where
  "deserializeEntry en data =
     (let size = length data
      in if 0 + 4 > size then Inl (deserialize_error ''Buffer too small for key length'')
         else let keyLen = unat (ntohl en (host_value en (take 4 data))); pos = 4
         in if pos + keyLen > size then Inl (deserialize_error ''Buffer too small for key'')
            else let key = take keyLen (drop pos data); pos = pos + keyLen
            in if pos + 4 > size then Inl (deserialize_error ''Buffer too small for value length'')
               else let valLen = unat (ntohl en (host_value en (take 4 (drop pos data)))); pos = pos + 4
               in if pos + valLen > size then Inl (deserialize_error ''Buffer too small for value'')
                  else let val = take valLen (drop pos data); pos = pos + valLen
                  in if pos + 1 > size then Inl (deserialize_error ''Buffer too small for tombstone'')
                     else Inr (Entry key val (data ! pos \<noteq> char_of (0::nat)), pos + 1))"

lemma deserializeEntry_pos: "deserializeEntry en d = Inr (e, n) \<Longrightarrow> 0 < n"
  by (auto simp: deserializeEntry_def Let_def split: if_splits)

text \<open>
  The loop of \<open>read\<close>.  Besides the offset it counts the entries in an \<open>int\<close>, which it increments
  after every entry: on the entry of number \<open>2 ^ 31 - 1\<close> the increment overflows.
\<close>

function sstable_read_entries :: "endian \<Rightarrow> bytes \<Rightarrow> nat \<Rightarrow> nat \<Rightarrow> int \<Rightarrow> entry list \<Rightarrow> exn + entry list" where
  "sstable_read_entries en data sz offset i entries =
     (if offset < sz then
        (case deserializeEntry en (take (sz - offset) (drop offset data)) of
           Inl ex \<Rightarrow> Inl ex
         | Inr (e, bytesRead) \<Rightarrow>
             if i = 2 ^ 31 - 1 then Inl (Undefined_behaviour ''signed overflow'')
             else sstable_read_entries en data sz (offset + bytesRead) (i + 1) (entries @ [e]))
      else Inr entries)"
  by pat_completeness auto
termination
proof (relation "measure (\<lambda>(en, d, sz, offset, i, es). sz - offset)", goal_cases)
  case (2 en data sz offset i entries pr e n)
  then have "0 < n" by (auto dest: deserializeEntry_pos)
  with 2 show ?case by auto
qed simp

declare sstable_read_entries.simps [simp del]

text \<open>
  \<open>_readBinaryFromFile\<close> resizes the buffer to the size of the file and reads into it; bytes a short
  read does not deliver keep the zero the resize put there.
\<close>

definition readBinaryFromFile :: "path \<Rightarrow> world \<Rightarrow> bytes option" where
  "readBinaryFromFile p w =
     (case open_in p w of
        None \<Rightarrow> None
      | Some s \<Rightarrow>
          (let fileSize = length (i_data s); d = fst (iread fileSize s)
           in Some (d @ replicate (fileSize - length d) (char_of (0::nat)))))"

definition sstable_read :: "path \<Rightarrow> world \<Rightarrow> exn + sstable" where
  "sstable_read p w =
     (case readBinaryFromFile p w of
        None \<Rightarrow> Inl (Runtime_error ''SSTableReader::read(): Failed to read binary from file'')
      | Some data \<Rightarrow>
          if length data = 0
          then Inl (Runtime_error ''SSTableReader::read(): Failed to read binary from file - file is empty'')
          else if length data < 16
          then Inl (Undefined_behaviour ''copy from before the buffer'')
          else
            (let n = length data;
                 timestamp = host_value (host_order w) (take 8 (drop (n - 8 - 8) data));
                 file_num = host_value (host_order w) (take 8 (drop (n - 8) data))
             in rbind (sstable_read_entries (host_order w) data (n - 8 - 8) 0 0 []) (\<lambda>entries.
                  rbind (vec_at entries 0) (\<lambda>a.
                  rbind (vec_at entries (int (length entries) - 1)) (\<lambda>b.
                    Inr (SSTable (SSTableMetadata file_num timestamp (e_key a) (e_key b)) entries))))))"

section \<open>Round trip of the entries\<close>

definition entry_fits :: "entry \<Rightarrow> bool" where
  "entry_fits e \<longleftrightarrow> length (e_key e) < 2 ^ 32 \<and> length (e_val e) < 2 ^ 32"

lemma serializeEntry_be:
  "serializeEntry en e = be_bytes 4 (of_nat (length (e_key e)) :: u32) [] @ e_key e @
     be_bytes 4 (of_nat (length (e_val e)) :: u32) [] @ e_val e @ [tombstone_byte e]"
  by (simp add: serializeEntry_def)

lemma length_serializeEntry: "length (serializeEntry en e) = 9 + length (e_key e) + length (e_val e)"
  by (simp add: serializeEntry_be)

lemma tombstone_byte_nonzero: "tombstone_byte e \<noteq> char_of (0::nat) \<longleftrightarrow> e_tombstone e"
  by (simp add: tombstone_byte_def char_of_eq_iff)

lemma deserialize_serialize:
  assumes "entry_fits e"
  shows "deserializeEntry en (serializeEntry en e @ rest) = Inr (e, length (serializeEntry en e))"
proof -
  let ?d = "serializeEntry en e @ rest"
  let ?k = "length (e_key e)" and ?v = "length (e_val e)"
  have parts: "take 4 ?d = be_bytes 4 (of_nat ?k :: u32) []" "take ?k (drop 4 ?d) = e_key e"
    "take 4 (drop (4 + ?k) ?d) = be_bytes 4 (of_nat ?v :: u32) []" "take ?v (drop (8 + ?k) ?d) = e_val e"
    "?d ! (8 + ?k + ?v) = tombstone_byte e" "length ?d = 9 + ?k + ?v + length rest"
    by (simp_all add: serializeEntry_be nth_append)
  have lens: "unat (of_nat ?k :: u32) = ?k" "unat (of_nat ?v :: u32) = ?v"
    using assms by (simp_all add: entry_fits_def unat_u32_len)
  show ?thesis
    unfolding deserializeEntry_def Let_def
    using parts lens
    by (simp add: tombstone_byte_nonzero length_serializeEntry add.assoc add.commute [of ?k] add.left_commute [of ?k])
qed

lemma sstable_read_entries_serialized:
  assumes "\<forall>e \<in> set es. entry_fits e"
    and "data = pre @ concat (map (serializeEntry en) es) @ post"
    and "n = length pre + length (concat (map (serializeEntry en) es))"
    and "i + int (length es) < 2 ^ 31"
  shows "sstable_read_entries en data n (length pre) i acc = Inr (acc @ es)"
  using assms
proof (induction es arbitrary: pre i acc)
  case Nil
  then show ?case by (simp add: sstable_read_entries.simps)
next
  case (Cons e es)
  let ?s = "serializeEntry en e"
  let ?r = "concat (map (serializeEntry en) es)"
  have t: "take (n - length pre) (drop (length pre) data) = ?s @ ?r" and lt: "length pre < n"
    using Cons.prems(2,3) by (simp_all add: length_serializeEntry)
  have "sstable_read_entries en data n (length pre) i acc =
      sstable_read_entries en data n (length (pre @ ?s)) (i + 1) (acc @ [e])"
    using Cons.prems(1,4) lt
    by (simp add: sstable_read_entries.simps [of en data n "length pre" i acc] t deserialize_serialize)
  also have "\<dots> = Inr ((acc @ [e]) @ es)"
    by (rule Cons.IH) (use Cons.prems in simp_all)
  finally show ?case by simp
qed

section \<open>Writing and reading a file\<close>

definition accepted :: "world \<Rightarrow> path \<Rightarrow> bytes \<Rightarrow> bytes" where
  "accepted w p d = (case fs_quota w p of None \<Rightarrow> d | Some q \<Rightarrow> take q d)"

lemma accepted_healthy [simp]: "healthy w \<Longrightarrow> accepted w p d = d"
  by (simp add: accepted_def healthy_def)

lemma writeBinaryToFile_ok:
  assumes "fs_mkdir_error w (parent_path p) = None" and "fs_openable w p"
  shows "writeBinaryToFile p d w = (Inr True, set_file p (accepted w p d) (mkdir_all (parent_path p) w))"
  using can_create_mkdir [OF assms] mkdir_ok(1) [OF assms(1)]
  by (simp add: writeBinaryToFile_def sx_simps open_trunc_def Let_def owrite_def accepted_def split: option.splits)

lemma sstable_write_accepted:
  assumes "fs_mkdir_error w (parent_path p) = None" and "fs_openable w p" and "es \<noteq> []"
  shows "sstable_write p es ts fn w =
    (Inr (SSTableMetadata fn ts (e_key (hd (std_sort es))) (e_key (last (std_sort es))), std_sort es),
     set_file p (accepted w p (serializeTable (host_order w) (std_sort es) ts fn)) (mkdir_all (parent_path p) w))"
  using assms by (simp add: sstable_write_def Let_def sx_simps writeBinaryToFile_ok)

lemma readBinaryFromFile_healthy:
  assumes "healthy w"
  shows "readBinaryFromFile p w = content w p"
  using assms
  by (auto simp: readBinaryFromFile_def open_in_def healthy_def iread_def readable_end_def split: option.splits)

lemma sorted_keys_std_sort:
  assumes "distinct (map e_key es)"
  shows "sorted_keys e_key (std_sort es)"
  using assms by (simp add: strict_sorted_iff std_sort_def distinct_map)

lemma set_std_sort [simp]: "set (std_sort es) = set es" and length_std_sort [simp]: "length (std_sort es) = length es"
  by (simp_all add: std_sort_def)

lemma std_sort_Nil_iff [simp]: "std_sort es = [] \<longleftrightarrow> es = []"
  using length_std_sort [of es] by (metis length_0_conv)

lemma sstable_read_serialized:
  assumes "healthy w" and "content w p = Some (serializeTable (host_order w) es ts fn)"
    and "es \<noteq> []" and "\<forall>e \<in> set es. entry_fits e" and "length es < 2 ^ 31"
  shows "sstable_read p w = Inr (SSTable (SSTableMetadata fn ts (e_key (hd es)) (e_key (last es))) es)"
proof -
  let ?en = "host_order w"
  let ?b = "concat (map (serializeEntry ?en) es)"
  let ?d = "serializeTable ?en es ts fn"
  have len: "length ?d = length ?b + 16" by (simp add: serializeTable_def)
  have tail: "take 8 (drop (length ?d - 8 - 8) ?d) = host_bytes ?en 8 ts"
    "take 8 (drop (length ?d - 8) ?d) = host_bytes ?en 8 fn"
    by (simp_all add: serializeTable_def)
  have "sstable_read_entries ?en ?d (length ?d - 8 - 8) 0 0 [] = Inr es"
    using sstable_read_entries_serialized [of es ?d "[]" ?en _ _ 0 "[]", OF assms(4)] len assms(5)
    by (simp add: serializeTable_def)
  moreover have "vec_at es 0 = Inr (hd es)" "vec_at es (int (length es) - 1) = Inr (last es)"
    using vec_at_hd [OF assms(3)] vec_at_last [OF assms(3)] by blast+
  ultimately show ?thesis
    using len tail assms(1,2)
    by (simp add: sstable_read_def readBinaryFromFile_healthy Let_def)
qed

text \<open>What the reader makes of arbitrary bytes.\<close>

lemma readBinaryFromFile_length:
  "(\<exists>d. readBinaryFromFile p w = Some d \<and> P (length d)) \<longleftrightarrow>
     (\<exists>d. content w p = Some d \<and> fs_openable w p \<and> P (length d))"
proof -
  have "length (fst (iread (length d) \<lparr>i_data = d, i_pos = 0, i_good = True, i_eof = False, i_bad = b\<rparr>)) \<le> length d"
    for d b by (simp add: iread_def)
  then show ?thesis
    by (auto simp: readBinaryFromFile_def open_in_def Let_def split: option.splits)
qed

lemma deserializeEntry_defined: "deserializeEntry en d \<noteq> Inl (Undefined_behaviour m)"
  by (auto simp: deserializeEntry_def Let_def deserialize_error_def)

text \<open>How many entries can be decoded one after the other from the start of a buffer.\<close>

lemma deserializeEntry_bound: "deserializeEntry en d = Inr (e, n) \<Longrightarrow> n \<le> length d"
  by (auto simp: deserializeEntry_def Let_def split: if_splits)

function entries_in :: "endian \<Rightarrow> bytes \<Rightarrow> nat" where
  "entries_in en d =
     (if d = [] then 0
      else case deserializeEntry en d of Inl _ \<Rightarrow> 0 | Inr (e, n) \<Rightarrow> Suc (entries_in en (drop n d)))"
  by pat_completeness auto
termination
  by (relation "measure (\<lambda>(en, d). length d)") (auto dest: deserializeEntry_pos)

declare entries_in.simps [simp del]

lemma sstable_read_entries_undefined:
  assumes "0 \<le> i" and "i < 2 ^ 31"
  shows "(\<exists>m. sstable_read_entries en d n off i es = Inl (Undefined_behaviour m)) \<longleftrightarrow>
    2 ^ 31 \<le> i + int (entries_in en (take (n - off) (drop off d)))"
  using assms
proof (induction en d n off i es rule: sstable_read_entries.induct)
  case (1 en d n off i es)
  let ?d = "take (n - off) (drop off d)"
  show ?case
  proof (cases "off < n")
    case False
    then show ?thesis using 1(3) by (simp add: sstable_read_entries.simps [of en d n] entries_in.simps [of en "[]"])
  next
    case True
    show ?thesis
    proof (cases "deserializeEntry en ?d")
      case (Inl ex)
      then have "entries_in en ?d = 0" by (subst entries_in.simps) simp
      moreover have "\<forall>m. ex \<noteq> Undefined_behaviour m" using Inl deserializeEntry_defined by metis
      ultimately show ?thesis using True Inl 1(3) by (simp add: sstable_read_entries.simps [of en d n off])
    next
      case (Inr y)
      then obtain e k where y: "deserializeEntry en ?d = Inr (e, k)" by (cases y) auto
      then have k: "0 < k" "k \<le> length ?d" by (auto dest: deserializeEntry_pos deserializeEntry_bound)
      then have "?d \<noteq> []" by auto
      moreover have "drop k ?d = take (n - (off + k)) (drop (off + k) d)" by (simp add: drop_take add.commute)
      ultimately have c: "entries_in en ?d = Suc (entries_in en (take (n - (off + k)) (drop (off + k) d)))"
        using y by (subst entries_in.simps) simp
      show ?thesis
      proof (cases "i = 2 ^ 31 - 1")
        case True
        then show ?thesis using y c \<open>off < n\<close> by (simp add: sstable_read_entries.simps [of en d n off])
      next
        case False
        then show ?thesis
          using 1(1) [OF True y refl False] 1(2,3) y c True
          by (simp add: sstable_read_entries.simps [of en d n off] algebra_simps)
      qed
    qed
  qed
qed

lemma sstable_read_entries_length:
  "sstable_read_entries en d n off i es = Inr fs \<Longrightarrow> length es \<le> length fs"
proof (induction en d n off i es rule: sstable_read_entries.induct)
  case (1 en d n off i es)
  then show ?case
    by (subst (asm) (2) sstable_read_entries.simps) (fastforce split: if_splits sum.splits)
qed

lemma sstable_read_entries_nonempty:
  assumes "sstable_read_entries en d n 0 0 [] = Inr fs" and "0 < n"
  shows "fs \<noteq> []"
  using assms sstable_read_entries_length [of en d n _ 1 "[_]" fs]
  by (subst (asm) sstable_read_entries.simps) (force split: sum.splits)

lemma sstable_read_undefined_data:
  "(\<exists>m. sstable_read p w = Inl (Undefined_behaviour m)) \<longleftrightarrow>
     (\<exists>d. readBinaryFromFile p w = Some d \<and> 0 < length d \<and>
       (length d \<le> 16 \<or> 2 ^ 31 \<le> entries_in (host_order w) (take (length d - 16) d)))"
proof (cases "readBinaryFromFile p w")
  case None
  then show ?thesis by (simp add: sstable_read_def)
next
  case (Some d)
  let ?r = "sstable_read_entries (host_order w) d (length d - 8 - 8) 0 0 []"
  consider "length d = 0" | "0 < length d" "length d < 16" | "length d = 16" | "16 < length d" by linarith
  then show ?thesis
  proof cases
    case 3
    then have "?r = Inr []" by (simp add: sstable_read_entries.simps)
    with 3 Some show ?thesis by (auto simp: sstable_read_def Let_def)
  next
    case 4
    have "(\<exists>m. sstable_read p w = Inl (Undefined_behaviour m)) \<longleftrightarrow> (\<exists>m. ?r = Inl (Undefined_behaviour m))"
      using 4 Some sstable_read_entries_nonempty [of "host_order w" d "length d - 8 - 8"]
      by (cases ?r) (auto simp: sstable_read_def Let_def vec_at_hd vec_at_last)
    also have "\<dots> \<longleftrightarrow> (2::int) ^ 31 \<le> int (entries_in (host_order w) (take (length d - 16) d))"
      by (subst sstable_read_entries_undefined) simp_all
    also have "\<dots> \<longleftrightarrow> 2 ^ 31 \<le> entries_in (host_order w) (take (length d - 16) d)"
      by (metis of_nat_le_iff of_nat_numeral of_nat_power)
    finally show ?thesis using 4 Some by auto
  qed (use Some in \<open>simp_all add: sstable_read_def\<close>)
qed

text \<open>An entry takes at least nine bytes of a buffer.\<close>

lemma deserializeEntry_least: "deserializeEntry en d = Inr (e, n) \<Longrightarrow> 9 \<le> n"
  by (auto simp: deserializeEntry_def Let_def split: if_splits)

lemma entries_in_bound: "9 * entries_in en d \<le> length d"
proof (induction en d rule: entries_in.induct)
  case (1 en d)
  show ?case
  proof (cases "d = [] \<or> (\<exists>ex. deserializeEntry en d = Inl ex)")
    case False
    then obtain e n where e: "deserializeEntry en d = Inr (e, n)" by (cases "deserializeEntry en d") auto
    then have "9 * entries_in en (drop n d) \<le> length (drop n d)" using False by (intro 1) auto
    then show ?thesis
      using False e deserializeEntry_least [OF e] deserializeEntry_bound [OF e] by (subst entries_in.simps) simp
  qed (auto simp: entries_in.simps [of en d])
qed

section \<open>Properties\<close>

text \<open>
  C11: writing a table and reading the file back gives the table that was written: the same
  metadata and the entries in key order.  The reader counts the entries in an \<open>int\<close>, so there are
  fewer than \<open>2 ^ 31\<close> of them.
\<close>

theorem sstable_file_roundtrip:
  assumes "healthy w" and "es \<noteq> []" and "distinct (map e_key es)" and "\<forall>e \<in> set es. entry_fits e"
    and "length es < 2 ^ 31"
  shows "\<exists>meta w'. sstable_write p es ts fn w = (Inr (meta, std_sort es), w') \<and>
    sstable_read p w' = Inr (SSTable meta es) \<and>
    m_file_number meta = fn \<and> m_timestamp meta = ts \<and>
    (\<forall>e \<in> set es. m_min_key meta \<le> e_key e \<and> e_key e \<le> m_max_key meta)"
proof -
  let ?s = "std_sort es"
  let ?m = "SSTableMetadata fn ts (e_key (hd ?s)) (e_key (last ?s))"
  let ?w = "set_file p (serializeTable (host_order w) ?s ts fn) (mkdir_all (parent_path p) w)"
  have s: "sorted_keys e_key ?s" using assms(3) by (rule sorted_keys_std_sort)
  have "sstable_write p es ts fn w = (Inr (?m, ?s), ?w)"
    using assms sstable_write_accepted [of w p es ts fn] by (simp add: healthy_def accepted_def)
  moreover have "sstable_read p ?w = Inr (SSTable ?m ?s)"
    using assms by (intro sstable_read_serialized) simp_all
  moreover have "SSTable ?m ?s = SSTable ?m es"
    using std_sort_sorted [OF s] by (simp add: SSTable_def)
  moreover have "\<forall>e \<in> set es. m_min_key ?m \<le> e_key e \<and> e_key e \<le> m_max_key ?m"
    using sorted_keys_bounds [OF s] by (simp add: SSTableMetadata_def)
  ultimately show ?thesis by (auto simp: SSTableMetadata_def)
qed

theorem sstable_file_roundtrip_witness:
  "\<exists>meta w'. sstable_write ''d/t'' [Entry ''b'' ''2'' False, Entry ''a'' ''1'' True] 7 9 fresh_world =
      (Inr (meta, std_sort [Entry ''b'' ''2'' False, Entry ''a'' ''1'' True]), w') \<and>
    sstable_read ''d/t'' w' = Inr (SSTable meta [Entry ''b'' ''2'' False, Entry ''a'' ''1'' True])"
  using sstable_file_roundtrip [of fresh_world "[Entry ''b'' ''2'' False, Entry ''a'' ''1'' True]" "''d/t''" 7 9]
  by (auto simp: entry_fits_def)

text \<open>
  C30: exactly these files run \<open>SSTableReader::read\<close> into undefined behaviour: those of one to sixteen
  bytes (shorter than the trailer, or a trailer with no entry before it), and those from whose buffer
  at least \<open>2 ^ 31\<close> entries are decoded, where the counter of the loop overflows; such a file has more
  than \<open>9 * 2 ^ 31\<close> bytes.  Every other content is decoded or rejected with an exception.
\<close>

theorem sstable_read_undefined_iff:
  "((\<exists>m. sstable_read p w = Inl (Undefined_behaviour m)) \<longleftrightarrow>
     (\<exists>d b. content w p = Some d \<and> fs_openable w p \<and> readBinaryFromFile p w = Some b \<and> 0 < length d \<and>
       (length d \<le> 16 \<or> 2 ^ 31 \<le> entries_in (host_order w) (take (length d - 16) b)))) \<and>
   9 * entries_in (host_order w) (take n x) \<le> n"
proof -
  have "readBinaryFromFile p w = Some b \<Longrightarrow> \<exists>d. content w p = Some d \<and> fs_openable w p \<and> length d = length b" for b
    using readBinaryFromFile_length [of p w "\<lambda>n. n = length b"] by auto
  then have "(\<exists>d. readBinaryFromFile p w = Some d \<and> P (length d) d) \<longleftrightarrow>
      (\<exists>d b. content w p = Some d \<and> fs_openable w p \<and> readBinaryFromFile p w = Some b \<and> P (length d) b)" for P
    by fastforce
  from this [of "\<lambda>n b. 0 < n \<and> (n \<le> 16 \<or> 2 ^ 31 \<le> entries_in (host_order w) (take (n - 16) b))"] show ?thesis
    using sstable_read_undefined_data [of p w] entries_in_bound [of "host_order w" "take n x"] by simp
qed

text \<open>
  Whatever part of the table the device accepts, down to nothing, \<open>SSTableWriter::write\<close>
  returns the metadata of the complete table; the file holds only the accepted part.
\<close>

theorem sstable_write_ignores_short_write:
  assumes "fs_mkdir_error w (parent_path p) = None" and "fs_openable w p" and "es \<noteq> []"
    and "fs_quota w p = Some q"
  shows "\<exists>meta w'. sstable_write p es ts fn w = (Inr (meta, std_sort es), w') \<and>
    content w' p = Some (take q (serializeTable (host_order w) (std_sort es) ts fn))"
  using sstable_write_accepted [OF assms(1-3)] assms(4) by (simp add: accepted_def)

theorem sstable_write_ignores_short_write_witness:
  "\<exists>meta w'. sstable_write ''d/t'' [Entry ''a'' ''1'' False] 7 9 (fresh_world\<lparr>fs_quota := \<lambda>_. Some 0\<rparr>) =
      (Inr (meta, [Entry ''a'' ''1'' False]), w') \<and> content w' ''d/t'' = Some []"
  using sstable_write_ignores_short_write [of "fresh_world\<lparr>fs_quota := \<lambda>_. Some 0\<rparr>" "''d/t''" "[Entry ''a'' ''1'' False]" 0 7 9]
  by (simp add: fresh_world_def std_sort_def)

text \<open>The helper \<open>_createFileIfNotExists\<close> leaves an empty file, whatever was there.\<close>

lemma createFileIfNotExists_empties:
  assumes "healthy w"
  shows "\<exists>w'. createFileIfNotExists p w = (Inr True, w') \<and> content w' p = Some []"
proof -
  have m: "fs_mkdir_error w (parent_path p) = None" and "fs_openable w p" using assms by (simp_all add: healthy_def)
  then have "can_create p (mkdir_all (parent_path p) w)" by (rule can_create_mkdir)
  then show ?thesis
    by (simp add: createFileIfNotExists_def sx_simps mkdir_ok(1) [OF m] open_trunc_def)
qed

end
