(* ===== verification/Block_Writer.thy ===== *)
theory Block_Writer
  imports Iterators Streams
begin

text \<open>
  The writer of the block-based table format
  (\<open>src/core/sstable_manager/block_based/block_based_table_format.cpp\<close>): data blocks, metadata
  block, index block, filter block and footer, every integer big-endian.  The operations are
  modelled one by one over an output stream; the second half of the theory gives the bytes each of
  them appends (\<open>emits\<close>) and the pure layout of a whole table.
\<close>

section \<open>Structures and constants\<close>

record block_handle =
  bh_offset :: u64
  bh_size :: u64

record index_entry =
  ie_last_key :: string
  ie_block :: block_handle

record filter_block =
  fb_num_bits :: u32
  fb_num_hashes :: u32
  fb_bitset :: "8 word list"

record footer =
  ft_metadata_block :: block_handle
  ft_index_block :: block_handle
  ft_filter_block :: block_handle

definition BlockHandle :: "u64 \<Rightarrow> u64 \<Rightarrow> block_handle" where
  "BlockHandle off sz = \<lparr>bh_offset = off, bh_size = sz\<rparr>"

definition FOOTER_ENCODED_SIZE :: nat where
  "FOOTER_ENCODED_SIZE = 3 * 16"

definition DATA_BLOCK_MAX_SIZE :: nat where
  "DATA_BLOCK_MAX_SIZE = 4096"

definition FILTER_NUM_BITS :: u32 where
  "FILTER_NUM_BITS = 8192"

definition FILTER_NUM_HASHES :: u32 where
  "FILTER_NUM_HASHES = 7"

text \<open>\<open>std::numeric_limits<std::uint32_t>::max()\<close>\<close>

definition UINT32_MAX :: nat where
  "UINT32_MAX = 2 ^ 32 - 1"

section \<open>Writing integers, strings and entries\<close>

definition writeUint64BigEndian :: "u64 \<Rightarrow> (out, unit) sx" where
  "writeUint64BigEndian v = owrite_or_throw (be_bytes 8 v []) ''failed to write uint64''"

definition writeUint32BigEndian :: "u32 \<Rightarrow> (out, unit) sx" where
  "writeUint32BigEndian v =
     owrite_or_throw [low_byte (drop_bit 24 v), low_byte (drop_bit 16 v), low_byte (drop_bit 8 v), low_byte v]
       ''failed to write uint32''"

definition appendString :: "bytes \<Rightarrow> string \<Rightarrow> exn + bytes" where
  "appendString buf s =
     (if length s > UINT32_MAX then Inl (Runtime_error ''string too large for data block'')
      else Inr (appendUint32BigEndian buf (of_nat (length s)) @ s))"

definition appendEntry :: "bytes \<Rightarrow> string \<Rightarrow> string \<Rightarrow> bool \<Rightarrow> exn + bytes" where
  "appendEntry buf key val tombstone =
     rbind (appendString buf key) (\<lambda>buf.
     rbind (appendString buf (if tombstone then [] else val)) (\<lambda>buf.
       Inr (buf @ [if tombstone then char_of (1::nat) else char_of (0::nat)])))"

definition writeRawBlock :: "bytes \<Rightarrow> (out, block_handle) sx" where
  "writeRawBlock block =
     sx_bind (otell_or_throw ''failed to get block offset'') (\<lambda>start.
     sx_bind (owrite_or_throw block ''failed to write block'') (\<lambda>_.
       sx_return (BlockHandle (of_nat start) (of_nat (length block)))))"

definition writeBlockHandle :: "block_handle \<Rightarrow> (out, unit) sx" where
  "writeBlockHandle h =
     sx_bind (writeUint64BigEndian (bh_offset h)) (\<lambda>_. writeUint64BigEndian (bh_size h))"

definition writeString :: "string \<Rightarrow> (out, unit) sx" where
  "writeString s =
     (if length s > UINT32_MAX then sx_throw (Runtime_error ''string too large for metadata block'')
      else sx_bind (writeUint32BigEndian (of_nat (length s))) (\<lambda>_.
             owrite_or_throw s ''failed to write string''))"

section \<open>Writing the blocks\<close>

definition writeMetadataBlock :: "sstable_metadata \<Rightarrow> (out, block_handle) sx" where
  "writeMetadataBlock meta =
     sx_bind (otell_or_throw ''failed to get metadata block offset'') (\<lambda>start.
     sx_bind (writeUint64BigEndian (m_file_number meta)) (\<lambda>_.
     sx_bind (writeUint64BigEndian (m_timestamp meta)) (\<lambda>_.
     sx_bind (writeString (m_min_key meta)) (\<lambda>_.
     sx_bind (writeString (m_max_key meta)) (\<lambda>_.
     sx_bind (otell_or_throw ''failed to get metadata block end'') (\<lambda>stop.
       sx_return (BlockHandle (of_nat start) (of_nat (stop - start)))))))))"

fun writeIndexEntries :: "index_entry list \<Rightarrow> (out, unit) sx" where
  "writeIndexEntries [] = sx_return ()"
| "writeIndexEntries (entry # index) =
     sx_bind (writeString (ie_last_key entry)) (\<lambda>_.
     sx_bind (writeBlockHandle (ie_block entry)) (\<lambda>_. writeIndexEntries index))"

definition writeIndexBlock :: "index_entry list \<Rightarrow> (out, block_handle) sx" where
  "writeIndexBlock index =
     sx_bind (otell_or_throw ''failed to get index block offset'') (\<lambda>start.
       if length index > UINT32_MAX then sx_throw (Runtime_error ''too many index entries'')
       else
         sx_bind (writeUint32BigEndian (of_nat (length index))) (\<lambda>_.
         sx_bind (writeIndexEntries index) (\<lambda>_.
         sx_bind (otell_or_throw ''failed to get index block end'') (\<lambda>stop.
           sx_return (BlockHandle (of_nat start) (of_nat (stop - start)))))))"

definition hashKeyWithSeed :: "string \<Rightarrow> u64 \<Rightarrow> u64" where
  "hashKeyWithSeed key seed =
     foldl (\<lambda>hash byte. (hash XOR of_char byte) * 1099511628211) (1469598103934665603 XOR seed) key"

text \<open>One round of the loop of \<open>addKeyToFilter\<close>, and the loop over the seeds.\<close>

definition filter_bit_index :: "string \<Rightarrow> u32 \<Rightarrow> u32" where
  "filter_bit_index key seed = ucast (hashKeyWithSeed key (ucast seed) mod ucast FILTER_NUM_BITS)"

definition set_filter_bit :: "8 word list \<Rightarrow> u32 \<Rightarrow> 8 word list" where
  "set_filter_bit bitset bitIndex =
     (let i = unat (bitIndex div 8)
      in bitset[i := bitset ! i OR push_bit (unat (bitIndex mod 8)) 1])"

definition addKeyToFilter :: "8 word list \<Rightarrow> string \<Rightarrow> 8 word list" where
  "addKeyToFilter bitset key =
     foldl (\<lambda>bs seed. set_filter_bit bs (filter_bit_index key (of_nat seed))) bitset
       [0..<unat FILTER_NUM_HASHES]"

definition writeFilterBlock :: "8 word list \<Rightarrow> (out, block_handle) sx" where
  "writeFilterBlock bitset =
     sx_bind (otell_or_throw ''failed to get filter block offset'') (\<lambda>start.
       if length bitset > UINT32_MAX then sx_throw (Runtime_error ''filter block bitset too large'')
       else
         sx_bind (writeUint32BigEndian FILTER_NUM_BITS) (\<lambda>_.
         sx_bind (writeUint32BigEndian FILTER_NUM_HASHES) (\<lambda>_.
         sx_bind (writeUint32BigEndian (of_nat (length bitset))) (\<lambda>_.
         sx_bind (owrite_or_throw (map (\<lambda>b. char_of (unat b)) bitset) ''failed to write filter block'') (\<lambda>_.
         sx_bind (otell_or_throw ''failed to get filter block end'') (\<lambda>stop.
           sx_return (BlockHandle (of_nat start) (of_nat (stop - start)))))))))"

definition writeFooter :: "footer \<Rightarrow> (out, unit) sx" where
  "writeFooter f =
     sx_bind (writeBlockHandle (ft_metadata_block f)) (\<lambda>_.
     sx_bind (writeBlockHandle (ft_index_block f)) (\<lambda>_. writeBlockHandle (ft_filter_block f)))"

section \<open>Writing a table\<close>

text \<open>The local variables of \<open>writeTable\<close>.\<close>

record block_builder =
  bb_maxKey :: string
  bb_index :: "index_entry list"
  bb_dataBlock :: bytes
  bb_entriesInBlock :: u32
  bb_lastKeyInBlock :: string
  bb_filterBitset :: "8 word list"

definition block_builder_init :: block_builder where
  "block_builder_init =
     \<lparr>bb_maxKey = [], bb_index = [], bb_dataBlock = [], bb_entriesInBlock = 0, bb_lastKeyInBlock = [],
      bb_filterBitset = replicate ((unat FILTER_NUM_BITS + 7) div 8) 0\<rparr>"

definition flushDataBlock :: "block_builder \<Rightarrow> (out, block_builder) sx" where
  "flushDataBlock b =
     (if bb_entriesInBlock b = 0 then sx_return b
      else
        (let encodedBlock = appendUint32BigEndian [] (bb_entriesInBlock b) @ bb_dataBlock b
         in sx_bind (writeRawBlock encodedBlock) (\<lambda>dataBlockHandle.
              sx_return (b\<lparr>bb_index := bb_index b @ [\<lparr>ie_last_key = bb_lastKeyInBlock b, ie_block = dataBlockHandle\<rparr>],
                bb_dataBlock := [], bb_entriesInBlock := 0, bb_lastKeyInBlock := []\<rparr>))))"

text \<open>The body of the loop over the entries.\<close>

definition bb_append :: "string \<Rightarrow> bytes \<Rightarrow> block_builder \<Rightarrow> block_builder" where
  "bb_append key encodedEntry b =
     b\<lparr>bb_dataBlock := bb_dataBlock b @ encodedEntry, bb_entriesInBlock := bb_entriesInBlock b + 1,
       bb_filterBitset := addKeyToFilter (bb_filterBitset b) key,
       bb_lastKeyInBlock := key, bb_maxKey := key\<rparr>"

definition bb_add_entry :: "string \<Rightarrow> string \<Rightarrow> bool \<Rightarrow> block_builder \<Rightarrow> (out, block_builder) sx" where
  "bb_add_entry key val tombstone b =
     (case appendEntry [] key val tombstone of
        Inl ex \<Rightarrow> sx_throw ex
      | Inr encodedEntry \<Rightarrow>
          sx_bind
            (if bb_entriesInBlock b > 9 \<and> length (bb_dataBlock b) + length encodedEntry > DATA_BLOCK_MAX_SIZE
             then flushDataBlock b else sx_return b)
            (\<lambda>b. sx_return (bb_append key encodedEntry b)))"

function bb_write_entries :: "kv_iterator \<Rightarrow> block_builder \<Rightarrow> (out, block_builder) sx" where
  "bb_write_entries it b out =
     (if it_Valid it then
        (case bb_add_entry (it_Key it) (it_Value it) (it_isTombstone it) b out of
           (Inl ex, out') \<Rightarrow> (Inl ex, out')
         | (Inr b', out') \<Rightarrow> bb_write_entries (it_Next it) b' out')
      else (Inr b, out))"
  by pat_completeness auto
termination
  by (relation "measure (\<lambda>(it, b, out). it_remaining it)") (simp_all add: it_remaining_Next)

declare bb_write_entries.simps [simp del]

text \<open>Everything \<open>writeTable\<close> writes between opening and closing the file.\<close>

definition bb_write_body :: "kv_iterator \<Rightarrow> u64 \<Rightarrow> u64 \<Rightarrow> (out, unit) sx" where
  "bb_write_body it0 timestamp fileNum =
     (let it = it_SeekToFirst it0
      in if \<not> it_Valid it
         then sx_throw (Runtime_error ''BlockBasedTableFormat::writeTable(): cannot write empty table'')
         else
           (let minKey = it_Key it
            in sx_bind (bb_write_entries it block_builder_init) (\<lambda>b.
               sx_bind (flushDataBlock b) (\<lambda>b.
               sx_bind (writeMetadataBlock (SSTableMetadata fileNum timestamp minKey (bb_maxKey b))) (\<lambda>metaHandle.
               sx_bind (writeIndexBlock (bb_index b)) (\<lambda>indexHandle.
               sx_bind (writeFilterBlock (bb_filterBitset b)) (\<lambda>filterHandle.
                 writeFooter \<lparr>ft_metadata_block = metaHandle, ft_index_block = indexHandle,
                   ft_filter_block = filterHandle\<rparr>)))))))"

section \<open>The bytes of a table\<close>

text \<open>
  The layout, written as pure functions.  A tombstone is stored without its value, so the entry a
  reader gets back is \<open>stored_entry e\<close>.
\<close>

definition stored_value :: "entry \<Rightarrow> string" where
  "stored_value e = (if e_tombstone e then [] else e_val e)"

definition stored_entry :: "entry \<Rightarrow> entry" where
  "stored_entry e = Entry (e_key e) (stored_value e) (e_tombstone e)"

lemma stored_entry_key [simp]: "e_key (stored_entry e) = e_key e"
  by (simp add: stored_entry_def)

definition enc_string :: "string \<Rightarrow> bytes" where
  "enc_string s = be_bytes 4 (of_nat (length s) :: u32) [] @ s"

definition enc_entry :: "entry \<Rightarrow> bytes" where
  "enc_entry e = enc_string (e_key e) @ enc_string (stored_value e) @
     [if e_tombstone e then char_of (1::nat) else char_of (0::nat)]"

definition enc_block :: "entry list \<Rightarrow> bytes" where
  "enc_block es = be_bytes 4 (of_nat (length es) :: u32) [] @ concat (map enc_entry es)"

definition enc_handle :: "block_handle \<Rightarrow> bytes" where
  "enc_handle h = be_bytes 8 (bh_offset h) [] @ be_bytes 8 (bh_size h) []"

definition enc_meta :: "sstable_metadata \<Rightarrow> bytes" where
  "enc_meta m = be_bytes 8 (m_file_number m) [] @ be_bytes 8 (m_timestamp m) [] @
     enc_string (m_min_key m) @ enc_string (m_max_key m)"

definition enc_index_entry :: "index_entry \<Rightarrow> bytes" where
  "enc_index_entry ie = enc_string (ie_last_key ie) @ enc_handle (ie_block ie)"

definition enc_index :: "index_entry list \<Rightarrow> bytes" where
  "enc_index idx = be_bytes 4 (of_nat (length idx) :: u32) [] @ concat (map enc_index_entry idx)"

definition enc_filter :: "8 word list \<Rightarrow> bytes" where
  "enc_filter bits = be_bytes 4 FILTER_NUM_BITS [] @ be_bytes 4 FILTER_NUM_HASHES [] @
     be_bytes 4 (of_nat (length bits) :: u32) [] @ map (\<lambda>b. char_of (unat b)) bits"

definition enc_footer :: "footer \<Rightarrow> bytes" where
  "enc_footer f = enc_handle (ft_metadata_block f) @ enc_handle (ft_index_block f) @ enc_handle (ft_filter_block f)"

definition block_entry_fits :: "entry \<Rightarrow> bool" where
  "block_entry_fits e \<longleftrightarrow> length (e_key e) < 2 ^ 32 \<and> length (stored_value e) < 2 ^ 32"

lemma length_enc_string [simp]: "length (enc_string s) = 4 + length s"
  by (simp add: enc_string_def)

lemma length_enc_entry: "length (enc_entry e) = 9 + length (e_key e) + length (stored_value e)"
  by (simp add: enc_entry_def)

lemma length_enc_handle [simp]: "length (enc_handle h) = 16"
  by (simp add: enc_handle_def)

lemma length_enc_footer [simp]: "length (enc_footer f) = 48"
  by (simp add: enc_footer_def)

section \<open>What the writers append\<close>

named_theorems emit_simps \<open>the effect of a writer on a healthy stream\<close>

lemma UINT32_MAX_less: "\<not> UINT32_MAX < n \<longleftrightarrow> n < 2 ^ 32"
  by (auto simp: UINT32_MAX_def)

lemma emits_u64: "emits (writeUint64BigEndian v) (\<lambda>_. ()) (\<lambda>_. be_bytes 8 v [])"
  unfolding writeUint64BigEndian_def by (rule emits_write)

lemma emits_u32: "emits (writeUint32BigEndian v) (\<lambda>_. ()) (\<lambda>_. be_bytes 4 v [])"
proof -
  have "writeUint32BigEndian v = owrite_or_throw (appendUint32BigEndian [] v) ''failed to write uint32''"
    by (simp add: writeUint32BigEndian_def appendUint32BigEndian_def)
  then show ?thesis using emits_write by (simp add: appendUint32_eq)
qed

lemmas primitive_emits [emit_simps] =
  emitsD [OF emits_u64] emitsD [OF emits_u32] emitsD [OF emits_write] emitsD [OF emits_tell] sx_simps

lemma emits_string: "length s < 2 ^ 32 \<Longrightarrow> emits (writeString s) (\<lambda>_. ()) (\<lambda>_. enc_string s)"
  by (rule emitsI) (simp add: writeString_def emit_simps enc_string_def UINT32_MAX_def)

lemma emits_handle: "emits (writeBlockHandle h) (\<lambda>_. ()) (\<lambda>_. enc_handle h)"
  by (rule emitsI) (simp add: writeBlockHandle_def emit_simps enc_handle_def)

lemmas composite_emits [emit_simps] = emitsD [OF emits_string] emitsD [OF emits_handle]

lemma emits_raw_block:
  "emits (writeRawBlock bs) (\<lambda>n. BlockHandle (of_nat n) (of_nat (length bs))) (\<lambda>_. bs)"
  by (rule emitsI) (simp add: writeRawBlock_def emit_simps)

lemma emits_metadata:
  assumes "length (m_min_key m) < 2 ^ 32" and "length (m_max_key m) < 2 ^ 32"
  shows "emits (writeMetadataBlock m) (\<lambda>n. BlockHandle (of_nat n) (of_nat (length (enc_meta m)))) (\<lambda>_. enc_meta m)"
  using assms by (intro emitsI) (simp add: writeMetadataBlock_def emit_simps enc_meta_def)

lemma emits_index_entries:
  assumes "\<forall>ie \<in> set idx. length (ie_last_key ie) < 2 ^ 32"
  shows "emits (writeIndexEntries idx) (\<lambda>_. ()) (\<lambda>_. concat (map enc_index_entry idx))"
  using assms
proof (induction idx)
  case Nil
  then show ?case by (simp add: emits_return)
next
  case (Cons ie idx)
  then have "emits (writeIndexEntries idx) (\<lambda>_. ()) (\<lambda>_. concat (map enc_index_entry idx))" by simp
  then show ?case
    using Cons.prems by (intro emitsI) (simp add: emit_simps emitsD [of "writeIndexEntries idx"] enc_index_entry_def [of ie])
qed

lemma emits_index:
  assumes "\<forall>ie \<in> set idx. length (ie_last_key ie) < 2 ^ 32" and "length idx < 2 ^ 32"
  shows "emits (writeIndexBlock idx) (\<lambda>n. BlockHandle (of_nat n) (of_nat (length (enc_index idx)))) (\<lambda>_. enc_index idx)"
  using assms(2) emitsD [OF emits_index_entries [OF assms(1)]]
  by (intro emitsI) (simp add: writeIndexBlock_def emit_simps enc_index_def UINT32_MAX_def)

lemma emits_filter:
  assumes "length bits < 2 ^ 32"
  shows "emits (writeFilterBlock bits) (\<lambda>n. BlockHandle (of_nat n) (of_nat (length (enc_filter bits)))) (\<lambda>_. enc_filter bits)"
  using assms by (intro emitsI) (simp add: writeFilterBlock_def emit_simps enc_filter_def UINT32_MAX_def)

lemma emits_footer: "emits (writeFooter f) (\<lambda>_. ()) (\<lambda>_. enc_footer f)"
  by (rule emitsI) (simp add: writeFooter_def emit_simps enc_footer_def)

section \<open>Cutting the entries into blocks\<close>

definition block_full :: "entry list \<Rightarrow> entry \<Rightarrow> bool" where
  "block_full cur e \<longleftrightarrow> 9 < length cur \<and>
     DATA_BLOCK_MAX_SIZE < length (concat (map enc_entry cur)) + length (enc_entry e)"

fun chunk :: "entry list \<Rightarrow> entry list \<Rightarrow> entry list list" where
  "chunk cur [] = [cur]"
| "chunk cur (e # es) = (if block_full cur e then cur # chunk [e] es else chunk (cur @ [e]) es)"

fun index_of :: "nat \<Rightarrow> entry list list \<Rightarrow> index_entry list" where
  "index_of n [] = []"
| "index_of n (b # bs) =
     \<lparr>ie_last_key = e_key (last b), ie_block = BlockHandle (of_nat n) (of_nat (length (enc_block b)))\<rparr> #
     index_of (n + length (enc_block b)) bs"

lemma concat_chunk: "concat (chunk cur es) = cur @ es"
  by (induction cur es rule: chunk.induct) simp_all

lemma chunk_nonempty: "cur \<noteq> [] \<or> es \<noteq> [] \<Longrightarrow> [] \<notin> set (chunk cur es)"
proof (induction cur es rule: chunk.induct)
  case (2 cur e es)
  then show ?case by (auto simp: block_full_def)
qed simp

text \<open>A block under construction holds at most 456 entries, since every entry takes nine bytes.\<close>

definition block_open :: "entry list \<Rightarrow> bool" where
  "block_open cur \<longleftrightarrow> length cur \<le> 10 \<or> length (concat (map enc_entry cur)) \<le> DATA_BLOCK_MAX_SIZE"

lemma enc_entries_length: "9 * length cur \<le> length (concat (map enc_entry cur))"
  by (induction cur) (simp_all add: length_enc_entry)

lemma block_open_length: "block_open cur \<Longrightarrow> length cur \<le> 456"
  using enc_entries_length [of cur] by (auto simp: block_open_def DATA_BLOCK_MAX_SIZE_def)

lemma block_open_step: "block_open cur \<Longrightarrow> \<not> block_full cur e \<Longrightarrow> block_open (cur @ [e])"
  by (auto simp: block_open_def block_full_def DATA_BLOCK_MAX_SIZE_def)

lemma chunk_open: "block_open cur \<Longrightarrow> \<forall>b \<in> set (chunk cur es). block_open b"
proof (induction cur es rule: chunk.induct)
  case (2 cur e es)
  have "block_open [e]" by (simp add: block_open_def)
  with 2 show ?case by (auto intro: block_open_step)
qed simp

text \<open>The cut is the greedy one: a block ends at the first entry it is full for.\<close>

lemma hd_chunk: "cur \<noteq> [] \<Longrightarrow> hd (chunk cur es ! 0) = hd cur"
  by (induction cur es rule: chunk.induct) auto

lemma chunk_closes: "Suc i < length (chunk cur es) \<Longrightarrow> block_full (chunk cur es ! i) (hd (chunk cur es ! Suc i))"
proof (induction cur es arbitrary: i rule: chunk.induct)
  case (2 cur e es)
  then show ?case using hd_chunk [of "[e]" es] by (cases i) (auto split: if_splits)
qed simp

lemma chunk_greedy:
  assumes "\<forall>j < length cur. \<not> block_full (take j cur) (cur ! j)" and "b \<in> set (chunk cur es)" and "j < length b"
  shows "\<not> block_full (take j b) (b ! j)"
  using assms
proof (induction cur es rule: chunk.induct)
  case (2 cur e es)
  show ?case
  proof (cases "block_full cur e")
    case True
    have "\<forall>j < length [e]. \<not> block_full (take j [e]) ([e] ! j)" by (simp add: block_full_def)
    then show ?thesis using 2 True by auto
  next
    case False
    then have "\<forall>j < length (cur @ [e]). \<not> block_full (take j (cur @ [e])) ((cur @ [e]) ! j)"
      using 2(3) by (auto simp: nth_append less_Suc_eq)
    then show ?thesis using 2(2) [OF False] 2(4,5) False by simp
  qed
qed auto

section \<open>The entry loop\<close>

definition builder_of :: "entry list \<Rightarrow> block_builder \<Rightarrow> bool" where
  "builder_of cur b \<longleftrightarrow> bb_dataBlock b = concat (map enc_entry cur) \<and>
     bb_entriesInBlock b = of_nat (length cur) \<and> (cur \<noteq> [] \<longrightarrow> bb_lastKeyInBlock b = e_key (last cur))"

definition bb_flushed :: "entry list \<Rightarrow> nat \<Rightarrow> block_builder \<Rightarrow> block_builder" where
  "bb_flushed cur n b =
     b\<lparr>bb_index := bb_index b @ index_of n [cur], bb_dataBlock := [], bb_entriesInBlock := 0,
       bb_lastKeyInBlock := []\<rparr>"

lemma builder_count:
  assumes "builder_of cur b" and "block_open cur"
  shows "bb_entriesInBlock b = 0 \<longleftrightarrow> cur = []" and "bb_entriesInBlock b > 9 \<longleftrightarrow> 9 < length cur"
proof -
  have n: "length cur < 2 ^ 32" using block_open_length [OF assms(2)] by simp
  show "bb_entriesInBlock b = 0 \<longleftrightarrow> cur = []"
    using assms(1) u32_len_0 [OF n] by (simp add: builder_of_def)
  show "bb_entriesInBlock b > 9 \<longleftrightarrow> 9 < length cur"
    using assms(1) unat_u32_len [OF n] by (simp add: builder_of_def word_less_nat_alt)
qed

lemma emits_flush:
  assumes "builder_of cur b" and "block_open cur" and "cur \<noteq> []"
  shows "emits (flushDataBlock b) (\<lambda>n. bb_flushed cur n b) (\<lambda>_. enc_block cur)"
proof -
  have "appendUint32BigEndian [] (bb_entriesInBlock b) @ bb_dataBlock b = enc_block cur"
    using assms(1) by (simp add: builder_of_def enc_block_def appendUint32_eq)
  then show ?thesis
    using assms builder_count(1) [OF assms(1,2)]
    by (intro emitsI) (simp add: flushDataBlock_def Let_def sx_simps emitsD [OF emits_raw_block] bb_flushed_def builder_of_def)
qed

lemma appendEntry_ok:
  assumes "block_entry_fits e"
  shows "appendEntry [] (e_key e) (e_val e) (e_tombstone e) = Inr (enc_entry e)"
  using assms
  by (auto simp: appendEntry_def appendString_def block_entry_fits_def stored_value_def UINT32_MAX_def
      appendUint32_eq enc_entry_def enc_string_def split: if_splits)

lemma emits_add_entry:
  assumes "builder_of cur b" and "block_open cur" and "block_entry_fits e"
  shows "emits (bb_add_entry (e_key e) (e_val e) (e_tombstone e) b)
    (\<lambda>n. bb_append (e_key e) (enc_entry e) (if block_full cur e then bb_flushed cur n b else b))
    (\<lambda>_. if block_full cur e then enc_block cur else [])"
proof -
  have full: "bb_entriesInBlock b > 9 \<and> length (bb_dataBlock b) + length (enc_entry e) > DATA_BLOCK_MAX_SIZE \<longleftrightarrow>
      block_full cur e"
    using builder_count(2) [OF assms(1,2)] assms(1) by (simp add: block_full_def builder_of_def)
  show ?thesis
  proof (cases "block_full cur e")
    case True
    then have "cur \<noteq> []" by (auto simp: block_full_def)
    from True emitsD [OF emits_flush [OF assms(1,2) this]] show ?thesis
      by (intro emitsI) (simp add: bb_add_entry_def appendEntry_ok [OF assms(3)] full sx_simps)
  next
    case False
    then show ?thesis
      by (intro emitsI) (simp add: bb_add_entry_def appendEntry_ok [OF assms(3)] full sx_simps set_file_same)
  qed
qed

text \<open>The loop over the iterator is a loop over its entries.\<close>

fun bb_write_list :: "entry list \<Rightarrow> block_builder \<Rightarrow> (out, block_builder) sx" where
  "bb_write_list [] b = sx_return b"
| "bb_write_list (e # es) b = sx_bind (bb_add_entry (e_key e) (e_val e) (e_tombstone e) b) (bb_write_list es)"

lemma bb_write_entries_list:
  "bb_write_entries it b out = bb_write_list (drop (it_at it) (it_items it)) b out"
proof (induction it b out rule: bb_write_entries.induct)
  case (1 it b out)
  show ?case
  proof (cases "it_Valid it")
    case True
    have c: "it_items it ! it_at it = it_current it" using True by (simp add: it.current_item)
    have "drop (it_at it) (it_items it) = it_current it # drop (it_at (it_Next it)) (it_items (it_Next it))"
      using True by (simp add: it.next_at it.next_items c [symmetric] it.Valid_iff Cons_nth_drop_Suc)
    then show ?thesis
      using 1 True by (subst bb_write_entries.simps)
        (auto simp: sx_bind_def it_current_def split: prod.splits sum.splits)
  next
    case False
    then show ?thesis by (simp add: bb_write_entries.simps [of it b out] it.Valid_iff sx_simps)
  qed
qed

definition bb_result :: "entry list \<Rightarrow> entry list \<Rightarrow> nat \<Rightarrow> block_builder \<Rightarrow> block_builder" where
  "bb_result cur es n b =
     \<lparr>bb_maxKey = (if es = [] then bb_maxKey b else e_key (last es)), bb_index = bb_index b @ index_of n (chunk cur es),
      bb_dataBlock = [], bb_entriesInBlock = 0, bb_lastKeyInBlock = [],
      bb_filterBitset = foldl addKeyToFilter (bb_filterBitset b) (map e_key es)\<rparr>"

lemma emits_entries:
  assumes "builder_of cur b" and "block_open cur" and "\<forall>e \<in> set es. block_entry_fits e" and "cur \<noteq> [] \<or> es \<noteq> []"
  shows "emits (sx_bind (bb_write_list es b) flushDataBlock) (\<lambda>n. bb_result cur es n b)
    (\<lambda>_. concat (map enc_block (chunk cur es)))"
  using assms
proof (induction es arbitrary: cur b)
  case Nil
  then have "emits (flushDataBlock b) (\<lambda>n. bb_flushed cur n b) (\<lambda>_. enc_block cur)"
    by (intro emits_flush) auto
  moreover have "sx_bind (bb_write_list [] b) flushDataBlock = flushDataBlock b"
    by (simp add: fun_eq_iff sx_simps)
  moreover have "bb_flushed cur n b = bb_result cur [] n b" for n
    by (cases b) (simp add: bb_flushed_def bb_result_def)
  ultimately show ?case by simp
next
  case (Cons e es)
  let ?b = "\<lambda>n. bb_append (e_key e) (enc_entry e) (if block_full cur e then bb_flushed cur n b else b)"
  let ?cur = "if block_full cur e then [e] else cur @ [e]"
  have step: "emits (bb_add_entry (e_key e) (e_val e) (e_tombstone e) b) ?b
      (\<lambda>_. if block_full cur e then enc_block cur else [])"
    using Cons.prems by (intro emits_add_entry) auto
  have rest: "emits (sx_bind (bb_write_list es (?b n)) flushDataBlock) (\<lambda>m. bb_result ?cur es m (?b n))
      (\<lambda>_. concat (map enc_block (chunk ?cur es)))" for n
  proof (rule Cons.IH)
    show "builder_of ?cur (?b n)"
      using Cons.prems(1) by (auto simp: builder_of_def bb_append_def bb_flushed_def)
    show "block_open ?cur"
      using block_open_step [OF Cons.prems(2)] by (auto simp: block_open_def [of "[e]"])
  qed (use Cons.prems in auto)
  have "sx_bind (bb_write_list (e # es) b) flushDataBlock =
      sx_bind (bb_add_entry (e_key e) (e_val e) (e_tombstone e) b) (\<lambda>b'. sx_bind (bb_write_list es b') flushDataBlock)"
    by (simp add: fun_eq_iff sx_bind_def split: prod.splits sum.splits)
  moreover have "bb_result ?cur es (n + length (if block_full cur e then enc_block cur else [])) (?b n) =
      bb_result cur (e # es) n b" for n
    by (simp add: bb_result_def bb_append_def bb_flushed_def)
  ultimately show ?case
    using emits_bind [where f = "\<lambda>b'. sx_bind (bb_write_list es b') flushDataBlock", OF step rest]
    by (cases "block_full cur e") simp_all
qed

section \<open>The whole table\<close>

text \<open>The parts of the file for a non-empty list of entries, and the file.\<close>

definition table_blocks :: "entry list \<Rightarrow> entry list list" where
  "table_blocks es = chunk [] es"

definition table_data :: "entry list \<Rightarrow> bytes" where
  "table_data es = concat (map enc_block (table_blocks es))"

definition table_meta :: "entry list \<Rightarrow> u64 \<Rightarrow> u64 \<Rightarrow> sstable_metadata" where
  "table_meta es ts fn = SSTableMetadata fn ts (e_key (hd es)) (e_key (last es))"

definition table_index :: "entry list \<Rightarrow> index_entry list" where
  "table_index es = index_of 0 (table_blocks es)"

definition table_filter :: "entry list \<Rightarrow> 8 word list" where
  "table_filter es = foldl addKeyToFilter (bb_filterBitset block_builder_init) (map e_key es)"

definition handle_after :: "bytes \<Rightarrow> bytes \<Rightarrow> block_handle" where
  "handle_after pre bs = BlockHandle (of_nat (length pre)) (of_nat (length bs))"

definition table_footer :: "entry list \<Rightarrow> u64 \<Rightarrow> u64 \<Rightarrow> footer" where
  "table_footer es ts fn =
     \<lparr>ft_metadata_block = handle_after (table_data es) (enc_meta (table_meta es ts fn)),
      ft_index_block = handle_after (table_data es @ enc_meta (table_meta es ts fn)) (enc_index (table_index es)),
      ft_filter_block = handle_after (table_data es @ enc_meta (table_meta es ts fn) @ enc_index (table_index es))
        (enc_filter (table_filter es))\<rparr>"

definition table_bytes :: "entry list \<Rightarrow> u64 \<Rightarrow> u64 \<Rightarrow> bytes" where
  "table_bytes es ts fn =
     table_data es @ enc_meta (table_meta es ts fn) @ enc_index (table_index es) @
     enc_filter (table_filter es) @ enc_footer (table_footer es ts fn)"

lemma length_set_filter_bit [simp]: "length (set_filter_bit bs i) = length bs"
  by (simp add: set_filter_bit_def Let_def)

lemma length_foldl_filter: "length (foldl (\<lambda>bs x. set_filter_bit bs (f x)) bs xs) = length bs"
  by (induction xs arbitrary: bs) simp_all

lemma length_addKeyToFilter [simp]: "length (addKeyToFilter bs k) = length bs"
  by (simp add: addKeyToFilter_def length_foldl_filter)

lemma length_table_filter [simp]: "length (table_filter es) = 1024"
proof -
  have "length (foldl addKeyToFilter bs ks) = length bs" for bs ks
    by (induction ks arbitrary: bs) simp_all
  then show ?thesis by (simp add: table_filter_def block_builder_init_def FILTER_NUM_BITS_def)
qed

lemma index_of_last_keys: "map ie_last_key (index_of n bs) = map (e_key \<circ> last) bs"
  by (induction n bs rule: index_of.induct) simp_all

lemma length_index_of [simp]: "length (index_of n bs) = length bs"
  by (induction n bs rule: index_of.induct) simp_all

lemma last_in_concat: "b \<in> set bs \<Longrightarrow> [] \<notin> set bs \<Longrightarrow> last b \<in> set (concat bs)"
  by (auto intro!: bexI [of _ b] last_in_set)

lemma table_index_keys:
  assumes "ie \<in> set (table_index es)" and "es \<noteq> []"
  shows "\<exists>e \<in> set es. ie_last_key ie = e_key e"
proof -
  have "ie_last_key ie \<in> set (map ie_last_key (table_index es))" using assms(1) by simp
  then obtain b where b: "b \<in> set (table_blocks es)" "ie_last_key ie = e_key (last b)"
    by (auto simp: table_index_def index_of_last_keys)
  then show ?thesis
    using last_in_concat [of b "table_blocks es"] chunk_nonempty [of "[]" es] assms(2)
    by (auto simp: table_blocks_def concat_chunk)
qed

lemma emits_body:
  assumes "it_items it \<noteq> []" and "\<forall>e \<in> set (it_items it). block_entry_fits e"
    and "length (table_index (it_items it)) < 2 ^ 32"
    and "o_good s" and "fs_quota w (o_path s) = None" and "content w (o_path s) = Some []"
  shows "bb_write_body it ts fn (s, w) = (Inr (), (s, set_file (o_path s) (table_bytes (it_items it) ts fn) w))"
proof -
  let ?es = "it_items it" and ?it = "it_SeekToFirst it" and ?b = block_builder_init
  have v: "it_Valid ?it" using assms(1) by (simp add: it.SeekToFirst_Valid)
  have at: "drop (it_at ?it) (it_items ?it) = ?es" by (simp add: it.first_at it.first_items)
  have mk: "it_Key ?it = e_key (hd ?es)"
    using v assms(1) it.current_item [OF v] it_current_key [of ?it]
    by (simp add: it.first_at it.first_items hd_conv_nth)
  have init: "builder_of [] ?b" "block_open []"
    by (simp_all add: builder_of_def block_builder_init_def block_open_def)
  have res: "bb_result [] ?es 0 ?b = \<lparr>bb_maxKey = e_key (last ?es), bb_index = table_index ?es, bb_dataBlock = [],
      bb_entriesInBlock = 0, bb_lastKeyInBlock = [], bb_filterBitset = table_filter ?es\<rparr>"
    using assms(1)
    by (simp add: bb_result_def table_index_def table_blocks_def table_filter_def block_builder_init_def)
  note ents = emitsD [OF emits_entries [OF init assms(2)], simplified, OF assms(1,4-6),
      unfolded res table_blocks_def [symmetric] table_data_def [symmetric]]
  have regroup: "sx_bind (bb_write_entries ?it ?b) (\<lambda>b. sx_bind (flushDataBlock b) K) =
      sx_bind (sx_bind (bb_write_list ?es ?b) flushDataBlock) K" for K :: "_ \<Rightarrow> (out, unit) sx"
  proof -
    have "bb_write_entries ?it ?b = bb_write_list ?es ?b"
      using bb_write_entries_list [of ?it ?b] unfolding at by blast
    then show ?thesis by (simp add: sx_bind_assoc)
  qed
  have fits: "length (e_key (hd ?es)) < 2 ^ 32" "length (e_key (last ?es)) < 2 ^ 32"
    using assms(1,2) by (simp_all add: block_entry_fits_def)
  have idx: "\<forall>ie \<in> set (table_index ?es). length (ie_last_key ie) < 2 ^ 32"
    using table_index_keys [OF _ assms(1)] assms(2) by (fastforce simp: block_entry_fits_def)
  show ?thesis
    unfolding bb_write_body_def Let_def mk regroup
    using v ents emitsD [OF emits_metadata] emitsD [OF emits_index [OF idx assms(3)]] emitsD [OF emits_filter]
      emitsD [OF emits_footer] fits assms
    by (simp add: sx_simps res table_bytes_def table_footer_def handle_after_def table_meta_def SSTableMetadata_def)
qed

end
