(* ===== verification/Filters.thy ===== *)
theory Filters
  imports Prelude
begin

text \<open>
  What a Bloom filter promises, whatever its layout: a key that was added is never denied.  The
  filter of a block-based table and \<open>BloomFilterImpl\<close> both provide it.
\<close>

locale membership_filter =
  fixes add :: "'f \<Rightarrow> 'k \<Rightarrow> 'f"
    and may_contain :: "'f \<Rightarrow> 'k \<Rightarrow> bool"
    and wf_filter :: "'f \<Rightarrow> bool"
  assumes wf_add: "wf_filter f \<Longrightarrow> wf_filter (add f k)"
    and add_contains: "wf_filter f \<Longrightarrow> may_contain (add f k) k"
    and add_keeps: "wf_filter f \<Longrightarrow> may_contain f k \<Longrightarrow> may_contain (add f k') k"
begin

lemma wf_add_all: "wf_filter f \<Longrightarrow> wf_filter (foldl add f ks)"
  by (induction ks arbitrary: f) (simp_all add: wf_add)

lemma add_all_keeps: "wf_filter f \<Longrightarrow> may_contain f k \<Longrightarrow> may_contain (foldl add f ks) k"
  by (induction ks arbitrary: f) (simp_all add: wf_add add_keeps)

lemma add_all_contains: "wf_filter f \<Longrightarrow> k \<in> set ks \<Longrightarrow> may_contain (foldl add f ks) k"
  by (induction ks arbitrary: f) (auto simp: wf_add add_contains add_all_keeps)

end

end
