(* ===== verification/Block_Reader.thy ===== *)
theory Block_Reader
  imports Block_Writer Filters
begin

text \<open>
  \<open>BlockBasedTableReader\<close> (\<open>src/core/sstable_manager/block_based/block_based_table_reader.cpp\<close>): the
  constructor loads the footer, the filter, the index and the metadata of a file; a lookup picks
  one data block by binary search over the index and decodes it from the file.
\<close>

section \<open>Reading integers, strings and handles\<close>

definition readUint64BigEndian :: "(istream, u64) sx" where
  "readUint64BigEndian =
     sx_bind (iread_or_throw 8 ''failed to read uint64'') (\<lambda>bs. sx_return (be_value bs))"

definition readUint32BigEndian :: "(istream, u32) sx" where
  "readUint32BigEndian =
     sx_bind (iread_or_throw 4 ''failed to read uint32'') (\<lambda>bs. sx_return (be_value bs))"

definition readString :: "(istream, string) sx" where
  "readString = sx_bind readUint32BigEndian (\<lambda>n. iread_or_throw (unat n) ''failed to read string'')"

definition readBlockHandle :: "(istream, block_handle) sx" where
  "readBlockHandle =
     sx_bind readUint64BigEndian (\<lambda>off. sx_bind readUint64BigEndian (\<lambda>sz. sx_return (BlockHandle off sz)))"

definition reader_error :: "string \<Rightarrow> path \<Rightarrow> exn" where
  "reader_error msg fullPath = Runtime_error (''BlockBasedTableReader: '' @ msg @ '': '' @ fullPath)"

text \<open>
  \<open>seekg\<close> to an offset from the beginning and the check after it.  A stream that was positioned can
  be asked for its position, so the \<open>tellg\<close> right after the seek cannot fail; the model keeps the
  checks the code makes.
\<close>

definition iseek_or_throw :: "u64 \<Rightarrow> exn \<Rightarrow> (istream, unit) sx" where
  "iseek_or_throw off ex s = (let t = iseek off s in if i_good t then (Inr (), t) else (Inl ex, t))"

definition itell_or :: "exn \<Rightarrow> (istream, nat) sx" where
  "itell_or ex s = (case itell s of None \<Rightarrow> (Inl ex, s) | Some n \<Rightarrow> (Inr n, s))"

text \<open>The common frame of \<open>readMetadataBlock\<close>, \<open>readIndexBlock\<close> and \<open>readFilterBlock\<close>.\<close>

definition read_sized_block :: "string \<Rightarrow> block_handle \<Rightarrow> path \<Rightarrow> (istream, 'a) sx \<Rightarrow> (istream, 'a) sx" where
  "read_sized_block what h fullPath body =
     (if bh_offset h = 0 \<and> bh_size h = 0
      then sx_throw (reader_error (''missing '' @ what @ '' block'') fullPath)
      else
        sx_bind (iseek_or_throw (bh_offset h) (reader_error (''failed to seek '' @ what @ '' block'') fullPath)) (\<lambda>_.
        sx_bind (itell_or (reader_error (''failed to determine '' @ what @ '' block start'') fullPath)) (\<lambda>start.
        sx_bind body (\<lambda>x.
        sx_bind (itell_or (reader_error (''failed to determine '' @ what @ '' block end'') fullPath)) (\<lambda>stop.
          if of_nat stop - of_nat start \<noteq> bh_size h
          then sx_throw (reader_error (what @ '' block size mismatch'') fullPath)
          else sx_return x)))))"

section \<open>Reading the blocks\<close>

definition readFooter :: "path \<Rightarrow> (istream, footer) sx" where
  "readFooter fullPath s =
     (if \<not> i_good s then (Inl (reader_error ''failed to determine table size'' fullPath), s)
      else if length (i_data s) < FOOTER_ENCODED_SIZE
      then (Inl (reader_error ''file too small for footer'' fullPath), s\<lparr>i_pos := length (i_data s)\<rparr>)
      else
        sx_bind readBlockHandle (\<lambda>m.
        sx_bind readBlockHandle (\<lambda>i.
        sx_bind readBlockHandle (\<lambda>f.
          sx_return \<lparr>ft_metadata_block = m, ft_index_block = i, ft_filter_block = f\<rparr>)))
          (s\<lparr>i_pos := length (i_data s) - FOOTER_ENCODED_SIZE\<rparr>))"

definition readMetadataBlock :: "block_handle \<Rightarrow> path \<Rightarrow> (istream, sstable_metadata) sx" where
  "readMetadataBlock h fullPath =
     read_sized_block ''metadata'' h fullPath
       (sx_bind readUint64BigEndian (\<lambda>fileNumber.
        sx_bind readUint64BigEndian (\<lambda>timestamp.
        sx_bind readString (\<lambda>minKey.
        sx_bind readString (\<lambda>maxKey.
          sx_return (SSTableMetadata fileNumber timestamp minKey maxKey))))))"

fun readIndexEntries :: "nat \<Rightarrow> (istream, index_entry list) sx" where
  "readIndexEntries 0 = sx_return []"
| "readIndexEntries (Suc n) =
     sx_bind readString (\<lambda>lastKey.
     sx_bind readBlockHandle (\<lambda>h.
     sx_bind (readIndexEntries n) (\<lambda>rest. sx_return (\<lparr>ie_last_key = lastKey, ie_block = h\<rparr> # rest))))"

definition readIndexBlock :: "block_handle \<Rightarrow> path \<Rightarrow> (istream, index_entry list) sx" where
  "readIndexBlock h fullPath =
     read_sized_block ''index'' h fullPath
       (sx_bind readUint32BigEndian (\<lambda>numEntries. readIndexEntries (unat numEntries)))"

definition readFilterBlock :: "block_handle \<Rightarrow> path \<Rightarrow> (istream, filter_block) sx" where
  "readFilterBlock h fullPath =
     read_sized_block ''filter'' h fullPath
       (sx_bind readUint32BigEndian (\<lambda>num_bits.
        sx_bind readUint32BigEndian (\<lambda>num_hashes.
        sx_bind readUint32BigEndian (\<lambda>bitsetSize.
        sx_bind (iread_or_throw (unat bitsetSize)
                   (''BlockBasedTableReader: failed to read filter bitset: '' @ fullPath)) (\<lambda>bs.
          sx_return \<lparr>fb_num_bits = num_bits, fb_num_hashes = num_hashes, fb_bitset = map of_char bs\<rparr>)))))"

text \<open>
  The loop of \<open>readEntryFromDataBlock\<close>: it returns the entry with the key, stops at the first larger
  key, and otherwise looks at all entries of the block.
\<close>

fun readDataEntries :: "nat \<Rightarrow> string \<Rightarrow> path \<Rightarrow> (istream, entry option) sx" where
  "readDataEntries 0 key fullPath = sx_return None"
| "readDataEntries (Suc n) key fullPath =
     sx_bind readString (\<lambda>entryKey.
     sx_bind readString (\<lambda>entryVal.
     sx_bind (iread_or_throw 1 (''BlockBasedTableReader: failed to read tombstone byte: '' @ fullPath)) (\<lambda>tb.
       if entryKey = key then sx_return (Some (Entry entryKey entryVal (tb \<noteq> [char_of (0::nat)])))
       else if entryKey > key then sx_return None
       else readDataEntries n key fullPath)))"

definition readEntryFromDataBlock :: "block_handle \<Rightarrow> string \<Rightarrow> path \<Rightarrow> (istream, entry option) sx" where
  "readEntryFromDataBlock h key fullPath =
     sx_bind (iseek_or_throw (bh_offset h) (reader_error ''failed to seek data block'' fullPath)) (\<lambda>_.
     sx_bind (itell_or (reader_error ''failed to determine data block start'' fullPath)) (\<lambda>start.
     sx_bind readUint32BigEndian (\<lambda>numEntries.
     sx_bind (readDataEntries (unat numEntries) key fullPath) (\<lambda>found.
       case found of
         Some e \<Rightarrow> sx_return (Some e)
       | None \<Rightarrow>
           sx_bind (itell_or (reader_error ''failed to determine data block end'' fullPath)) (\<lambda>stop.
             if of_nat stop - of_nat start > bh_size h
             then sx_throw (reader_error ''read past data block'' fullPath)
             else sx_return None)))))"

section \<open>The reader\<close>

record block_reader =
  br_fullPath :: path
  br_footer :: footer
  br_meta :: sstable_metadata
  br_index :: "index_entry list"
  br_filter :: filter_block

definition BlockBasedTableReader :: "path \<Rightarrow> world \<Rightarrow> exn + block_reader" where
  "BlockBasedTableReader fullPath w =
     (case open_in fullPath w of
        None \<Rightarrow> Inl (reader_error ''failed to open table'' fullPath)
      | Some s \<Rightarrow>
          fst (sx_bind (readFooter fullPath) (\<lambda>ft.
               sx_bind (readFilterBlock (ft_filter_block ft) fullPath) (\<lambda>filter.
               sx_bind (readIndexBlock (ft_index_block ft) fullPath) (\<lambda>index.
               sx_bind (readMetadataBlock (ft_metadata_block ft) fullPath) (\<lambda>meta.
                 sx_return \<lparr>br_fullPath = fullPath, br_footer = ft, br_meta = meta, br_index = index,
                   br_filter = filter\<rparr>)))) s))"

definition block_reader_withinRange :: "string \<Rightarrow> block_reader \<Rightarrow> bool" where
  "block_reader_withinRange key r \<longleftrightarrow> key \<ge> m_min_key (br_meta r) \<and> key \<le> m_max_key (br_meta r)"

text \<open>\<open>std::lower_bound\<close>: halve the range until the first element that is not less is found.\<close>

function lower_bound :: "('a \<Rightarrow> bool) \<Rightarrow> 'a list \<Rightarrow> nat \<Rightarrow> nat \<Rightarrow> nat" where
  "lower_bound below xs first len =
     (if 0 < len then
        (let half = len div 2; mid = first + half
         in if below (xs ! mid) then lower_bound below xs (Suc mid) (len - half - 1)
            else lower_bound below xs first half)
      else first)"
  by pat_completeness auto
termination
  by (relation "measure (\<lambda>(below, xs, first, len). len)") auto

declare lower_bound.simps [simp del]

definition block_reader_get :: "string \<Rightarrow> block_reader \<Rightarrow> world \<Rightarrow> exn + entry option" where
  "block_reader_get key r w =
     (if \<not> block_reader_withinRange key r then Inr None
      else
        (let i = lower_bound (\<lambda>entry. ie_last_key entry < key) (br_index r) 0 (length (br_index r))
         in if i = length (br_index r) then Inr None
            else
              (case open_in (br_fullPath r) w of
                 None \<Rightarrow> Inl (reader_error ''failed to open table'' (br_fullPath r))
               | Some s \<Rightarrow> fst (readEntryFromDataBlock (ie_block (br_index r ! i)) key (br_fullPath r) s))))"

definition block_reader_NewIterator :: "block_reader \<Rightarrow> exn + kv_iterator" where
  "block_reader_NewIterator r =
     Inl (Runtime_error ''BlockBasedTableReader::NewIterator(): data blocks are not implemented yet'')"

definition block_reader_getSize :: "block_reader \<Rightarrow> nat" where
  "block_reader_getSize r = 0"

text \<open>\<open>BlockBasedTableFormat::openTable\<close> and \<open>writeTable\<close>.\<close>

definition bb_openTable :: "path \<Rightarrow> world \<Rightarrow> exn + block_reader" where
  "bb_openTable fullPath w = BlockBasedTableReader fullPath w"

definition bb_writeTable :: "path \<Rightarrow> kv_iterator \<Rightarrow> u64 \<Rightarrow> u64 \<Rightarrow> (world, block_reader) sx" where
  "bb_writeTable fullPath it timestamp fileNum =
     sx_bind (if parent_path fullPath \<noteq> [] then create_directories_or_throw (parent_path fullPath)
              else sx_return ()) (\<lambda>_ w.
       let out = open_trunc fullPath w
       in if \<not> o_good (fst out)
          then (Inl (Runtime_error (''BlockBasedTableFormat: failed to create table: '' @ fullPath)), snd out)
          else
            (case bb_write_body it timestamp fileNum out of
               (Inl ex, out') \<Rightarrow> (Inl ex, snd out')
             | (Inr _, out') \<Rightarrow>
                 if \<not> o_good (fst out')
                 then (Inl (Runtime_error (''BlockBasedTableFormat: failed to close table: '' @ fullPath)), snd out')
                 else (BlockBasedTableReader fullPath (snd out'), snd out')))"

section \<open>What the readers consume\<close>

lemma reads_u64: "reads readUint64BigEndian v (be_bytes 8 v [])"
proof -
  have "reads (iread_or_throw 8 ''failed to read uint64'') (be_bytes 8 v []) (be_bytes 8 v [])"
    by (rule reads_iread) simp
  from reads_bind_return [OF this, of "be_value :: bytes \<Rightarrow> u64"] show ?thesis by (simp add: readUint64BigEndian_def)
qed

lemma reads_u32: "reads readUint32BigEndian v (be_bytes 4 v [])"
proof -
  have "reads (iread_or_throw 4 ''failed to read uint32'') (be_bytes 4 v []) (be_bytes 4 v [])"
    by (rule reads_iread) simp
  from reads_bind_return [OF this, of "be_value :: bytes \<Rightarrow> u32"] show ?thesis by (simp add: readUint32BigEndian_def)
qed

lemma reads_string:
  assumes "length s < 2 ^ 32"
  shows "reads readString s (enc_string s)"
  unfolding readString_def enc_string_def
  by (rule reads_bind [OF reads_u32]) (use assms in \<open>simp add: reads_iread unat_u32_len\<close>)

lemma reads_handle: "reads readBlockHandle h (enc_handle h)"
proof -
  have "reads readBlockHandle (BlockHandle (bh_offset h) (bh_size h)) (enc_handle h)"
    unfolding readBlockHandle_def enc_handle_def
    using reads_bind_return [OF reads_u64, of "BlockHandle (bh_offset h)" "bh_size h"]
    by (intro reads_bind [OF reads_u64])
  moreover have "BlockHandle (bh_offset h) (bh_size h) = h" by (simp add: BlockHandle_def)
  ultimately show ?thesis by simp
qed

lemma reads_append_Nil: "reads m x (bs @ []) \<Longrightarrow> reads m x bs"
  by simp

lemma reads_metadata:
  assumes "length (m_min_key m) < 2 ^ 32" and "length (m_max_key m) < 2 ^ 32"
  shows "reads (sx_bind readUint64BigEndian (\<lambda>fileNumber.
      sx_bind readUint64BigEndian (\<lambda>timestamp. sx_bind readString (\<lambda>minKey. sx_bind readString (\<lambda>maxKey.
      sx_return (SSTableMetadata fileNumber timestamp minKey maxKey)))))) m (enc_meta m)"
proof -
  have "SSTableMetadata (m_file_number m) (m_timestamp m) (m_min_key m) (m_max_key m) = m"
    by (simp add: SSTableMetadata_def)
  then show ?thesis
    unfolding enc_meta_def
    using assms reads_bind_return [OF reads_string [OF assms(2)],
        of "SSTableMetadata (m_file_number m) (m_timestamp m) (m_min_key m)"]
    by (intro reads_bind) (simp_all add: reads_u64 reads_string)
qed

lemma reads_index_entries:
  assumes "\<forall>ie \<in> set idx. length (ie_last_key ie) < 2 ^ 32"
  shows "reads (readIndexEntries (length idx)) idx (concat (map enc_index_entry idx))"
  using assms
proof (induction idx)
  case Nil
  then show ?case by (simp add: reads_return)
next
  case (Cons ie idx)
  have ie: "\<lparr>ie_last_key = ie_last_key ie, ie_block = ie_block ie\<rparr> = ie" by simp
  have "reads (sx_bind (readIndexEntries (length idx)) (\<lambda>rest. sx_return (\<lparr>ie_last_key = ie_last_key ie, ie_block = ie_block ie\<rparr> # rest)))
      (ie # idx) (concat (map enc_index_entry idx))"
    using reads_bind_return [of _ idx _ "\<lambda>rest. ie # rest"] Cons unfolding ie by simp
  then have "reads (readIndexEntries (Suc (length idx))) (ie # idx)
      (enc_string (ie_last_key ie) @ enc_handle (ie_block ie) @ concat (map enc_index_entry idx))"
    unfolding readIndexEntries.simps
    using Cons.prems by (intro reads_bind) (simp_all add: reads_string reads_handle)
  then show ?case by (simp add: enc_index_entry_def [of ie])
qed

lemma reads_index:
  assumes "\<forall>ie \<in> set idx. length (ie_last_key ie) < 2 ^ 32" and "length idx < 2 ^ 32"
  shows "reads (sx_bind readUint32BigEndian (\<lambda>numEntries. readIndexEntries (unat numEntries))) idx (enc_index idx)"
  unfolding enc_index_def
  using reads_index_entries [OF assms(1)] assms(2)
  by (intro reads_bind [OF reads_u32]) (simp add: unat_u32_len)

lemma of_char_char_of_byte: "(of_char (char_of (unat b)) :: 8 word) = b"
proof -
  have "unat b < 256" using unsigned_less [of b, where 'a = nat] by simp
  then have "(of_char (char_of (unat b)) :: nat) = unat b" by simp
  then have "of_nat (of_char (char_of (unat b)) :: nat) = (of_nat (unat b) :: 8 word)" by (simp only:)
  then show ?thesis by (simp only: of_nat_of_char of_nat_unat ucast_id)
qed

lemma reads_filter:
  assumes "length bits < 2 ^ 32"
  shows "reads (sx_bind readUint32BigEndian (\<lambda>num_bits. sx_bind readUint32BigEndian (\<lambda>num_hashes.
      sx_bind readUint32BigEndian (\<lambda>bitsetSize. sx_bind (iread_or_throw (unat bitsetSize) msg) (\<lambda>bs.
      sx_return \<lparr>fb_num_bits = num_bits, fb_num_hashes = num_hashes, fb_bitset = map of_char bs\<rparr>)))))
    \<lparr>fb_num_bits = FILTER_NUM_BITS, fb_num_hashes = FILTER_NUM_HASHES, fb_bitset = bits\<rparr> (enc_filter bits)"
proof -
  let ?bs = "map (\<lambda>b. char_of (unat b)) bits :: bytes"
  let ?f = "\<lambda>bs :: bytes. \<lparr>fb_num_bits = FILTER_NUM_BITS, fb_num_hashes = FILTER_NUM_HASHES,
    fb_bitset = map of_char bs\<rparr> :: filter_block"
  have "reads (iread_or_throw (unat (of_nat (length bits) :: u32)) msg) ?bs ?bs"
    using assms by (intro reads_iread) (simp add: unat_u32_len)
  from reads_bind_return [OF this, of ?f] show ?thesis
    unfolding enc_filter_def
    by (intro reads_bind) (simp_all add: reads_u32 o_def of_char_char_of_byte)
qed

lemma reads_footer:
  "reads (sx_bind readBlockHandle (\<lambda>m. sx_bind readBlockHandle (\<lambda>i. sx_bind readBlockHandle (\<lambda>f.
      sx_return \<lparr>ft_metadata_block = m, ft_index_block = i, ft_filter_block = f\<rparr>)))) ft (enc_footer ft)"
proof (cases ft)
  case (fields m i f)
  show ?thesis
    unfolding enc_footer_def fields footer.simps
    by (rule reads_bind [OF reads_handle], rule reads_bind [OF reads_handle],
        rule reads_bind_return [OF reads_handle, of "\<lambda>f. \<lparr>ft_metadata_block = m, ft_index_block = i, ft_filter_block = f\<rparr>"])
qed

section \<open>Blocks at a handle\<close>

text \<open>A stream over a file of fewer than \<open>2 ^ 63\<close> bytes that can be read to its end.\<close>

definition sound :: "bytes \<Rightarrow> istream \<Rightarrow> bool" where
  "sound d s \<longleftrightarrow> i_data s = d \<and> i_good s \<and> i_bad s = None \<and> length d < 2 ^ 63"

lemma unat_u64_len: "n < 2 ^ 63 \<Longrightarrow> unat (of_nat n :: u64) = n"
  by (simp add: unat_of_nat)

lemma of_nat_diff_u64: "m \<le> n \<Longrightarrow> (of_nat n :: u64) - of_nat m = of_nat (n - m)"
  by (simp add: of_nat_diff)

lemma iseek_or_throw_ok:
  assumes "sound d s" and "n \<le> length d"
  shows "iseek_or_throw (of_nat n) ex s = (Inr (), s\<lparr>i_pos := n\<rparr>)"
  using assms by (simp add: iseek_or_throw_def iseek_def sound_def unat_u64_len Let_def)

lemma itell_or_ok: "i_good s \<Longrightarrow> itell_or ex s = (Inr (i_pos s), s)"
  by (simp add: itell_or_def itell_def)

lemma sound_pos [simp]: "sound d (s\<lparr>i_pos := n\<rparr>) = sound d s"
  by (simp add: sound_def)

lemma read_sized_block_ok:
  assumes "reads body x bs" and "sound (pre @ bs @ post) s" and "bs \<noteq> []"
  shows "read_sized_block what (handle_after pre bs) p body s = (Inr x, s\<lparr>i_pos := length pre + length bs\<rparr>)"
proof -
  have g: "i_good s" "i_bad s = None" "i_data s = pre @ bs @ post" "length pre + length bs < 2 ^ 63"
    using assms(2) by (simp_all add: sound_def)
  have "(of_nat (length bs) :: u64) \<noteq> 0"
    using unat_u64_len [of "length bs"] g(4) assms(3) by (metis add_lessD1 add.commute length_0_conv unat_0)
  then have nz: "\<not> (bh_offset (handle_after pre bs) = 0 \<and> bh_size (handle_after pre bs) = 0)"
    by (simp add: handle_after_def BlockHandle_def)
  have sk: "iseek_or_throw (bh_offset (handle_after pre bs)) ex s = (Inr (), s\<lparr>i_pos := length pre\<rparr>)" for ex
    using iseek_or_throw_ok [OF assms(2)] by (simp add: handle_after_def BlockHandle_def)
  have bd: "body (s\<lparr>i_pos := length pre\<rparr>) = (Inr x, s\<lparr>i_pos := length pre + length bs\<rparr>)"
    using readsD [OF assms(1), of "s\<lparr>i_pos := length pre\<rparr>" pre post] g by simp
  have sz: "(of_nat (length pre + length bs) :: u64) - of_nat (length pre) = bh_size (handle_after pre bs)"
    by (simp add: handle_after_def BlockHandle_def)
  show ?thesis
    unfolding read_sized_block_def
    using g nz sk bd sz by (auto simp: sx_simps itell_or_ok)
qed

section \<open>Loading a table\<close>

definition table_reader_of :: "path \<Rightarrow> entry list \<Rightarrow> u64 \<Rightarrow> u64 \<Rightarrow> block_reader" where
  "table_reader_of p es ts fn =
     \<lparr>br_fullPath = p, br_footer = table_footer es ts fn, br_meta = table_meta es ts fn,
      br_index = table_index es,
      br_filter = \<lparr>fb_num_bits = FILTER_NUM_BITS, fb_num_hashes = FILTER_NUM_HASHES, fb_bitset = table_filter es\<rparr>\<rparr>"

text \<open>Entries a block-based table can hold: every length and the whole file are representable.\<close>

definition table_fits :: "entry list \<Rightarrow> bool" where
  "table_fits es \<longleftrightarrow> es \<noteq> [] \<and> (\<forall>e \<in> set es. block_entry_fits e) \<and> length es < 2 ^ 32 \<and>
     length (table_bytes es 0 0) < 2 ^ 63"

lemma length_table_bytes: "length (table_bytes es ts fn) = length (table_bytes es 0 0)"
  by (simp add: table_bytes_def enc_meta_def table_meta_def SSTableMetadata_def)

lemma chunk_length: "[] \<notin> set bs \<Longrightarrow> length bs \<le> length (concat bs)"
proof (induction bs)
  case (Cons b bs)
  then have "1 \<le> length b" by (cases b) auto
  with Cons show ?case by simp
qed simp

lemma table_index_length:
  assumes "es \<noteq> []"
  shows "length (table_index es) \<le> length es"
  using chunk_length [OF chunk_nonempty, of "[]" es] assms
  by (simp add: table_index_def table_blocks_def concat_chunk)

lemma table_index_fits:
  assumes "table_fits es"
  shows "\<forall>ie \<in> set (table_index es). length (ie_last_key ie) < 2 ^ 32" and "length (table_index es) < 2 ^ 32"
  using assms table_index_keys [of _ es] table_index_length [of es]
  by (fastforce simp: table_fits_def block_entry_fits_def)+

lemma table_meta_fits:
  assumes "table_fits es"
  shows "length (m_min_key (table_meta es ts fn)) < 2 ^ 32" "length (m_max_key (table_meta es ts fn)) < 2 ^ 32"
  using assms by (simp_all add: table_fits_def block_entry_fits_def table_meta_def SSTableMetadata_def)

lemma readFooter_ok:
  assumes "sound (d @ enc_footer ft) s"
  shows "readFooter p s = (Inr ft, s\<lparr>i_pos := length d + 48\<rparr>)"
  using assms readsD [OF reads_footer [of ft], of "s\<lparr>i_pos := length d\<rparr>" d "[]"]
  by (simp add: readFooter_def sound_def FOOTER_ENCODED_SIZE_def)

lemma enc_nonempty [simp]: "enc_meta m \<noteq> []" "enc_index i \<noteq> []" "enc_filter f \<noteq> []"
  using length_be_bytes [of 8 "m_file_number m" "[]"] length_be_bytes [of 4 "of_nat (length i) :: u32" "[]"]
    length_be_bytes [of 4 FILTER_NUM_BITS "[]"]
  unfolding enc_meta_def enc_index_def enc_filter_def by (metis append_is_Nil_conv list.size(3) add_eq_0_iff_both_eq_0 zero_neq_numeral)+

lemma open_in_healthy:
  assumes "healthy w" and "content w p = Some d" and "length d < 2 ^ 63"
  obtains s where "open_in p w = Some s" and "sound d s"
  using assms by (auto simp: open_in_def healthy_def sound_def)

lemma BlockBasedTableReader_ok:
  assumes "healthy w" and "content w p = Some (table_bytes es ts fn)" and "table_fits es"
  shows "BlockBasedTableReader p w = Inr (table_reader_of p es ts fn)"
proof -
  let ?d = "table_bytes es ts fn" and ?ft = "table_footer es ts fn"
  let ?D = "table_data es" and ?M = "enc_meta (table_meta es ts fn)"
  let ?I = "enc_index (table_index es)" and ?F = "enc_filter (table_filter es)"
  have "length ?d < 2 ^ 63"
    using assms(3) length_table_bytes [of es ts fn] by (simp add: table_fits_def)
  then obtain s where s: "open_in p w = Some s" and snd: "sound ?d s"
    using open_in_healthy [OF assms(1,2)] by blast
  have ft: "readFooter p s = (Inr ?ft, s\<lparr>i_pos := length (?D @ ?M @ ?I @ ?F) + 48\<rparr>)"
    using snd by (intro readFooter_ok) (simp add: table_bytes_def)
  have fl: "readFilterBlock (ft_filter_block ?ft) p (s\<lparr>i_pos := n\<rparr>) =
      (Inr (br_filter (table_reader_of p es ts fn)), s\<lparr>i_pos := length (?D @ ?M @ ?I) + length ?F\<rparr>)" for n
    using read_sized_block_ok [OF reads_filter, of "table_filter es" "?D @ ?M @ ?I" "enc_footer ?ft" "s\<lparr>i_pos := n\<rparr>"] snd
    by (simp add: readFilterBlock_def table_footer_def table_bytes_def table_reader_of_def)
  have ix: "readIndexBlock (ft_index_block ?ft) p (s\<lparr>i_pos := n\<rparr>) =
      (Inr (table_index es), s\<lparr>i_pos := length (?D @ ?M) + length ?I\<rparr>)" for n
    using read_sized_block_ok [OF reads_index [OF table_index_fits [OF assms(3)]], of "?D @ ?M" "?F @ enc_footer ?ft" "s\<lparr>i_pos := n\<rparr>"] snd
    by (simp add: readIndexBlock_def table_footer_def table_bytes_def)
  have mt: "readMetadataBlock (ft_metadata_block ?ft) p (s\<lparr>i_pos := n\<rparr>) =
      (Inr (table_meta es ts fn), s\<lparr>i_pos := length ?D + length ?M\<rparr>)" for n
    using read_sized_block_ok [OF reads_metadata [OF table_meta_fits [OF assms(3)]], of ?D ts fn "?I @ ?F @ enc_footer ?ft" "s\<lparr>i_pos := n\<rparr>"] snd
    by (simp add: readMetadataBlock_def table_footer_def table_bytes_def)
  show ?thesis
    unfolding BlockBasedTableReader_def
    by (simp add: s sx_simps ft fl ix mt) (simp add: table_reader_of_def)
qed

section \<open>Looking a key up\<close>

lemma lower_bound_ok:
  assumes "\<And>i j. i < j \<Longrightarrow> j < length xs \<Longrightarrow> below (xs ! j) \<Longrightarrow> below (xs ! i)"
    and "first + len \<le> length xs"
    and "\<forall>i < first. below (xs ! i)" and "\<forall>i < length xs. first + len \<le> i \<longrightarrow> \<not> below (xs ! i)"
  shows "lower_bound below xs first len \<le> length xs \<and>
    (\<forall>i < length xs. below (xs ! i) \<longleftrightarrow> i < lower_bound below xs first len)"
  using assms(2-)
proof (induction len arbitrary: first rule: less_induct)
  case (less len)
  let ?half = "len div 2"
  let ?mid = "first + ?half"
  note step = lower_bound.simps [of below xs first len]
  show ?case
  proof (cases "0 < len")
    case False
    then have "lower_bound below xs first len = first" by (subst step) simp
    then show ?thesis using less.prems False by (metis add.right_neutral neq0_conv not_le)
  next
    case True
    then have mid: "?mid < length xs" using less.prems(1) by linarith
    show ?thesis
    proof (cases "below (xs ! ?mid)")
      case below: True
      have lo: "\<forall>i < Suc ?mid. below (xs ! i)"
        using below assms(1) [of _ ?mid] mid by (auto simp: less_Suc_eq)
      have eq: "Suc ?mid + (len - ?half - 1) = first + len" using True by linarith
      have "lower_bound below xs first len = lower_bound below xs (Suc ?mid) (len - ?half - 1)"
        using True below by (simp add: step Let_def)
      moreover have "lower_bound below xs (Suc ?mid) (len - ?half - 1) \<le> length xs \<and>
          (\<forall>i < length xs. below (xs ! i) \<longleftrightarrow> i < lower_bound below xs (Suc ?mid) (len - ?half - 1))"
        by (rule less.IH; (unfold eq)?) (use True lo less.prems in simp_all)
      ultimately show ?thesis by simp
    next
      case above: False
      have hi: "\<forall>i < length xs. ?mid \<le> i \<longrightarrow> \<not> below (xs ! i)"
        using above assms(1) [of ?mid] by (auto simp: le_less)
      have "lower_bound below xs first len = lower_bound below xs first ?half"
        using True above by (simp add: step Let_def)
      moreover have "lower_bound below xs first ?half \<le> length xs \<and>
          (\<forall>i < length xs. below (xs ! i) \<longleftrightarrow> i < lower_bound below xs first ?half)"
        by (rule less.IH) (use True hi mid less.prems in simp_all)
      ultimately show ?thesis by simp
    qed
  qed
qed

lemma lower_bound_first:
  assumes "\<And>i j. i < j \<Longrightarrow> j < length xs \<Longrightarrow> below (xs ! j) \<Longrightarrow> below (xs ! i)"
  shows "lower_bound below xs 0 (length xs) \<le> length xs"
    and "i < length xs \<Longrightarrow> below (xs ! i) \<longleftrightarrow> i < lower_bound below xs 0 (length xs)"
proof -
  have "lower_bound below xs 0 (length xs) \<le> length xs \<and>
    (\<forall>i < length xs. below (xs ! i) \<longleftrightarrow> i < lower_bound below xs 0 (length xs))"
    by (rule lower_bound_ok) (use assms in auto)
  then show "lower_bound below xs 0 (length xs) \<le> length xs"
    and "i < length xs \<Longrightarrow> below (xs ! i) \<longleftrightarrow> i < lower_bound below xs 0 (length xs)" by auto
qed

lemma sorted_keys_find_above:
  assumes "sorted_keys f (x # xs)" and "k < f x"
  shows "find_key f k (x # xs) = None"
  using assms by (auto simp: find_key_None_iff)

text \<open>The scan of one data block.\<close>

lemma readDataEntries_ok:
  assumes "sorted_keys e_key b" and "\<forall>e \<in> set b. block_entry_fits e"
    and "i_data s = pre @ concat (map enc_entry b) @ post" and "i_pos s = length pre" and "i_good s" and "i_bad s = None"
  shows "\<exists>q. length pre \<le> q \<and> q \<le> length pre + length (concat (map enc_entry b)) \<and>
    readDataEntries (length b) key p s = (Inr (map_option stored_entry (find_key e_key key b)), s\<lparr>i_pos := q\<rparr>)"
  using assms
proof (induction b arbitrary: pre s)
  case Nil
  then show ?case by (intro exI [of _ "length pre"]) (simp add: sx_simps)
next
  case (Cons e b)
  let ?k = "enc_string (e_key e)" and ?v = "enc_string (stored_value e)"
  let ?t = "[if e_tombstone e then char_of (1::nat) else char_of (0::nat)] :: bytes"
  let ?r = "concat (map enc_entry b)"
  have d: "i_data s = pre @ ?k @ ?v @ ?t @ ?r @ post" using Cons.prems(3) by (simp add: enc_entry_def [of e])
  have fits: "length (e_key e) < 2 ^ 32" "length (stored_value e) < 2 ^ 32"
    using Cons.prems(2) by (simp_all add: block_entry_fits_def)
  let ?s1 = "s\<lparr>i_pos := length (pre @ ?k)\<rparr>" and ?s2 = "s\<lparr>i_pos := length (pre @ ?k @ ?v)\<rparr>"
  let ?s3 = "s\<lparr>i_pos := length (pre @ enc_entry e)\<rparr>"
  have r1: "readString s = (Inr (e_key e), ?s1)"
    using readsD [OF reads_string [OF fits(1)], of s pre "?v @ ?t @ ?r @ post"] d Cons.prems by simp
  have r2: "readString ?s1 = (Inr (stored_value e), ?s2)"
    using readsD [OF reads_string [OF fits(2)], of ?s1 "pre @ ?k" "?t @ ?r @ post"] d Cons.prems by (simp add: add.assoc)
  have r3: "iread_or_throw (Suc 0) msg ?s2 = (Inr ?t, ?s3)" for msg
    using readsD [OF reads_iread [of "Suc 0" ?t], of ?s2 "pre @ ?k @ ?v" "?r @ post"] d Cons.prems
    by (simp add: enc_entry_def [of e])
  have t: "(?t \<noteq> [char_of (0::nat)]) = e_tombstone e" by (simp add: char_of_eq_iff)
  have step: "readDataEntries (length (e # b)) key p s =
      (if e_key e = key then (Inr (Some (stored_entry e)), ?s3)
       else if key < e_key e then (Inr None, ?s3) else readDataEntries (length b) key p ?s3)"
    using r1 r2 r3 t by (simp add: sx_simps stored_entry_def)
  have len: "length (pre @ enc_entry e) \<le> length pre + length (concat (map enc_entry (e # b)))" by simp
  show ?case
  proof (cases "e_key e = key \<or> key < e_key e")
    case True
    then show ?thesis
      using step len sorted_keys_find_above [OF Cons.prems(1), of key]
      by (intro exI [of _ "length (pre @ enc_entry e)"]) auto
  next
    case False
    obtain q where q: "length (pre @ enc_entry e) \<le> q" "q \<le> length (pre @ enc_entry e) + length ?r"
        "readDataEntries (length b) key p ?s3 = (Inr (map_option stored_entry (find_key e_key key b)), ?s3\<lparr>i_pos := q\<rparr>)"
      using Cons.IH [of ?s3 "pre @ enc_entry e"] Cons.prems by auto
    then show ?thesis using step False by (intro exI [of _ q]) auto
  qed
qed

lemma readEntryFromDataBlock_ok:
  assumes "sorted_keys e_key b" and "\<forall>e \<in> set b. block_entry_fits e" and "length b < 2 ^ 32"
    and "sound (pre @ enc_block b @ post) s"
  shows "fst (readEntryFromDataBlock (handle_after pre (enc_block b)) key p s) =
    Inr (map_option stored_entry (find_key e_key key b))"
proof -
  let ?c = "be_bytes 4 (of_nat (length b) :: u32) []"
  let ?e = "concat (map enc_entry b)"
  have g: "i_data s = pre @ ?c @ ?e @ post" "i_good s" "i_bad s = None" "length pre + length (enc_block b) < 2 ^ 63"
    using assms(4) by (simp_all add: sound_def enc_block_def)
  have sk: "iseek_or_throw (bh_offset (handle_after pre (enc_block b))) ex s = (Inr (), s\<lparr>i_pos := length pre\<rparr>)" for ex
    using iseek_or_throw_ok [OF assms(4)] by (simp add: handle_after_def BlockHandle_def)
  have cnt: "readUint32BigEndian (s\<lparr>i_pos := length pre\<rparr>) = (Inr (of_nat (length b)), s\<lparr>i_pos := length pre + 4\<rparr>)"
    using readsD [OF reads_u32, of "s\<lparr>i_pos := length pre\<rparr>" pre "of_nat (length b)" "?e @ post"] g by simp
  obtain q where q: "length pre + 4 \<le> q" "q \<le> length pre + 4 + length ?e"
      "readDataEntries (length b) key p (s\<lparr>i_pos := length pre + 4\<rparr>) =
        (Inr (map_option stored_entry (find_key e_key key b)), s\<lparr>i_pos := q\<rparr>)"
    using readDataEntries_ok [OF assms(1,2), of "s\<lparr>i_pos := length pre + 4\<rparr>" "pre @ ?c" post key p] g by auto
  have "(of_nat q :: u64) - of_nat (length pre) = of_nat (q - length pre)"
    using q by (intro of_nat_diff_u64) simp
  moreover have "q - length pre \<le> length (enc_block b)" using q by (simp add: enc_block_def)
  ultimately have "\<not> (of_nat q :: u64) - of_nat (length pre) > bh_size (handle_after pre (enc_block b))"
    using g(4) by (simp add: handle_after_def BlockHandle_def not_less word_le_nat_alt unat_u64_len)
  then show ?thesis
    unfolding readEntryFromDataBlock_def
    using g q(3) sk cnt unat_u32_len [OF assms(3)]
    by (cases "find_key e_key key b") (simp_all add: sx_simps itell_or_ok)
qed

text \<open>The blocks of a sorted table, and which of them can hold a key.\<close>

lemma index_of_nth:
  "i < length bs \<Longrightarrow> index_of n bs ! i =
     \<lparr>ie_last_key = e_key (last (bs ! i)),
      ie_block = BlockHandle (of_nat (n + length (concat (map enc_block (take i bs))))) (of_nat (length (enc_block (bs ! i))))\<rparr>"
  by (induction n bs arbitrary: i rule: index_of.induct) (auto simp: less_Suc_eq_0_disj add.assoc)

lemma concat_nth_split:
  "i < length bs \<Longrightarrow> concat bs = concat (take i bs) @ bs ! i @ concat (drop (Suc i) bs)"
  by (subst id_take_nth_drop [of i bs]) simp_all

lemma sorted_blocks:
  assumes "sorted_keys f (concat bs)" and "i < length bs"
  shows "sorted_keys f (bs ! i)"
  using assms concat_nth_split [OF assms(2)] by (simp add: sorted_wrt_append)

lemma sorted_blocks_less:
  assumes "sorted_keys f (concat bs)" and "i < j" and "j < length bs" and "x \<in> set (bs ! i)" and "y \<in> set (bs ! j)"
  shows "f x < f y"
proof -
  have "bs ! j \<in> set (drop (Suc i) bs)"
    using assms(2,3) by (auto simp: in_set_conv_nth intro!: exI [of _ "j - Suc i"])
  then have "y \<in> set (concat (drop (Suc i) bs))" using assms(5) by auto
  then show ?thesis
    using assms concat_nth_split [of i bs] by (auto simp: sorted_wrt_append)
qed

lemma find_key_concat:
  assumes "r < length bs" and "\<And>i. i < length bs \<Longrightarrow> i \<noteq> r \<Longrightarrow> k \<notin> f ` set (bs ! i)"
  shows "find_key f k (concat bs) = find_key f k (bs ! r)"
proof -
  have "k \<notin> f ` set c" if c: "c \<in> set (take r bs)" for c
  proof -
    obtain i where "i < r" "c = bs ! i" using c by (auto simp: in_set_conv_nth [of c])
    then show ?thesis using assms(2) [of i] assms(1) by simp
  qed
  moreover have "k \<notin> f ` set c" if c: "c \<in> set (drop (Suc r) bs)" for c
  proof -
    obtain i where "i < length bs - Suc r" "c = bs ! (Suc r + i)" using c by (auto simp: in_set_conv_nth [of c])
    then show ?thesis using assms(2) [of "Suc r + i"] by simp
  qed
  ultimately have "find_key f k (concat (take r bs)) = None" "find_key f k (concat (drop (Suc r) bs)) = None"
    by (auto simp: find_key_None_iff)
  then show ?thesis
    using concat_nth_split [OF assms(1)] by (simp add: find_key_append split: option.splits)
qed

lemma last_concat_blocks: "bs \<noteq> [] \<Longrightarrow> [] \<notin> set bs \<Longrightarrow> last (concat bs) = last (last bs)"
proof (induction bs)
  case (Cons b bs)
  then show ?case by (cases "bs = []") (auto simp: last_append, metis list.set_intros(1) neq_Nil_conv)
qed simp

lemma find_key_block:
  assumes "sorted_keys e_key (concat bs)" and "[] \<notin> set bs" and "r < length bs" 
    and "\<And>i. i < length bs \<Longrightarrow> e_key (last (bs ! i)) < k \<longleftrightarrow> i < r"
  shows "find_key e_key k (concat bs) = find_key e_key k (bs ! r)"
proof (rule find_key_concat [OF assms(3)])
  fix i assume i: "i < length bs" "i \<noteq> r"
  have ne: "bs ! i \<noteq> []" "bs ! r \<noteq> []" using assms(2,3) i by (metis nth_mem)+
  show "k \<notin> e_key ` set (bs ! i)"
  proof (cases "i < r")
    case True
    then have "e_key (last (bs ! i)) < k" using assms(4) i by blast
    then show ?thesis
      using sorted_keys_bounds(2) [OF sorted_blocks [OF assms(1) i(1)]] by (fastforce dest: leD)
  next
    case False
    then have "r < i" using i by simp
    have "k \<le> e_key (last (bs ! r))" using assms(3,4) by (metis not_less less_irrefl)
    moreover have "e_key (last (bs ! r)) < e_key y" if "y \<in> set (bs ! i)" for y
      using sorted_blocks_less [OF assms(1) \<open>r < i\<close> i(1) _ that] ne by simp
    ultimately show ?thesis by force
  qed
qed

lemma table_data_split:
  assumes "r < length (table_blocks es)"
  shows "\<exists>post. table_bytes es ts fn =
    concat (map enc_block (take r (table_blocks es))) @ enc_block (table_blocks es ! r) @ post"
  using concat_nth_split [of r "map enc_block (table_blocks es)"] assms
  by (simp add: table_bytes_def table_data_def take_map)

lemma table_blocks_concat:
  assumes "es \<noteq> []"
  shows "[] \<notin> set (table_blocks es)" and "concat (table_blocks es) = es" and "table_blocks es \<noteq> []"
  using chunk_nonempty [of "[]" es] assms concat_chunk [of "[]" es] by (auto simp: table_blocks_def)

lemma table_block_ok:
  assumes "table_fits es" and "b \<in> set (table_blocks es)"
  shows "length b < 2 ^ 32" and "\<forall>e \<in> set b. block_entry_fits e"
proof -
  have "block_open b"
    using chunk_open [of "[]" es] assms(2) by (simp add: table_blocks_def block_open_def)
  then show "length b < 2 ^ 32" using block_open_length by fastforce
  show "\<forall>e \<in> set b. block_entry_fits e"
  proof
    fix e assume "e \<in> set b"
    then have "e \<in> set (concat (table_blocks es))" using assms(2) by auto
    moreover have "es \<noteq> []" using assms(1) by (simp add: table_fits_def)
    ultimately have "e \<in> set es" using table_blocks_concat(2) by metis
    then show "block_entry_fits e" using assms(1) by (simp add: table_fits_def)
  qed
qed

lemma table_index_nth:
  assumes "i < length (table_blocks es)"
  shows "ie_last_key (table_index es ! i) = e_key (last (table_blocks es ! i))"
    and "ie_block (table_index es ! i) =
      handle_after (concat (map enc_block (take i (table_blocks es)))) (enc_block (table_blocks es ! i))"
  using assms by (simp_all add: table_index_def index_of_nth handle_after_def)

text \<open>The bytes at the handle of a block, and where the blocks were cut.\<close>

lemma table_block_bytes:
  assumes "table_fits es" and "i < length (table_blocks es)"
  shows "take (unat (bh_size (ie_block (table_index es ! i)))) (drop (unat (bh_offset (ie_block (table_index es ! i)))) (table_bytes es ts fn)) =
    enc_block (table_blocks es ! i)"
proof -
  let ?pre = "concat (map enc_block (take i (table_blocks es)))" and ?b = "enc_block (table_blocks es ! i)"
  have split: "table_data es = ?pre @ ?b @ concat (map enc_block (drop (Suc i) (table_blocks es)))"
    using concat_nth_split [of i "map enc_block (table_blocks es)"] assms(2) by (simp add: table_data_def take_map drop_map)
  have "length (table_data es) \<le> length (table_bytes es 0 0)" by (simp add: table_bytes_def)
  then have "length ?pre < 2 ^ 63" "length ?b < 2 ^ 63"
    using assms(1) arg_cong [OF split, of length] by (simp_all add: table_fits_def)
  then have "unat (bh_offset (ie_block (table_index es ! i))) = length ?pre" "unat (bh_size (ie_block (table_index es ! i))) = length ?b"
    unfolding table_index_nth(2) [OF assms(2)] handle_after_def BlockHandle_def by (simp_all only: block_handle.simps unat_u64_len)
  then show ?thesis by (simp add: table_bytes_def split)
qed

lemma table_blocks_cut:
  assumes "es \<noteq> []" and "Suc i < length (table_blocks es)"
  shows "10 \<le> length (table_blocks es ! i) \<and>
    DATA_BLOCK_MAX_SIZE < length (concat (map enc_entry (table_blocks es ! i @ [hd (table_blocks es ! Suc i)])))"
  using chunk_closes [of i "[]" es] assms by (simp add: table_blocks_def block_full_def)

lemma table_blocks_greedy:
  assumes "b \<in> set (table_blocks es)" and "j < length b" and "10 \<le> j"
  shows "length (concat (map enc_entry (take (Suc j) b))) \<le> DATA_BLOCK_MAX_SIZE"
  using chunk_greedy [of "[]" b es j] assms by (auto simp: table_blocks_def block_full_def take_Suc_conv_app_nth)

text \<open>Where the binary search over the index ends.\<close>

definition table_search :: "string \<Rightarrow> entry list \<Rightarrow> nat" where
  "table_search k es = lower_bound (\<lambda>ie. ie_last_key ie < k) (table_index es) 0 (length (table_index es))"

lemma table_search_cut:
  assumes "es \<noteq> []" and "sorted_keys e_key es" and "i < length (table_blocks es)"
  shows "e_key (last (table_blocks es ! i)) < k \<longleftrightarrow> i < table_search k es"
proof -
  let ?bs = "table_blocks es"
  let ?below = "\<lambda>ie. ie_last_key ie < k"
  note bs = table_blocks_concat [OF assms(1)]
  have len: "length (table_index es) = length ?bs" by (simp add: table_index_def)
  have mono: "?below (table_index es ! i)" if "i < j" "j < length (table_index es)" "?below (table_index es ! j)" for i j
  proof -
    have "?bs ! i \<noteq> []" "?bs ! j \<noteq> []" using bs(1) that len by (metis nth_mem less_trans)+
    then have "e_key (last (?bs ! i)) < e_key (last (?bs ! j))"
      using sorted_blocks_less [OF _ that(1), of e_key ?bs] assms(2) bs(2) that(2) len by simp
    then show ?thesis using that len by (auto simp: table_index_nth)
  qed
  show ?thesis
    using lower_bound_first(2) [where xs = "table_index es" and below = ?below and i = i, OF mono] assms(3) len
    by (simp add: table_index_nth table_search_def)
qed

lemma table_search_in_range:
  assumes "es \<noteq> []" and "sorted_keys e_key es" and "k \<le> e_key (last es)"
  shows "table_search k es < length (table_blocks es)"
proof -
  let ?bs = "table_blocks es"
  note bs = table_blocks_concat [OF assms(1)]
  have "last es = last (?bs ! (length ?bs - 1))"
    using last_concat_blocks [OF bs(3,1)] bs(2,3) by (simp add: last_conv_nth)
  then have "\<not> length ?bs - 1 < table_search k es"
    using table_search_cut [OF assms(1,2), of "length ?bs - 1" k] bs(3) assms(3) by auto
  then show ?thesis using bs(3) by (cases "length ?bs") auto
qed

lemma block_reader_get_ok:
  assumes "healthy w" and "content w p = Some (table_bytes es ts fn)" and "table_fits es" and "sorted_keys e_key es"
  shows "block_reader_get k (table_reader_of p es ts fn) w = Inr (map_option stored_entry (find_key e_key k es))"
proof (cases "block_reader_withinRange k (table_reader_of p es ts fn)")
  case False
  then have "find_key e_key k es = None"
    using sorted_keys_bounds [OF assms(4)]
    by (auto simp: find_key_None_iff block_reader_withinRange_def table_reader_of_def table_meta_def SSTableMetadata_def)
  then show ?thesis using False by (simp add: block_reader_get_def)
next
  case range: True
  let ?bs = "table_blocks es" and ?r = "table_search k es"
  have ne: "es \<noteq> []" using assms(3) by (simp add: table_fits_def)
  note bs = table_blocks_concat [OF ne]
  have srt: "sorted_keys e_key (concat ?bs)" using assms(4) bs(2) by simp
  have r: "?r < length ?bs"
    using table_search_in_range [OF ne assms(4)] range
    by (simp add: block_reader_withinRange_def table_reader_of_def table_meta_def SSTableMetadata_def)
  then have b: "?bs ! ?r \<in> set ?bs" by simp
  obtain post where post: "table_bytes es ts fn =
      concat (map enc_block (take ?r ?bs)) @ enc_block (?bs ! ?r) @ post"
    using table_data_split [OF r] by blast
  have "length (table_bytes es ts fn) < 2 ^ 63"
    using assms(3) length_table_bytes [of es ts fn] by (simp add: table_fits_def)
  then obtain s where s: "open_in p w = Some s" "sound (table_bytes es ts fn) s"
    using open_in_healthy [OF assms(1,2)] by blast
  have "find_key e_key k es = find_key e_key k (?bs ! ?r)"
    using find_key_block [OF srt bs(1) r table_search_cut [OF ne assms(4)]] bs(2) by simp
  moreover have "fst (readEntryFromDataBlock (ie_block (table_index es ! ?r)) k p s) =
      Inr (map_option stored_entry (find_key e_key k (?bs ! ?r)))"
    unfolding table_index_nth(2) [OF r] using s(2) post
    by (intro readEntryFromDataBlock_ok [OF sorted_blocks [OF srt r] table_block_ok(2,1) [OF assms(3) b]]) simp
  moreover have "?r \<noteq> length (table_index es)" using r by (simp add: table_index_def)
  moreover have "br_index (table_reader_of p es ts fn) = table_index es" "br_fullPath (table_reader_of p es ts fn) = p"
    by (simp_all add: table_reader_of_def)
  ultimately show ?thesis
    using range s(1)
    by (simp only: block_reader_get_def Let_def table_search_def [symmetric] option.case) simp
qed

section \<open>Writing and loading\<close>

lemma bb_create_ok:
  assumes "healthy w"
  shows "\<exists>w'. (if parent_path p \<noteq> [] then create_directories_or_throw (parent_path p) else sx_return ()) w = (Inr (), w') \<and>
    can_create p w' \<and> evolves p w w'"
proof (cases "parent_path p = []")
  case True
  then show ?thesis using assms by (auto simp: sx_simps can_create_def healthy_def evolves_refl)
next
  case False
  then show ?thesis
    using assms can_create_mkdir [of w p] create_directories_or_throw_healthy [OF assms, of "parent_path p"] evolves_mkdir
    by (auto simp: healthy_def)
qed

lemma bb_writeTable_ok:
  assumes "healthy w" and "table_fits (it_items it)"
  shows "\<exists>w'. bb_writeTable p it ts fn w = (Inr (table_reader_of p (it_items it) ts fn), w') \<and> evolves p w w' \<and>
    content w' p = Some (table_bytes (it_items it) ts fn)"
proof -
  let ?es = "it_items it"
  obtain w1 where w1: "(if parent_path p \<noteq> [] then create_directories_or_throw (parent_path p) else sx_return ()) w = (Inr (), w1)"
      "can_create p w1" "evolves p w w1"
    using bb_create_ok [OF assms(1), of p] by blast
  have h: "healthy w1" using evolves_healthy [OF w1(3)] assms(1) by simp
  let ?s = "\<lparr>o_path = p, o_good = True\<rparr>"
  let ?w2 = "set_file p [] w1" and ?w3 = "set_file p (table_bytes ?es ts fn) w1"
  have opn: "open_trunc p w1 = (?s, ?w2)" using w1(2) by (simp add: open_trunc_def)
  have body: "bb_write_body it ts fn (?s, ?w2) = (Inr (), (?s, ?w3))"
    using emits_body [of it ?s ?w2 ts fn] assms(2) h table_index_fits(2) [OF assms(2)]
    by (simp add: table_fits_def healthy_def)
  have rd: "BlockBasedTableReader p ?w3 = Inr (table_reader_of p ?es ts fn)"
    using h assms(2) by (intro BlockBasedTableReader_ok) simp_all
  have "bb_writeTable p it ts fn w = (Inr (table_reader_of p ?es ts fn), ?w3)"
    by (simp add: bb_writeTable_def sx_simps w1(1) opn body rd)
  moreover have "evolves p w ?w3" using w1(3) by (rule evolves_set_file)
  ultimately show ?thesis by auto
qed

text \<open>An empty source is refused after the file has been created.\<close>

lemma bb_writeTable_empty:
  assumes "healthy w" and "it_items it = []"
  shows "\<exists>w'. bb_writeTable p it ts fn w =
      (Inl (Runtime_error ''BlockBasedTableFormat::writeTable(): cannot write empty table''), w') \<and>
    content w' p = Some [] \<and> bb_openTable p w' = Inl (reader_error ''file too small for footer'' p)"
proof -
  obtain w1 where w1: "(if parent_path p \<noteq> [] then create_directories_or_throw (parent_path p) else sx_return ()) w = (Inr (), w1)"
      "can_create p w1" "healthy w1"
    using bb_create_ok [OF assms(1), of p] evolves_healthy assms(1) by metis
  let ?s = "\<lparr>o_path = p, o_good = True\<rparr>"
  have opn: "open_trunc p w1 = (?s, set_file p [] w1)" using w1(2) by (simp add: open_trunc_def)
  have "\<not> it_Valid (it_SeekToFirst it)" using assms(2) by (simp add: it.SeekToFirst_Valid)
  then have "bb_writeTable p it ts fn w =
      (Inl (Runtime_error ''BlockBasedTableFormat::writeTable(): cannot write empty table''), set_file p [] w1)"
    by (simp add: bb_writeTable_def sx_simps w1(1) opn bb_write_body_def)
  moreover have "bb_openTable p (set_file p [] w1) = Inl (reader_error ''file too small for footer'' p)"
    using w1(3) by (simp add: bb_openTable_def BlockBasedTableReader_def open_in_def healthy_def readFooter_def
        FOOTER_ENCODED_SIZE_def sx_bind_def)
  ultimately show ?thesis by simp
qed

section \<open>The filter\<close>

text \<open>
  Membership in a Bloom filter of this layout.  No code of the reader asks it: the filter is loaded
  and never consulted.
\<close>

definition filter_may_contain :: "8 word list \<Rightarrow> string \<Rightarrow> bool" where
  "filter_may_contain bits key \<longleftrightarrow>
     (\<forall>seed < unat FILTER_NUM_HASHES.
        let i = filter_bit_index key (of_nat seed) in bit (bits ! unat (i div 8)) (unat (i mod 8)))"

lemma filter_bit_index_bound: "unat (filter_bit_index key seed div 8) < 1024"
proof -
  let ?h = "hashKeyWithSeed key (ucast seed)"
  have "unat (?h mod ucast FILTER_NUM_BITS) < 8192"
    by (simp add: FILTER_NUM_BITS_def unat_mod)
  then have "unat (filter_bit_index key seed) < 8192"
    by (simp add: filter_bit_index_def unsigned_ucast_eq take_bit_nat_eq_self)
  then show ?thesis by (simp add: unat_div)
qed

lemma set_filter_bit_mono:
  assumes "bit (bits ! j) n" and "unat (i div 8) < length bits"
  shows "bit (set_filter_bit bits i ! j) n"
  using assms by (cases "j = unat (i div 8)") (simp_all add: set_filter_bit_def Let_def bit_simps)

lemma set_filter_bit_sets:
  assumes "unat (i div 8) < length bits"
  shows "bit (set_filter_bit bits i ! unat (i div 8)) (unat (i mod 8))"
  using assms by (simp add: set_filter_bit_def Let_def bit_simps unat_mod)

lemma foldl_set_filter_mono:
  assumes "bit (bits ! j) n" and "length bits = 1024"
  shows "bit (foldl (\<lambda>bs s. set_filter_bit bs (filter_bit_index key (f s))) bits ss ! j) n"
  using assms
  by (induction ss arbitrary: bits) (simp_all add: set_filter_bit_mono filter_bit_index_bound)

lemma foldl_set_filter_sets:
  assumes "length bits = 1024" and "s \<in> set ss"
  shows "bit (foldl (\<lambda>bs s. set_filter_bit bs (filter_bit_index key (f s))) bits ss !
    unat (filter_bit_index key (f s) div 8)) (unat (filter_bit_index key (f s) mod 8))"
  using assms
proof (induction ss arbitrary: bits)
  case (Cons t ss)
  then show ?case
    by (auto simp: foldl_set_filter_mono set_filter_bit_sets filter_bit_index_bound)
qed simp

lemma addKeyToFilter_mono: "filter_may_contain bits k \<Longrightarrow> length bits = 1024 \<Longrightarrow> filter_may_contain (addKeyToFilter bits k') k"
  by (simp add: filter_may_contain_def addKeyToFilter_def Let_def foldl_set_filter_mono)

lemma addKeyToFilter_adds: "length bits = 1024 \<Longrightarrow> filter_may_contain (addKeyToFilter bits k) k"
  using foldl_set_filter_sets [of bits _ "[0..<unat FILTER_NUM_HASHES]" k of_nat]
  by (auto simp: filter_may_contain_def addKeyToFilter_def Let_def)

interpretation bbf: membership_filter addKeyToFilter filter_may_contain "\<lambda>bits. length bits = 1024"
  by unfold_locales (simp_all add: addKeyToFilter_adds addKeyToFilter_mono)

lemma table_filter_contains: "k \<in> e_key ` set es \<Longrightarrow> filter_may_contain (table_filter es) k"
  unfolding table_filter_def
  by (rule bbf.add_all_contains) (simp_all add: block_builder_init_def FILTER_NUM_BITS_def)

section \<open>Sizes\<close>

text \<open>
  The bound the theorems on the running store use: keys and values of at most \<open>2 ^ 30\<close> bytes, the
  limit of the log's reader, and memtables of at most \<open>2 ^ 20\<close> entries.  Then every table fits
  both formats.
\<close>

definition entry_small :: "entry \<Rightarrow> bool" where
  "entry_small e \<longleftrightarrow> length (e_key e) \<le> 2 ^ 30 \<and> length (e_val e) \<le> 2 ^ 30"

lemma length_concat_bound:
  assumes "\<forall>x \<in> set xs. length (f x) \<le> n"
  shows "length (concat (map f xs)) \<le> length xs * n"
  using assms by (induction xs) (auto simp: add_mono)

lemma length_enc_blocks:
  "length (concat (map enc_block bs)) = 4 * length bs + length (concat (map enc_entry (concat bs)))"
  by (induction bs) (simp_all add: enc_block_def)

lemma table_fits_bound:
  assumes "es \<noteq> []" and "length es \<le> 2 ^ 20" and "\<forall>e \<in> set es. entry_small e"
  shows "table_fits es"
proof -
  let ?n = "length es"
  have fit: "\<forall>e \<in> set es. block_entry_fits e"
    using assms(3) by (auto simp: entry_small_def block_entry_fits_def stored_value_def)
  have keys: "length (e_key (hd es)) \<le> 2 ^ 30" "length (e_key (last es)) \<le> 2 ^ 30"
    using assms(1,3) by (simp_all add: entry_small_def)
  have blocks: "length (table_blocks es) \<le> ?n"
    using table_index_length [OF assms(1)] by (simp add: table_index_def)
  have "length (concat (map enc_entry es)) \<le> ?n * (9 + 2 ^ 31)"
    using assms(3) by (intro length_concat_bound) (auto simp: length_enc_entry entry_small_def stored_value_def)
  then have data: "length (table_data es) \<le> 4 * ?n + ?n * (9 + 2 ^ 31)"
    using blocks table_blocks_concat(2) [OF assms(1)] by (simp add: table_data_def length_enc_blocks)
  have "length (enc_index_entry ie) \<le> 20 + 2 ^ 30" if ie: "ie \<in> set (table_index es)" for ie
  proof -
    obtain e where "e \<in> set es" "ie_last_key ie = e_key e" using table_index_keys [OF ie assms(1)] by blast
    then show ?thesis using assms(3) by (simp add: enc_index_entry_def entry_small_def)
  qed
  then have "length (concat (map enc_index_entry (table_index es))) \<le> length (table_index es) * (20 + 2 ^ 30)"
    by (intro length_concat_bound) simp
  also have "\<dots> \<le> ?n * (20 + 2 ^ 30)" using blocks by (simp add: table_index_def)
  finally have index: "length (enc_index (table_index es)) \<le> 4 + ?n * (20 + 2 ^ 30)" by (simp add: enc_index_def)
  have "length (table_bytes es 0 0) < 2 ^ 63"
    using data index keys assms(2)
    by (simp add: table_bytes_def enc_meta_def table_meta_def SSTableMetadata_def enc_filter_def)
  then show ?thesis using assms fit by (simp add: table_fits_def)
qed

text \<open>Unfolding a concrete table.\<close>

lemmas table_fits_small =
  table_fits_def block_entry_fits_def stored_value_def table_bytes_def table_data_def table_index_def
  table_blocks_def block_full_def enc_block_def enc_meta_def enc_index_def enc_filter_def enc_index_entry_def
  length_enc_entry table_meta_def SSTableMetadata_def

section \<open>Properties\<close>

text \<open>
  A table written by the block-based format answers every lookup from the file it wrote as the
  sorted entries would: the stored entry of the key (a tombstone without its value), or nothing.
  This covers the cut into data blocks, the index, the search over it and the decoding of one block.
\<close>

theorem bb_write_then_get:
  assumes "healthy w" and "table_fits (it_items it)" and "sorted_keys e_key (it_items it)"
  shows "\<exists>r w'. bb_writeTable p it ts fn w = (Inr r, w') \<and>
    (\<forall>k. block_reader_get k r w' = Inr (map_option stored_entry (find_key e_key k (it_items it))))"
  using bb_writeTable_ok [OF assms(1,2), of p ts fn] block_reader_get_ok [OF _ _ assms(2,3)]
    evolves_healthy assms(1) by metis

theorem bb_write_then_get_witness:
  "\<exists>r w'. bb_writeTable ''d/t'' (Table_it (sstable_NewIterator (SSTable (SSTableMetadata 1 2 ''a'' ''b'')
        [Entry ''a'' ''1'' False, Entry ''b'' ''2'' True]))) 7 9 fresh_world = (Inr r, w') \<and>
    block_reader_get ''b'' r w' = Inr (Some (Entry ''b'' [] True))"
proof -
  let ?es = "[Entry ''a'' ''1'' False, Entry ''b'' ''2'' True]"
  let ?it = "Table_it (sstable_NewIterator (SSTable (SSTableMetadata 1 2 ''a'' ''b'') ?es))"
  have s: "sorted_keys e_key ?es" by (simp add: less_char_def)
  then have items: "it_items ?it = ?es"
    by (simp add: table_iter_items_def sstable_NewIterator_def SSTable_def std_sort_sorted)
  have "table_fits ?es" by (simp add: table_fits_small)
  then show ?thesis
    using bb_write_then_get [of fresh_world ?it "''d/t''" 7 9] s unfolding items
    by (auto simp: stored_entry_def stored_value_def)
qed

text \<open>
  Opening the file of a written table gives the reader \<open>writeTable\<close> returned: footer, metadata,
  index and filter survive the round trip.
\<close>

theorem bb_open_after_write:
  assumes "healthy w" and "table_fits (it_items it)"
  shows "\<exists>r w'. bb_writeTable p it ts fn w = (Inr r, w') \<and> bb_openTable p w' = Inr r \<and>
    br_meta r = SSTableMetadata fn ts (e_key (hd (it_items it))) (e_key (last (it_items it)))"
proof -
  obtain w' where w': "bb_writeTable p it ts fn w = (Inr (table_reader_of p (it_items it) ts fn), w')" "healthy w'"
      "content w' p = Some (table_bytes (it_items it) ts fn)"
    using bb_writeTable_ok [OF assms, of p ts fn] evolves_healthy assms(1) by metis
  moreover have "bb_openTable p w' = Inr (table_reader_of p (it_items it) ts fn)"
    unfolding bb_openTable_def using w' assms(2) by (intro BlockBasedTableReader_ok)
  ultimately show ?thesis by (auto simp: table_reader_of_def table_meta_def)
qed

theorem bb_open_after_write_witness:
  "\<exists>r w'. bb_writeTable ''t'' (Table_it (sstable_NewIterator (SSTable (SSTableMetadata 1 2 ''a'' ''a'')
        [Entry ''a'' ''1'' False]))) 7 9 fresh_world = (Inr r, w') \<and> bb_openTable ''t'' w' = Inr r"
proof -
  let ?es = "[Entry ''a'' ''1'' False]"
  let ?it = "Table_it (sstable_NewIterator (SSTable (SSTableMetadata 1 2 ''a'' ''a'') ?es))"
  have items: "it_items ?it = ?es"
    by (simp add: table_iter_items_def sstable_NewIterator_def SSTable_def std_sort_def)
  have "table_fits ?es" by (simp add: table_fits_small)
  then show ?thesis
    using bb_open_after_write [of fresh_world ?it "''t''" 7 9] unfolding items by auto
qed

text \<open>
  C22: the Bloom filter a written table carries has no false negative: every key of the table passes
  the filter the reader loads.
\<close>

theorem bb_filter_no_false_negative:
  assumes "healthy w" and "table_fits (it_items it)" and "k \<in> e_key ` set (it_items it)"
  shows "\<exists>r w'. bb_writeTable p it ts fn w = (Inr r, w') \<and> filter_may_contain (fb_bitset (br_filter r)) k"
  using bb_writeTable_ok [OF assms(1,2), of p ts fn] table_filter_contains [OF assms(3)]
  by (auto simp: table_reader_of_def)

theorem bb_filter_no_false_negative_witness:
  "\<exists>r w'. bb_writeTable ''t'' (Table_it (sstable_NewIterator (SSTable (SSTableMetadata 1 2 ''a'' ''a'')
        [Entry ''a'' ''1'' False]))) 7 9 fresh_world = (Inr r, w') \<and> filter_may_contain (fb_bitset (br_filter r)) ''a''"
proof -
  let ?es = "[Entry ''a'' ''1'' False]"
  let ?it = "Table_it (sstable_NewIterator (SSTable (SSTableMetadata 1 2 ''a'' ''a'') ?es))"
  have items: "it_items ?it = ?es"
    by (simp add: table_iter_items_def sstable_NewIterator_def SSTable_def std_sort_def)
  have "table_fits ?es" by (simp add: table_fits_small)
  then show ?thesis
    using bb_filter_no_false_negative [of fresh_world ?it "''a''" "''t''" 7 9] unfolding items by auto
qed

text \<open>
  An empty source is refused, after the file has been created: \<open>writeTable\<close> throws and leaves an
  empty file behind, which the reader then rejects as too small.
\<close>

theorem bb_write_empty_throws:
  assumes "healthy w" and "it_items it = []"
  shows "\<exists>w'. bb_writeTable p it ts fn w =
      (Inl (Runtime_error ''BlockBasedTableFormat::writeTable(): cannot write empty table''), w') \<and>
    content w' p = Some [] \<and> bb_openTable p w' = Inl (reader_error ''file too small for footer'' p)"
  by (rule bb_writeTable_empty [OF assms])

theorem bb_write_empty_throws_witness:
  "\<exists>w'. bb_writeTable ''d/t'' (Skip_it (skip_list_NewIterator skip_list_empty)) 7 9 fresh_world =
      (Inl (Runtime_error ''BlockBasedTableFormat::writeTable(): cannot write empty table''), w') \<and> content w' ''d/t'' = Some []"
  using bb_write_empty_throws [of fresh_world "Skip_it (skip_list_NewIterator skip_list_empty)" "''d/t''" 7 9]
  by (auto simp: skip_list_empty_def)

text \<open>
  C23: the index of a written table.  Its entries describe, in order, a cut of the entries into
  consecutive non-empty blocks: the last key of each block, and the offset and size at which the file
  holds the bytes of the block.  The cut is the greedy one: a block was closed only when it had ten
  entries or more and the next entry would have taken its data over \<open>DATA_BLOCK_MAX_SIZE\<close>, and no
  block goes on beyond such a point.  So up to ten entries share a block however long they are.
\<close>

theorem bb_index_describes_blocks:
  assumes "healthy w" and "table_fits (it_items it)"
  shows "\<exists>r w' d bs. bb_writeTable p it ts fn w = (Inr r, w') \<and> content w' p = Some d \<and>
    concat bs = it_items it \<and> [] \<notin> set bs \<and> length (br_index r) = length bs \<and>
    (\<forall>i < length bs. ie_last_key (br_index r ! i) = e_key (last (bs ! i)) \<and>
      take (unat (bh_size (ie_block (br_index r ! i)))) (drop (unat (bh_offset (ie_block (br_index r ! i)))) d) = enc_block (bs ! i)) \<and>
    (\<forall>i. Suc i < length bs \<longrightarrow> 10 \<le> length (bs ! i) \<and>
      DATA_BLOCK_MAX_SIZE < length (concat (map enc_entry (bs ! i @ [hd (bs ! Suc i)])))) \<and>
    (\<forall>b \<in> set bs. \<forall>j < length b. 10 \<le> j \<longrightarrow> length (concat (map enc_entry (take (Suc j) b))) \<le> DATA_BLOCK_MAX_SIZE)"
proof -
  let ?es = "it_items it"
  let ?bs = "table_blocks ?es" and ?d = "table_bytes ?es ts fn"
  obtain w' where w': "bb_writeTable p it ts fn w = (Inr (table_reader_of p ?es ts fn), w')" "content w' p = Some ?d"
    using bb_writeTable_ok [OF assms, of p ts fn] by blast
  have ne: "?es \<noteq> []" using assms(2) by (simp add: table_fits_def)
  show ?thesis
    using w' table_blocks_concat(1,2) [OF ne] table_index_nth [of _ ?es] table_block_bytes [OF assms(2)]
      table_blocks_cut [OF ne] table_blocks_greedy [of _ ?es]
    by (intro exI [of _ "table_reader_of p ?es ts fn"] exI [of _ w'] exI [of _ ?d] exI [of _ ?bs])
      (simp add: table_reader_of_def table_index_def)
qed

text \<open>Twelve entries of some five hundred bytes: the first block is closed at ten.\<close>

theorem bb_index_describes_blocks_witness:
  "\<exists>r w' d bs. bb_writeTable ''t'' (Table_it (sstable_NewIterator (SSTable (SSTableMetadata 1 2 ''a'' ''l'')
        (map (\<lambda>c. Entry [c] (replicate 500 c) False) ''abcdefghijkl'')))) 7 9 fresh_world = (Inr r, w') \<and>
    content w' ''t'' = Some d \<and> length (hd bs) = 10 \<and> length (br_index r) = length bs \<and> 2 \<le> length bs \<and>
    take (unat (bh_size (ie_block (br_index r ! 1)))) (drop (unat (bh_offset (ie_block (br_index r ! 1)))) d) = enc_block (bs ! 1)"
proof -
  let ?es = "map (\<lambda>c. Entry [c] (replicate 500 c) False) ''abcdefghijkl''"
  let ?it = "Table_it (sstable_NewIterator (SSTable (SSTableMetadata 1 2 ''a'' ''l'') ?es))"
  have items: "it_items ?it = ?es"
    by (simp add: table_iter_items_def sstable_NewIterator_def SSTable_def std_sort_def)
  have "\<forall>e \<in> set ?es. entry_small e" by (simp add: entry_small_def)
  then have fits: "table_fits ?es" by (intro table_fits_bound) simp_all
  obtain r w' d bs where r: "bb_writeTable ''t'' ?it 7 9 fresh_world = (Inr r, w')" "content w' ''t'' = Some d"
      "concat bs = ?es" "[] \<notin> set bs" "length (br_index r) = length bs"
      "\<And>i. i < length bs \<Longrightarrow>
        take (unat (bh_size (ie_block (br_index r ! i)))) (drop (unat (bh_offset (ie_block (br_index r ! i)))) d) = enc_block (bs ! i)"
      "\<And>i. Suc i < length bs \<Longrightarrow> 10 \<le> length (bs ! i)"
      "\<And>b j. b \<in> set bs \<Longrightarrow> j < length b \<Longrightarrow> 10 \<le> j \<Longrightarrow> length (concat (map enc_entry (take (Suc j) b))) \<le> DATA_BLOCK_MAX_SIZE"
    using bb_index_describes_blocks [of fresh_world ?it "''t''" 7 9] fits unfolding items by auto
  have "length b \<le> 10" if b: "b \<in> set bs" for b
  proof (rule ccontr)
    assume "\<not> length b \<le> 10"
    moreover have "\<forall>e \<in> set ?es. length (enc_entry e) = 510" by (simp add: length_enc_entry stored_value_def)
    then have "\<forall>e \<in> set b. length (enc_entry e) = 510" unfolding r(3) [symmetric] using b by auto
    then have "\<forall>e \<in> set (take 11 b). length (enc_entry e) = 510" using set_take_subset [of 11 b] by blast
    then have "length (concat (map enc_entry (take 11 b))) = length (take 11 b) * 510"
      by (simp add: length_concat comp_def sum_list_triv cong: map_cong)
    ultimately show False using r(8) [OF b, of 10] by (simp add: DATA_BLOCK_MAX_SIZE_def)
  qed
  note most = this
  obtain b bs' where bs: "bs = b # bs'" using r(3) by (cases bs) auto
  have "length (concat bs) = 12" unfolding r(3) by simp
  then have "bs' \<noteq> []" using bs most [of b] by auto
  then have "2 \<le> length bs" "length b = 10" using bs r(7) [of 0] most [of b] by (cases bs', auto)+
  moreover have "take (unat (bh_size (ie_block (br_index r ! 1)))) (drop (unat (bh_offset (ie_block (br_index r ! 1)))) d) = enc_block (bs ! 1)"
    using r(6) [of 1] \<open>2 \<le> length bs\<close> by simp
  moreover have "length (hd bs) = 10" using \<open>length b = 10\<close> bs by simp
  ultimately show ?thesis using r(1,2,5) by blast
qed

end
