(* ===== verification/Table_Format.thy ===== *)
theory Table_Format
  imports SSTable_File Block_Reader
begin

text \<open>
  The interfaces \<open>TableFormat\<close> and \<open>TableReader\<close> (\<open>table_format.h\<close>, \<open>table_reader.h\<close>), their two
  implementations and the dispatch between them.  The contract the level manager relies on is the
  locale \<open>table_store\<close>: a table that was written serves, and after reopening still serves, exactly
  the entries it was given.
\<close>

section \<open>The in-memory format\<close>

definition im_openTable :: "path \<Rightarrow> world \<Rightarrow> exn + sstable" where
  "im_openTable fullPath w = sstable_read fullPath w"

definition im_writeTable :: "path \<Rightarrow> kv_iterator \<Rightarrow> u64 \<Rightarrow> u64 \<Rightarrow> (world, sstable) sx" where
  "im_writeTable fullPath it timestamp fileNum =
     (let materializedEntries = materialize (it_SeekToFirst it) []
      in sx_bind (sstable_write fullPath materializedEntries timestamp fileNum) (\<lambda>(metadata, es).
           sx_return (SSTable metadata es)))"

section \<open>Dispatch\<close>

datatype TableFormatKind = InMemory | BlockBased

datatype table_reader = InMemoryTableReader sstable | BlockTableReader block_reader

fun reader_meta :: "table_reader \<Rightarrow> sstable_metadata" where
  "reader_meta (InMemoryTableReader t) = m_meta t"
| "reader_meta (BlockTableReader r) = br_meta r"

fun reader_withinRange :: "string \<Rightarrow> table_reader \<Rightarrow> exn + bool" where
  "reader_withinRange k (InMemoryTableReader t) = sstable_withinRange k t"
| "reader_withinRange k (BlockTableReader r) = Inr (block_reader_withinRange k r)"

fun reader_get :: "string \<Rightarrow> table_reader \<Rightarrow> world \<Rightarrow> exn + entry option" where
  "reader_get k (InMemoryTableReader t) w = sstable_get k t"
| "reader_get k (BlockTableReader r) w = block_reader_get k r w"

fun reader_NewIterator :: "table_reader \<Rightarrow> exn + kv_iterator" where
  "reader_NewIterator (InMemoryTableReader t) = Inr (Table_it (sstable_NewIterator t))"
| "reader_NewIterator (BlockTableReader r) = block_reader_NewIterator r"

fun reader_getSize :: "table_reader \<Rightarrow> nat" where
  "reader_getSize (InMemoryTableReader t) = sstable_getSize t"
| "reader_getSize (BlockTableReader r) = block_reader_getSize r"

fun openTable :: "TableFormatKind \<Rightarrow> path \<Rightarrow> world \<Rightarrow> exn + table_reader" where
  "openTable InMemory p w = rbind (im_openTable p w) (\<lambda>t. Inr (InMemoryTableReader t))"
| "openTable BlockBased p w = rbind (bb_openTable p w) (\<lambda>r. Inr (BlockTableReader r))"

fun writeTable :: "TableFormatKind \<Rightarrow> path \<Rightarrow> kv_iterator \<Rightarrow> u64 \<Rightarrow> u64 \<Rightarrow> (world, table_reader) sx" where
  "writeTable InMemory p it ts fn = sx_bind (im_writeTable p it ts fn) (\<lambda>t. sx_return (InMemoryTableReader t))"
| "writeTable BlockBased p it ts fn = sx_bind (bb_writeTable p it ts fn) (\<lambda>r. sx_return (BlockTableReader r))"

section \<open>The contract\<close>

locale table_store =
  fixes write_table :: "path \<Rightarrow> kv_iterator \<Rightarrow> u64 \<Rightarrow> u64 \<Rightarrow> (world, 'r) sx"
    and open_table :: "path \<Rightarrow> world \<Rightarrow> exn + 'r"
    and lookup :: "string \<Rightarrow> 'r \<Rightarrow> world \<Rightarrow> exn + entry option"
    and in_range :: "string \<Rightarrow> 'r \<Rightarrow> exn + bool"
    and fits :: "entry list \<Rightarrow> bool"
    and stored :: "entry \<Rightarrow> entry"
    and serves :: "'r \<Rightarrow> path \<Rightarrow> entry list \<Rightarrow> world \<Rightarrow> bool"
  assumes write_serves: "healthy w \<Longrightarrow> fits (it_items it) \<Longrightarrow> sorted_keys e_key (it_items it) \<Longrightarrow>
      \<exists>r w'. write_table p it ts fn w = (Inr r, w') \<and> evolves p w w' \<and> serves r p (it_items it) w'"
    and open_serves: "healthy w \<Longrightarrow> serves r p es w \<Longrightarrow> open_table p w = Inr r"
    and lookup_serves: "healthy w \<Longrightarrow> serves r p es w \<Longrightarrow> lookup k r w = Inr (map_option stored (find_key e_key k es))"
    and range_serves: "serves r p es w \<Longrightarrow> \<exists>b. in_range k r = Inr b \<and> (k \<in> e_key ` set es \<longrightarrow> b)"
    and serves_stable: "serves r p es w \<Longrightarrow> content w' p = content w p \<Longrightarrow> host_order w' = host_order w \<Longrightarrow> serves r p es w'"
    and stored_key: "e_key (stored e) = e_key e"
    and stored_tombstone: "e_tombstone (stored e) = e_tombstone e"
    and stored_value: "\<not> e_tombstone e \<Longrightarrow> e_val (stored e) = e_val e"
begin

lemma serves_evolves:
  assumes "serves r p es w" and "evolves q w w'" and "p \<noteq> q"
  shows "serves r p es w'"
  using assms serves_stable [OF assms(1)] by (simp add: evolves_def)

text \<open>The two calls a level manager makes for one table, together.\<close>

lemma probe_serves:
  assumes "healthy w" and "serves r p es w"
  shows "rbind (in_range k r) (\<lambda>b. if \<not> b then Inr None else lookup k r w) =
    Inr (map_option stored (find_key e_key k es))"
proof -
  obtain b where b: "in_range k r = Inr b" "k \<in> e_key ` set es \<longrightarrow> b"
    using range_serves [OF assms(2)] by blast
  show ?thesis
    using b lookup_serves [OF assms] find_key_None_iff [of e_key k es] by (cases b) auto
qed

text \<open>A table that was written, reopened: the same reader, with the same answers.\<close>

lemma write_open_lookup:
  assumes "healthy w" and "fits (it_items it)" and "sorted_keys e_key (it_items it)"
  shows "\<exists>r w'. write_table p it ts fn w = (Inr r, w') \<and> open_table p w' = Inr r \<and>
    (\<forall>k. lookup k r w' = Inr (map_option stored (find_key e_key k (it_items it))))"
  using write_serves [OF assms, of p ts fn] open_serves lookup_serves evolves_healthy assms(1) by metis

end

section \<open>Both formats meet it\<close>

fun table_serves :: "TableFormatKind \<Rightarrow> table_reader \<Rightarrow> path \<Rightarrow> entry list \<Rightarrow> world \<Rightarrow> bool" where
  "table_serves InMemory r p es w \<longleftrightarrow>
     sorted_keys e_key es \<and> es \<noteq> [] \<and> length es < 2 ^ 31 \<and> (\<forall>e \<in> set es. entry_fits e) \<and>
     (\<exists>ts fn. r = InMemoryTableReader (SSTable (SSTableMetadata fn ts (e_key (hd es)) (e_key (last es))) es) \<and>
       content w p = Some (serializeTable (host_order w) es ts fn))"
| "table_serves BlockBased r p es w \<longleftrightarrow>
     sorted_keys e_key es \<and> table_fits es \<and>
     (\<exists>ts fn. r = BlockTableReader (table_reader_of p es ts fn) \<and> content w p = Some (table_bytes es ts fn))"

lemma table_serves_InMemoryI:
  assumes "r = InMemoryTableReader (SSTable (SSTableMetadata fn ts (e_key (hd es)) (e_key (last es))) es)"
    and "content w p = Some (serializeTable (host_order w) es ts fn)"
    and "sorted_keys e_key es" and "es \<noteq> []" and "length es < 2 ^ 31" and "\<forall>e \<in> set es. entry_fits e"
  shows "table_serves InMemory r p es w"
  using assms by auto

fun format_fits :: "TableFormatKind \<Rightarrow> entry list \<Rightarrow> bool" where
  "format_fits InMemory es \<longleftrightarrow> es \<noteq> [] \<and> length es < 2 ^ 31 \<and> (\<forall>e \<in> set es. entry_fits e)"
| "format_fits BlockBased es \<longleftrightarrow> table_fits es"

fun format_stored :: "TableFormatKind \<Rightarrow> entry \<Rightarrow> entry" where
  "format_stored InMemory e = e"
| "format_stored BlockBased e = stored_entry e"

lemma format_stored_eq: "format_stored InMemory = (\<lambda>e. e)" "format_stored BlockBased = stored_entry"
  by (simp_all add: fun_eq_iff)

lemma im_writeTable_ok:
  assumes "healthy w" and "format_fits InMemory (it_items it)" and "sorted_keys e_key (it_items it)"
  shows "\<exists>r w'. writeTable InMemory p it ts fn w = (Inr r, w') \<and> evolves p w w' \<and> table_serves InMemory r p (it_items it) w'"
proof -
  let ?es = "it_items it"
  let ?w = "set_file p (serializeTable (host_order w) ?es ts fn) (mkdir_all (parent_path p) w)"
  have "sstable_write p ?es ts fn w = (Inr (SSTableMetadata fn ts (e_key (hd ?es)) (e_key (last ?es)), ?es), ?w)"
    using assms sstable_write_accepted [of w p ?es ts fn]
    by (simp add: std_sort_sorted healthy_def accepted_def)
  then have "writeTable InMemory p it ts fn w =
      (Inr (InMemoryTableReader (SSTable (SSTableMetadata fn ts (e_key (hd ?es)) (e_key (last ?es))) ?es)), ?w)"
    by (simp add: im_writeTable_def sx_simps)
  moreover have "evolves p w ?w"
    using assms(1) by (intro evolves_set_file evolves_mkdir)
  ultimately show ?thesis using assms by auto
qed

interpretation tf: table_store "writeTable fmt" "openTable fmt" reader_get reader_withinRange
    "format_fits fmt" "format_stored fmt" "table_serves fmt" for fmt
proof (unfold_locales, goal_cases)
  case (1 w it p ts fn)
  then show ?case
  proof (cases fmt)
    case BlockBased
    then show ?thesis
      using 1 bb_writeTable_ok [of w it p ts fn] by (auto simp: sx_simps) blast
  qed (use 1 im_writeTable_ok in auto)
next
  case (2 w r p es)
  then show ?case
    by (cases fmt) (auto simp: im_openTable_def bb_openTable_def sstable_read_serialized BlockBasedTableReader_ok)
next
  case (3 w r p es k)
  then show ?case
    by (cases fmt) (auto simp: sstable_get_ok sstable_ok_new block_reader_get_ok format_stored_eq option.map_ident)
next
  case (4 r p es w k)
  then show ?case
  proof (cases fmt)
    case InMemory
    with 4 obtain meta where r: "r = InMemoryTableReader (SSTable meta es)" and s: "sorted_keys e_key es" "es \<noteq> []"
      by auto
    then show ?thesis
      using sorted_keys_bounds [OF s(1)] sstable_withinRange_ok [of "SSTable meta es" k]
      by (auto simp: SSTable_def std_sort_sorted)
  next
    case BlockBased
    with 4 show ?thesis
      using sorted_keys_bounds [of e_key es]
      by (auto simp: block_reader_withinRange_def table_reader_of_def table_meta_def SSTableMetadata_def)
  qed
next
  case (5 r p es w w')
  then show ?case by (cases fmt) auto
next
  case (6 e)
  then show ?case by (cases fmt) simp_all
next
  case (7 e)
  then show ?case by (cases fmt) (simp_all add: stored_entry_def)
next
  case (8 e)
  then show ?case by (cases fmt) (simp_all add: stored_entry_def stored_value_def)
qed

lemma writeTable_empty:
  assumes "healthy w" and "it_items it = []"
  shows "\<exists>msg w'. writeTable fmt p it ts fn w = (Inl (Runtime_error msg), w')"
proof (cases fmt)
  case InMemory
  then show ?thesis using assms by (simp add: im_writeTable_def sstable_write_def sx_bind_def)
next
  case BlockBased
  then show ?thesis using bb_writeTable_empty [OF assms, of p ts fn] by (auto simp: sx_simps)
qed

section \<open>Property\<close>

text \<open>
  C6: whichever format is configured, a table that was written can be opened again as the same
  reader, and it answers every lookup with the entry of the key, or with nothing.
\<close>

theorem table_write_open_lookup:
  assumes "healthy w" and "format_fits fmt (it_items it)" and "sorted_keys e_key (it_items it)"
  shows "\<exists>r w'. writeTable fmt p it ts fn w = (Inr r, w') \<and> openTable fmt p w' = Inr r \<and>
    (\<forall>k. reader_get k r w' = Inr (map_option (format_stored fmt) (find_key e_key k (it_items it))))"
  by (rule tf.write_open_lookup [OF assms])

theorem table_write_open_lookup_witness:
  "\<exists>r w'. writeTable InMemory ''d/t'' (Skip_it (skip_list_NewIterator (snd (skip_list_set (Entry ''k'' ''v'' False) skip_list_empty))))
      7 9 fresh_world = (Inr r, w') \<and> openTable InMemory ''d/t'' w' = Inr r \<and>
    reader_get ''k'' r w' = Inr (Some (Entry ''k'' ''v'' False))"
  using table_write_open_lookup [of fresh_world InMemory
      "Skip_it (skip_list_NewIterator (snd (skip_list_set (Entry ''k'' ''v'' False) skip_list_empty)))" "''d/t''" 7 9]
  by (auto simp: skip_list_set_def skip_list_empty_def entry_fits_def)

end
