(* ===== verification/Decimal.thy ===== *)
theory Decimal
  imports Prelude
begin

text \<open>
  Decimal numerals: \<open>std::to_string\<close> on unsigned integers, \<open>std::isdigit\<close>, and \<open>std::stoull\<close> on a
  string of digits.
\<close>

definition digit_char :: "nat \<Rightarrow> char" where
  "digit_char d = char_of (48 + d)"

fun to_string :: "nat \<Rightarrow> string" where
  "to_string n = (if n < 10 then [digit_char n] else to_string (n div 10) @ [digit_char (n mod 10)])"

declare to_string.simps [simp del]

definition isdigit :: "char \<Rightarrow> bool" where
  "isdigit c \<longleftrightarrow> 48 \<le> (of_char c :: nat) \<and> (of_char c :: nat) \<le> 57"

definition digit_value :: "char \<Rightarrow> nat" where
  "digit_value c = of_char c - 48"

definition decimal_value :: "string \<Rightarrow> nat" where
  "decimal_value s = foldl (\<lambda>n c. 10 * n + digit_value c) 0 s"

text \<open>\<open>std::stoull\<close> on a non-empty string of digits: \<open>std::out_of_range\<close> above \<open>2 ^ 64 - 1\<close>.\<close>

definition stoull :: "string \<Rightarrow> exn + u64" where
  "stoull s =
     (if decimal_value s < 2 ^ 64 then Inr (of_nat (decimal_value s))
      else Inl (Out_of_range ''stoull''))"

lemma of_char_digit_char: "d < 10 \<Longrightarrow> (of_char (digit_char d) :: nat) = 48 + d"
  by (simp add: digit_char_def)

lemma isdigit_digit_char [simp]: "d < 10 \<Longrightarrow> isdigit (digit_char d)"
  by (simp add: isdigit_def of_char_digit_char)

lemma digit_value_digit_char [simp]: "d < 10 \<Longrightarrow> digit_value (digit_char d) = d"
  by (simp add: digit_value_def of_char_digit_char)

lemma to_string_digits: "\<forall>c \<in> set (to_string n). isdigit c"
  by (induction n rule: to_string.induct) (subst to_string.simps, auto)

lemma to_string_not_Nil [simp]: "to_string n \<noteq> []"
  by (subst to_string.simps) simp

lemma decimal_value_snoc: "decimal_value (s @ [c]) = 10 * decimal_value s + digit_value c"
  by (simp add: decimal_value_def)

lemma decimal_value_to_string [simp]: "decimal_value (to_string n) = n"
proof (induction n rule: to_string.induct)
  case (1 n)
  show ?case
  proof (cases "n < 10")
    case True
    then show ?thesis by (subst to_string.simps) (simp add: decimal_value_def)
  next
    case False
    with 1 show ?thesis by (subst to_string.simps) (simp add: decimal_value_snoc)
  qed
qed

lemma to_string_inject [simp]: "to_string m = to_string n \<longleftrightarrow> m = n"
  by (metis decimal_value_to_string)

lemma stoull_to_string: "n < 2 ^ 64 \<Longrightarrow> stoull (to_string n) = Inr (of_nat n)"
  by (simp add: stoull_def)

lemma not_isdigit_simps [simp]:
  "\<not> isdigit (CHR ''/'')" "\<not> isdigit (CHR '':'')" "\<not> isdigit (CHR '' '')" "\<not> isdigit (CHR 0x0A)"
  by (simp_all add: isdigit_def)

lemma slash_not_in_to_string [simp]: "CHR ''/'' \<notin> set (to_string n)"
  using to_string_digits [of n] by fastforce

end
