(* ===== verification/Level_Manager.thy ===== *)
theory Level_Manager
  imports Table_Format Decimal
begin

text \<open>
  \<open>LevelManagerImpl\<close> (\<open>src/core/level_manager\<close>) and the file-number allocator of
  \<open>src/contexts/system_context.h\<close>.  A level keeps the readers of its tables, the newest first; a
  lookup asks them in that order and stops at the first entry it finds.
\<close>

section \<open>State and operations\<close>

text \<open>\<open>FileNumberAllocator\<close>: an atomic 64-bit counter.\<close>

definition file_number_next :: "u64 \<Rightarrow> u64 \<times> u64" where
  "file_number_next c = (c, c + 1)"

definition file_number_restore :: "u64 \<Rightarrow> u64 \<Rightarrow> u64" where
  "file_number_restore max_file_num_on_disk c = max_file_num_on_disk"

record level_manager =
  lm_levelNum :: int
  lm_directoryPath :: path
  lm_allowOverlap :: bool
  lm_tableReaders :: "table_reader list"

definition LevelManagerImpl :: "int \<Rightarrow> path \<Rightarrow> level_manager" where
  "LevelManagerImpl n dir =
     \<lparr>lm_levelNum = n, lm_directoryPath = dir, lm_allowOverlap = (n = 0), lm_tableReaders = []\<rparr>"

definition level_getLevel :: "level_manager \<Rightarrow> int" where
  "level_getLevel lm = lm_levelNum lm"

definition generateSSTableFileName :: "world \<Rightarrow> path \<times> world" where
  "generateSSTableFileName w =
     (let (ns, w1) = read_clock w;
          uniqueId = push_bit 16 ns XOR name_counter w1
      in (''table-'' @ to_string (unat uniqueId), w1\<lparr>name_counter := name_counter w1 + 1\<rparr>))"

text \<open>The clock reading in milliseconds.\<close>

definition getTimeNow :: "world \<Rightarrow> u64 \<times> world" where
  "getTimeNow w = (let (ns, w1) = read_clock w in (ns div 1000000, w1))"

text \<open>The loop of \<open>getKey\<close> over the readers.\<close>

fun level_search :: "string \<Rightarrow> table_reader list \<Rightarrow> world \<Rightarrow> exn + entry option" where
  "level_search key [] w = Inr None"
| "level_search key (r # rs) w =
     rbind (reader_withinRange key r) (\<lambda>within.
       if \<not> within then level_search key rs w
       else
         rbind (reader_get key r w) (\<lambda>found.
           case found of
             None \<Rightarrow> level_search key rs w
           | Some e \<Rightarrow> if e_tombstone e then Inr None else Inr (Some e)))"

definition level_getKey :: "string \<Rightarrow> level_manager \<Rightarrow> world \<Rightarrow> exn + entry option" where
  "level_getKey key lm w = level_search key (lm_tableReaders lm) w"

text \<open>
  \<open>createTable\<close> changes the level, the allocator and the files; its state is all three.
\<close>

type_synonym level_state = "level_manager \<times> u64 \<times> world"

definition level_createTable :: "TableFormatKind \<Rightarrow> kv_iterator \<Rightarrow> (level_state, status) sx" where
  "level_createTable fmt it s =
     (case s of (lm, next_file, w) \<Rightarrow>
        let (name, w1) = generateSSTableFileName w;
            full_path = lm_directoryPath lm @ ''/'' @ name;
            (timestamp, w2) = getTimeNow w1;
            (file_num, next_file') = file_number_next next_file
        in case writeTable fmt full_path it timestamp file_num w2 of
             (Inl ex, w3) \<Rightarrow> (Inl ex, (lm, next_file', w3))
           | (Inr r, w3) \<Rightarrow>
               (Inr Status_OK, (lm\<lparr>lm_tableReaders := r # lm_tableReaders lm\<rparr>, next_file', w3)))"

text \<open>The loop of \<open>initNew\<close> over the files of the directory, which only reads.\<close>

fun level_load :: "TableFormatKind \<Rightarrow> path list \<Rightarrow> world \<Rightarrow> table_reader list \<Rightarrow> exn + table_reader list" where
  "level_load fmt [] w rs = Inr rs"
| "level_load fmt (p # ps) w rs = rbind (openTable fmt p w) (\<lambda>r. level_load fmt ps w (rs @ [r]))"

definition level_initNew :: "TableFormatKind \<Rightarrow> level_manager \<Rightarrow> world \<Rightarrow> exn + status \<times> level_manager" where
  "level_initNew fmt lm w =
     rbind (list_files (lm_directoryPath lm) w) (\<lambda>ps.
     rbind (level_load fmt ps w (lm_tableReaders lm)) (\<lambda>rs.
       Inr (Status_OK, lm\<lparr>lm_tableReaders := rs\<rparr>)))"

text \<open>\<open>compactInto\<close> is a stub: both levels stay as they are.\<close>

definition level_compactInto :: "level_manager \<Rightarrow> level_manager \<Rightarrow> status \<times> level_manager \<times> level_manager" where
  "level_compactInto lm other = (Status_OK, lm, other)"

section \<open>File names\<close>

text \<open>
  The low 16 bits of the identifier are those of the counter, whatever the clock shows: two tables
  created by one process get different names until the counter has passed \<open>2 ^ 16\<close>.
\<close>

definition table_name_with :: "nat \<Rightarrow> path \<Rightarrow> bool" where
  "table_name_with n name \<longleftrightarrow>
     (\<exists>i :: u64. name = ''table-'' @ to_string (unat i) \<and> take_bit 16 i = take_bit 16 (of_nat n))"

lemma generateSSTableFileName_name:
  assumes "name_counter w = of_nat n"
  shows "table_name_with n (fst (generateSSTableFileName w))"
proof -
  let ?i = "push_bit 16 (clock w (ticks w)) XOR name_counter w"
  have "take_bit 16 ?i = take_bit 16 (of_nat n)"
    using assms by (simp add: take_bit_xor take_bit_push_bit)
  then show ?thesis
    by (auto simp: table_name_with_def generateSSTableFileName_def read_clock_def)
qed

lemma table_name_distinct:
  assumes "table_name_with m a" and "table_name_with n b" and "m \<noteq> n" and "m < 2 ^ 16" and "n < 2 ^ 16"
  shows "a \<noteq> b"
proof
  assume "a = b"
  then have "take_bit 16 (of_nat m :: u64) = take_bit 16 (of_nat n)"
    using assms(1,2) by (auto simp: table_name_with_def simp flip: word_unat_eq_iff)
  moreover have "take_bit 16 (of_nat k :: u64) = of_nat k" if "k < 2 ^ 16" for k
    using that by (simp add: take_bit_of_nat take_bit_nat_eq_self)
  ultimately have "unat (of_nat m :: u64) = unat (of_nat n :: u64)" using assms(4,5) by simp
  then show False using assms(3-5) by (simp add: unat_of_nat)
qed

lemma table_name_no_slash: "table_name_with n name \<Longrightarrow> CHR ''/'' \<notin> set name"
  by (auto simp: table_name_with_def)

lemma generateSSTableFileName_world:
  "snd (generateSSTableFileName w) = w\<lparr>ticks := Suc (ticks w), name_counter := name_counter w + 1\<rparr>"
  by (simp add: generateSSTableFileName_def read_clock_def)

section \<open>Lookups\<close>

text \<open>
  The specification of a level: its tables, newest first, each a list of entries.  A key is answered
  by the newest table that holds it, and a tombstone there hides the older ones.
\<close>

fun newest :: "string \<Rightarrow> entry list list \<Rightarrow> entry option" where
  "newest k [] = None"
| "newest k (es # ts) = (case find_key e_key k es of None \<Rightarrow> newest k ts | Some e \<Rightarrow> Some e)"

definition live :: "entry option \<Rightarrow> entry option" where
  "live x = (case x of None \<Rightarrow> None | Some e \<Rightarrow> if e_tombstone e then None else Some e)"

lemma live_simps [simp]: "live None = None" "live (Some e) = (if e_tombstone e then None else Some e)"
  by (simp_all add: live_def)

definition level_serves :: "TableFormatKind \<Rightarrow> level_manager \<Rightarrow> (path \<times> entry list) list \<Rightarrow> world \<Rightarrow> bool" where
  "level_serves fmt lm ts w \<longleftrightarrow>
     list_all2 (\<lambda>r (p, es). table_serves fmt r p es w) (lm_tableReaders lm) ts"

lemma level_search_correct:
  assumes "healthy w" and "list_all2 (\<lambda>r (p, es). table_serves fmt r p es w) rs ts"
  shows "level_search k rs w = Inr (map_option (format_stored fmt) (live (newest k (map snd ts))))"
  using assms(2)
proof (induction rs ts rule: list_all2_induct)
  case Nil
  then show ?case by simp
next
  case (Cons r rs t ts)
  obtain p es where t: "t = (p, es)" by (cases t)
  with Cons have sv: "table_serves fmt r p es w" by simp
  obtain b where b: "reader_withinRange k r = Inr b" "k \<in> e_key ` set es \<longrightarrow> b"
    using tf.range_serves [OF sv] by blast
  show ?case
  proof (cases "find_key e_key k es")
    case None
    then show ?thesis
      using Cons.IH b(1) tf.lookup_serves [OF assms(1) sv, of k] t by (cases b) simp_all
  next
    case (Some e)
    then have "k \<in> e_key ` set es" using find_key_None_iff [of e_key k es] by auto
    then show ?thesis
      using Some b tf.lookup_serves [OF assms(1) sv, of k] t by (simp add: tf.stored_tombstone)
  qed
qed

lemma level_getKey_correct:
  assumes "healthy w" and "level_serves fmt lm ts w"
  shows "level_getKey k lm w = Inr (map_option (format_stored fmt) (live (newest k (map snd ts))))"
  using level_search_correct [OF assms(1)] assms(2) by (simp add: level_getKey_def level_serves_def)

lemma level_serves_evolves:
  assumes "level_serves fmt lm ts w" and "evolves q w w'" and "q \<notin> fst ` set ts"
  shows "level_serves fmt lm ts w'"
proof -
  have "(p, es) \<in> set ts \<Longrightarrow> table_serves fmt r p es w \<Longrightarrow> table_serves fmt r p es w'" for r p es
    using tf.serves_evolves [OF _ assms(2)] assms(3) by (metis fst_conv image_eqI)
  then show ?thesis
    using assms(1) unfolding level_serves_def
    by (auto elim!: list.rel_mono_strong)
qed

section \<open>Creating tables\<close>

text \<open>The names a level has handed out: the \<open>i\<close>-th oldest table carries the counter value \<open>i\<close>.\<close>

definition level_paths :: "path \<Rightarrow> nat \<Rightarrow> (path \<times> entry list) list \<Rightarrow> bool" where
  "level_paths dir n ts \<longleftrightarrow>
     (\<forall>t \<in> set ts. \<exists>m name. m < n \<and> fst t = dir @ ''/'' @ name \<and> table_name_with m name)"

lemma level_paths_fresh:
  assumes "level_paths dir n ts" and "table_name_with n name" and "n < 2 ^ 16"
  shows "dir @ ''/'' @ name \<notin> fst ` set ts"
proof
  assume "dir @ ''/'' @ name \<in> fst ` set ts"
  then obtain m name' where "m < n" "dir @ ''/'' @ name = dir @ ''/'' @ name'" "table_name_with m name'"
    using assms(1) by (fastforce simp: level_paths_def)
  then show False using table_name_distinct [of m name' n name] assms(2,3) by simp
qed

lemma level_paths_Cons:
  assumes "level_paths dir n ts" and "table_name_with n name"
  shows "level_paths dir (Suc n) ((dir @ ''/'' @ name, es) # ts)"
  unfolding level_paths_def
proof
  fix t assume "t \<in> set ((dir @ ''/'' @ name, es) # ts)"
  then consider "t = (dir @ ''/'' @ name, es)" | "t \<in> set ts" by auto
  then show "\<exists>m nm. m < Suc n \<and> fst t = dir @ ''/'' @ nm \<and> table_name_with m nm"
    using assms by cases (auto simp: level_paths_def, meson less_SucI)
qed

lemma level_createTable_ok:
  assumes "healthy w" and "name_counter w = of_nat n" and "n < 2 ^ 16"
    and "level_serves fmt lm ts w" and "level_paths (lm_directoryPath lm) n ts"
    and "format_fits fmt (it_items it)" and "sorted_keys e_key (it_items it)"
  shows "\<exists>r p w' name. level_createTable fmt it (lm, c, w) =
      (Inr Status_OK, (lm\<lparr>lm_tableReaders := r # lm_tableReaders lm\<rparr>, c + 1, w')) \<and>
    p = lm_directoryPath lm @ ''/'' @ name \<and> table_name_with n name \<and>
    level_serves fmt (lm\<lparr>lm_tableReaders := r # lm_tableReaders lm\<rparr>) ((p, it_items it) # ts) w' \<and>
    level_paths (lm_directoryPath lm) (Suc n) ((p, it_items it) # ts) \<and>
    evolves p (w\<lparr>ticks := ticks w + 2, name_counter := of_nat (Suc n)\<rparr>) w'"
proof -
  obtain name where name: "fst (generateSSTableFileName w) = name" by simp
  let ?p = "lm_directoryPath lm @ ''/'' @ name"
  let ?w1 = "w\<lparr>ticks := Suc (ticks w), name_counter := name_counter w + 1\<rparr>"
  let ?w2 = "?w1\<lparr>ticks := Suc (ticks ?w1)\<rparr>"
  have nm: "table_name_with n name" using generateSSTableFileName_name [OF assms(2)] name by simp
  have gen: "generateSSTableFileName w = (name, ?w1)"
    using name generateSSTableFileName_world [of w] by (metis prod.collapse)
  have h2: "healthy ?w2" using assms(1) by (simp add: healthy_def)
  obtain r w' where w': "writeTable fmt ?p it (clock w (Suc (ticks w)) div 1000000) c ?w2 = (Inr r, w')" "evolves ?p ?w2 w'"
      "table_serves fmt r ?p (it_items it) w'"
    using tf.write_serves [OF h2 assms(6,7)] by blast
  have "level_serves fmt lm ts ?w2"
    using assms(4) tf.serves_stable [where w = w and w' = ?w2] unfolding level_serves_def
    by (auto elim!: list.rel_mono_strong simp: content_def)
  then have "level_serves fmt lm ts w'"
    using level_serves_evolves w'(2) level_paths_fresh [OF assms(5) nm assms(3)] by blast
  then have sv: "level_serves fmt (lm\<lparr>lm_tableReaders := r # lm_tableReaders lm\<rparr>) ((?p, it_items it) # ts) w'"
    using w'(3) by (simp add: level_serves_def)
  have "level_createTable fmt it (lm, c, w) =
      (Inr Status_OK, (lm\<lparr>lm_tableReaders := r # lm_tableReaders lm\<rparr>, c + 1, w'))"
    using w'(1) by (simp add: level_createTable_def gen getTimeNow_def read_clock_def file_number_next_def Let_def)
  moreover have "level_paths (lm_directoryPath lm) (Suc n) ((?p, it_items it) # ts)"
    using assms(5) nm by (rule level_paths_Cons)
  moreover have "?w2 = w\<lparr>ticks := ticks w + 2, name_counter := of_nat (Suc n)\<rparr>"
    using assms(2) by (simp add: add.commute)
  ultimately show ?thesis using sv nm w'(2) by auto
qed

section \<open>Loading tables\<close>

lemma level_load_serves:
  assumes "healthy w" and "list_all2 (\<lambda>r (p, es). table_serves fmt r p es w) rs ts"
  shows "level_load fmt (map fst ts) w acc = Inr (acc @ rs)"
  using assms(2)
proof (induction rs ts arbitrary: acc rule: list_all2_induct)
  case Nil
  then show ?case by simp
next
  case (Cons r rs t ts)
  then show ?case using tf.open_serves [OF assms(1)] by (cases t) simp
qed

lemma level_initNew_serves:
  assumes "healthy w" and "list_files (lm_directoryPath lm) w = Inr (map fst ts)" and "lm_tableReaders lm = []"
    and "list_all2 (\<lambda>r (p, es). table_serves fmt r p es w) rs ts"
  shows "level_initNew fmt lm w = Inr (Status_OK, lm\<lparr>lm_tableReaders := rs\<rparr>)"
    and "level_serves fmt (lm\<lparr>lm_tableReaders := rs\<rparr>) ts w"
  using assms(2-4) level_load_serves [OF assms(1,4)]
  by (simp_all add: level_initNew_def level_serves_def)

section \<open>Properties\<close>

text \<open>
  C13: creating a table puts it before the tables of the level: afterwards a key of the new table is
  answered from it (a tombstone hides every older table), and every other key is answered as before.
\<close>

theorem level_new_table_wins:
  assumes "healthy w" and "name_counter w = of_nat n" and "n < 2 ^ 16"
    and "level_serves fmt lm ts w" and "level_paths (lm_directoryPath lm) n ts"
    and "format_fits fmt (it_items it)" and "sorted_keys e_key (it_items it)"
  shows "\<exists>lm' w'. level_createTable fmt it (lm, c, w) = (Inr Status_OK, (lm', c + 1, w')) \<and>
    (\<forall>k. level_getKey k lm' w' =
      (case find_key e_key k (it_items it) of
         None \<Rightarrow> level_getKey k lm w
       | Some e \<Rightarrow> Inr (if e_tombstone e then None else Some (format_stored fmt e))))"
proof -
  obtain lm' p w' where c: "level_createTable fmt it (lm, c, w) = (Inr Status_OK, (lm', c + 1, w'))"
      and s: "level_serves fmt lm' ((p, it_items it) # ts) w'"
      and e: "evolves p (w\<lparr>ticks := ticks w + 2, name_counter := of_nat (Suc n)\<rparr>) w'"
    using level_createTable_ok [OF assms, of c] by blast
  have "healthy w'" using evolves_healthy [OF e] assms(1) by (simp add: healthy_def)
  then show ?thesis
    using c level_getKey_correct [OF _ s] level_getKey_correct [OF assms(1,4)]
    by (auto split: option.splits)
qed

theorem level_new_table_wins_witness:
  "\<exists>lm' w'. level_createTable InMemory
      (Skip_it (skip_list_NewIterator (snd (skip_list_set (Entry ''k'' ''v'' False) skip_list_empty))))
      (LevelManagerImpl 0 ''d'', 0, fresh_world) = (Inr Status_OK, (lm', 1, w')) \<and>
    level_getKey ''k'' lm' w' = Inr (Some (Entry ''k'' ''v'' False))"
  using level_new_table_wins [of fresh_world 0 InMemory "LevelManagerImpl 0 ''d''" "[]"
      "Skip_it (skip_list_NewIterator (snd (skip_list_set (Entry ''k'' ''v'' False) skip_list_empty)))" 0]
  by (auto simp: level_serves_def level_paths_def LevelManagerImpl_def fresh_world_def healthy_def
      skip_list_set_def skip_list_empty_def entry_fits_def)

text \<open>
  C24: file names.  Two names drawn at different values of the process-wide counter below \<open>2 ^ 16\<close>
  differ, whatever the clock shows, and neither contains a path separator.
\<close>

theorem table_file_names_differ:
  assumes "name_counter w = of_nat m" and "name_counter w' = of_nat n" and "m \<noteq> n"
    and "m < 2 ^ 16" and "n < 2 ^ 16"
  shows "fst (generateSSTableFileName w) \<noteq> fst (generateSSTableFileName w') \<and>
    CHR ''/'' \<notin> set (fst (generateSSTableFileName w))"
  using table_name_distinct [OF generateSSTableFileName_name [OF assms(1)] generateSSTableFileName_name [OF assms(2)]]
    assms table_name_no_slash [OF generateSSTableFileName_name [OF assms(1)]] by blast

theorem table_file_names_differ_witness:
  "fst (generateSSTableFileName fresh_world) \<noteq> fst (generateSSTableFileName (fresh_world\<lparr>name_counter := 1\<rparr>))"
  using table_file_names_differ [of fresh_world 0 "fresh_world\<lparr>name_counter := 1\<rparr>" 1]
  by (simp add: fresh_world_def)

text \<open>
  Loading a directory.  The readers are put in the order the system lists the files, and that
  order alone decides which table answers a key that several tables hold; file numbers and
  timestamps play no part.
\<close>

theorem level_load_order_decides:
  assumes "healthy w" and "list_files dir w = Inr (map fst ts)"
    and "list_all2 (\<lambda>r (p, es). table_serves fmt r p es w) rs ts"
  shows "\<exists>lm. level_initNew fmt (LevelManagerImpl n dir) w = Inr (Status_OK, lm) \<and> lm_tableReaders lm = rs \<and>
    (\<forall>k. level_getKey k lm w = Inr (map_option (format_stored fmt) (live (newest k (map snd ts)))))"
proof -
  let ?lm = "(LevelManagerImpl n dir)\<lparr>lm_tableReaders := rs\<rparr>"
  have "level_initNew fmt (LevelManagerImpl n dir) w = Inr (Status_OK, ?lm)" and s: "level_serves fmt ?lm ts w"
    using level_initNew_serves [OF assms(1) _ _ assms(3), of "LevelManagerImpl n dir"] assms(2)
    by (simp_all add: LevelManagerImpl_def)
  then show ?thesis using level_getKey_correct [OF assms(1) s] by auto
qed

text \<open>Two tables of the key \<open>k\<close>, the older one listed first: the old value comes back.\<close>

theorem level_load_order_decides_witness:
  "\<exists>lm. level_initNew InMemory (LevelManagerImpl 0 ''d'')
      (fresh_world\<lparr>fs_dirs := [''d''],
         fs_files := [(''d/old'', serializeTable Little [Entry ''k'' ''1'' False] 1 0),
                      (''d/new'', serializeTable Little [Entry ''k'' ''2'' False] 2 1)]\<rparr>) = Inr (Status_OK, lm) \<and>
    level_getKey ''k'' lm
      (fresh_world\<lparr>fs_dirs := [''d''],
         fs_files := [(''d/old'', serializeTable Little [Entry ''k'' ''1'' False] 1 0),
                      (''d/new'', serializeTable Little [Entry ''k'' ''2'' False] 2 1)]\<rparr>) =
      Inr (Some (Entry ''k'' ''1'' False))"
proof -
  let ?e = "\<lambda>v. [Entry ''k'' v False]"
  let ?w = "fresh_world\<lparr>fs_dirs := [''d''], fs_files := [(''d/old'', serializeTable Little (?e ''1'') 1 0),
    (''d/new'', serializeTable Little (?e ''2'') 2 1)]\<rparr>"
  let ?r = "\<lambda>v ts fn. InMemoryTableReader (SSTable (SSTableMetadata fn ts ''k'' ''k'') (?e v))"
  have "table_serves InMemory (?r ''1'' 1 0) ''d/old'' (?e ''1'') ?w"
    by (rule table_serves_InMemoryI [of _ 0 1]) (simp_all add: entry_fits_def content_def fresh_world_def)
  moreover have "table_serves InMemory (?r ''2'' 2 1) ''d/new'' (?e ''2'') ?w"
    by (rule table_serves_InMemoryI [of _ 1 2]) (simp_all add: entry_fits_def content_def fresh_world_def)
  ultimately show ?thesis
    using level_load_order_decides [of ?w "''d''" "[(''d/old'', ?e ''1''), (''d/new'', ?e ''2'')]" InMemory
        "[?r ''1'' 1 0, ?r ''2'' 2 1]" 0]
    by (auto simp: list_files_def is_directory_def child_of_def fresh_world_def healthy_def)
qed

end
