(* ===== verification/Storage_Manager.thy ===== *)
theory Storage_Manager
  imports Level_Manager
begin

text \<open>
  \<open>StorageManagerImpl\<close> (\<open>src/core/storage_manager\<close>): the levels of the store.  A write goes to level
  0, after the levels have been set up from the directories on disk; a lookup asks the levels in
  order.
\<close>

section \<open>State\<close>

record storage =
  sm_basePath :: path
  sm_maxLevel :: int
  sm_format :: TableFormatKind
  sm_levels :: "level_manager list"

definition StorageManagerImpl :: "path \<Rightarrow> int \<Rightarrow> TableFormatKind \<Rightarrow> storage" where
  "StorageManagerImpl basePath maxLevel fmt =
     \<lparr>sm_basePath = basePath, sm_maxLevel = maxLevel, sm_format = fmt, sm_levels = []\<rparr>"

section \<open>Setting up the levels\<close>

definition filename :: "path \<Rightarrow> string" where
  "filename p = rev (takeWhile (\<lambda>c. c \<noteq> CHR ''/'') (rev p))"

text \<open>\<open>std::regex_match\<close> with \<open>level-(\d+)\<close>: the digits.\<close>

definition match_level :: "string \<Rightarrow> string option" where
  "match_level name =
     (let ds = drop 6 name
      in if take 6 name = ''level-'' \<and> ds \<noteq> [] \<and> (\<forall>c \<in> set ds. isdigit c) then Some ds else None)"

text \<open>\<open>std::stoi\<close> on digits: \<open>std::out_of_range\<close> above \<open>2 ^ 31 - 1\<close>.\<close>

definition stoi :: "string \<Rightarrow> exn + int" where
  "stoi s = (if decimal_value s < 2 ^ 31 then Inr (int (decimal_value s)) else Inl (Out_of_range ''stoi''))"

fun scan_levels :: "int \<Rightarrow> path list \<Rightarrow> int list \<Rightarrow> exn + int list" where
  "scan_levels maxLevel [] discovered = Inr discovered"
| "scan_levels maxLevel (p # ps) discovered =
     (case match_level (filename p) of
        None \<Rightarrow> scan_levels maxLevel ps discovered
      | Some ds \<Rightarrow>
          rbind (stoi ds) (\<lambda>levelNum.
            if levelNum > maxLevel then scan_levels maxLevel ps discovered
            else scan_levels maxLevel ps (discovered @ [levelNum])))"

definition level_path :: "path \<Rightarrow> int \<Rightarrow> path" where
  "level_path base n = base @ ''/level-'' @ to_string (nat n)"

text \<open>
  The loop over the level numbers.  Levels set up before an error or an exception stay in
  \<open>m_levelManagers\<close>.
\<close>

fun init_levels_loop :: "TableFormatKind \<Rightarrow> path \<Rightarrow> int list \<Rightarrow> int list \<Rightarrow> (level_manager list \<times> world, error option) sx" where
  "init_levels_loop fmt base discovered [] s = (Inr None, s)"
| "init_levels_loop fmt base discovered (n # ns) s =
     (case s of (levels, w) \<Rightarrow>
        let levelPath = level_path base n;
            level = LevelManagerImpl n levelPath
        in if n \<in> set discovered then
             (case level_initNew fmt level w of
                Inl ex \<Rightarrow> (Inl ex, s)
              | Inr (status, level') \<Rightarrow>
                  if \<not> status_ok status
                  then (Inr (Some (Error (''Failed to initialize level-'' @ to_string (nat n) @ '': '' @ m_msg status))), s)
                  else init_levels_loop fmt base discovered ns (levels @ [level'], w))
           else
             (case create_directories levelPath w of
                (Some msg, w') \<Rightarrow>
                  (Inr (Some (Error (''Failed to create directory '' @ levelPath @ '': '' @ msg))), (levels, w'))
              | (None, w') \<Rightarrow> init_levels_loop fmt base discovered ns (levels @ [level], w')))"

definition storage_initLevels :: "(storage \<times> world, error option) sx" where
  "storage_initLevels s =
     (case s of (st, w) \<Rightarrow>
        (case create_directories (sm_basePath st) w of
           (Some msg, w1) \<Rightarrow> (Inr (Some (Error (''Failed to create base directory: '' @ msg))), (st, w1))
         | (None, w1) \<Rightarrow>
             (case list_directories (sm_basePath st) w1 of
                Inl ex \<Rightarrow> (Inl ex, (st, w1))
              | Inr ps \<Rightarrow>
                  (case scan_levels (sm_maxLevel st) ps [] of
                     Inl ex \<Rightarrow> (Inl ex, (st, w1))
                   | Inr discovered \<Rightarrow>
                       if sm_maxLevel st < -1
                       then (Inl (Length_error ''vector::reserve''), (st\<lparr>sm_levels := []\<rparr>, w1))
                       else
                       (case init_levels_loop (sm_format st) (sm_basePath st) discovered [0..sm_maxLevel st] ([], w1) of
                          (res, (levels, w2)) \<Rightarrow> (res, (st\<lparr>sm_levels := levels\<rparr>, w2)))))))"

section \<open>Operations\<close>

type_synonym storage_state = "storage \<times> u64 \<times> world"

text \<open>
  \<open>write\<close>.  The result of \<open>initLevels\<close> is dropped, and \<open>m_levelManagers[0]\<close> is accessed whether or not
  there is a level.
\<close>

definition storage_ensure_levels :: "(storage_state, unit) sx" where
  "storage_ensure_levels s =
     (case s of (st, c, w) \<Rightarrow>
        if sm_levels st = [] then
          (case storage_initLevels (st, w) of
             (Inl ex, (st', w')) \<Rightarrow> (Inl ex, (st', c, w'))
           | (Inr _, (st', w')) \<Rightarrow> (Inr (), (st', c, w')))
        else (Inr (), s))"

definition storage_write_level0 :: "kv_iterator \<Rightarrow> (storage_state, error option) sx" where
  "storage_write_level0 it s =
     (case s of (st, c, w) \<Rightarrow>
        (case sm_levels st of
           [] \<Rightarrow> (Inl (Undefined_behaviour ''m_levelManagers[0]''), s)
         | l0 # ls \<Rightarrow>
             (case level_createTable (sm_format st) it (l0, c, w) of
                (Inl ex, (l0', c', w')) \<Rightarrow> (Inl ex, (st\<lparr>sm_levels := l0' # ls\<rparr>, c', w'))
              | (Inr status, (l0', c', w')) \<Rightarrow>
                  (Inr (if \<not> status_ok status then Some (Error (m_msg status)) else None),
                   (st\<lparr>sm_levels := l0' # ls\<rparr>, c', w')))))"

definition storage_write :: "kv_iterator \<Rightarrow> (storage_state, error option) sx" where
  "storage_write it = sx_bind storage_ensure_levels (\<lambda>_. storage_write_level0 it)"

fun storage_search :: "string \<Rightarrow> level_manager list \<Rightarrow> world \<Rightarrow> exn + entry option" where
  "storage_search key [] w = Inr None"
| "storage_search key (l # ls) w =
     rbind (level_getKey key l w) (\<lambda>found.
       case found of
         Some e \<Rightarrow> if \<not> e_tombstone e then Inr (Some e) else Inr None
       | None \<Rightarrow> storage_search key ls w)"

definition storage_get :: "string \<Rightarrow> storage \<Rightarrow> world \<Rightarrow> exn + entry option" where
  "storage_get key st w = storage_search key (sm_levels st) w"

fun storage_compact_loop :: "int list \<Rightarrow> level_manager list \<Rightarrow> exn + level_manager list" where
  "storage_compact_loop [] levels = Inr levels"
| "storage_compact_loop (n # ns) levels =
     rbind (vec_at levels n) (\<lambda>l.
     rbind (vec_at levels (n + 1)) (\<lambda>l1.
       case level_compactInto l l1 of (_, l', l1') \<Rightarrow>
         storage_compact_loop ns (levels[nat n := l', nat (n + 1) := l1'])))"

definition storage_compact :: "storage \<Rightarrow> exn + error option \<times> storage" where
  "storage_compact st =
     (if sm_levels st = [] then Inr (None, st)
      else rbind (storage_compact_loop [0..sm_maxLevel st - 1] (sm_levels st)) (\<lambda>levels.
             Inr (None, st\<lparr>sm_levels := levels\<rparr>)))"

section \<open>Lookups\<close>

text \<open>The tables of every level, and the first level with a live entry for a key.\<close>

type_synonym tables = "(path \<times> entry list) list"

definition storage_serves :: "storage \<Rightarrow> tables list \<Rightarrow> world \<Rightarrow> bool" where
  "storage_serves st tss w \<longleftrightarrow> list_all2 (\<lambda>l ts. level_serves (sm_format st) l ts w) (sm_levels st) tss"

fun first_live :: "string \<Rightarrow> tables list \<Rightarrow> entry option" where
  "first_live k [] = None"
| "first_live k (ts # tss) =
     (case live (newest k (map snd ts)) of None \<Rightarrow> first_live k tss | Some e \<Rightarrow> Some e)"

lemma live_tombstone: "live x = Some e \<Longrightarrow> \<not> e_tombstone e"
  by (auto simp: live_def split: option.splits if_splits)

lemma storage_search_correct:
  assumes "healthy w" and "list_all2 (\<lambda>l ts. level_serves fmt l ts w) ls tss"
  shows "storage_search k ls w = Inr (map_option (format_stored fmt) (first_live k tss))"
  using assms(2)
proof (induction ls tss rule: list_all2_induct)
  case (Cons l ls ts tss)
  then show ?case
    using level_getKey_correct [OF assms(1) Cons.hyps(1), of k]
    by (cases "live (newest k (map snd ts))") (simp_all add: tf.stored_tombstone live_tombstone)
qed simp

lemma storage_get_correct:
  assumes "healthy w" and "storage_serves st tss w"
  shows "storage_get k st w = Inr (map_option (format_stored (sm_format st)) (first_live k tss))"
  using storage_search_correct [OF assms(1)] assms(2) by (simp add: storage_get_def storage_serves_def)

lemma first_live_single: "first_live k (ts # replicate n []) = live (newest k (map snd ts))"
proof -
  have "first_live k (replicate n []) = None" by (induction n) simp_all
  then show ?thesis by (simp split: option.splits)
qed

section \<open>Setting up and writing\<close>

text \<open>What creating directories leaves alone.\<close>

definition same_files :: "world \<Rightarrow> world \<Rightarrow> bool" where
  "same_files w w' \<longleftrightarrow> fs_files w' = fs_files w \<and> (\<forall>p. evolves p w w')"

lemma same_files_refl: "same_files w w"
  by (simp add: same_files_def evolves_refl)

lemma same_files_mkdir: "healthy w \<Longrightarrow> same_files w (mkdir_all d w)"
  by (simp add: same_files_def evolves_mkdir)

lemma same_files_trans: "same_files w w' \<Longrightarrow> same_files w' w'' \<Longrightarrow> same_files w w''"
  by (auto simp: same_files_def evolves_def)

lemma same_files_healthy: "same_files w w' \<Longrightarrow> healthy w' = healthy w"
  using evolves_healthy by (auto simp: same_files_def)

lemma same_files_content: "same_files w w' \<Longrightarrow> content w' p = content w p"
  by (simp add: same_files_def content_def)

lemma same_files_list:
  assumes "same_files w w'" and "list_files d w = Inr ps"
  shows "list_files d w' = Inr ps"
proof -
  have "is_directory w' d" "fs_listing w' = fs_listing w" "fs_files w' = fs_files w"
    using assms by (auto simp: same_files_def evolves_def list_files_def split: if_splits)
  then show ?thesis using assms(2) by (simp add: list_files_def split: if_splits)
qed

lemma level_serves_same_files:
  assumes "level_serves fmt lm ts w" and "same_files w w'"
  shows "level_serves fmt lm ts w'"
proof -
  have "host_order w' = host_order w" using assms(2) by (auto simp: same_files_def evolves_def)
  then show ?thesis
    using assms tf.serves_stable [where w = w and w' = w'] unfolding level_serves_def
    by (auto elim!: list.rel_mono_strong simp: same_files_content)
qed

lemma level_path_inj: "0 \<le> m \<Longrightarrow> 0 \<le> n \<Longrightarrow> level_path base m = level_path base n \<longleftrightarrow> m = n"
  by (auto simp: level_path_def)

text \<open>
  The tables of level \<open>n\<close> on disk, as \<open>initLevels\<close> finds them: a level whose directory exists is
  loaded, any other level starts empty.
\<close>

definition level_on_disk :: "TableFormatKind \<Rightarrow> path \<Rightarrow> int list \<Rightarrow> (int \<Rightarrow> tables) \<Rightarrow> int \<Rightarrow> world \<Rightarrow> bool" where
  "level_on_disk fmt base discovered T n w \<longleftrightarrow>
     (if n \<in> set discovered
      then list_files (level_path base n) w = Inr (map fst (T n)) \<and>
        (\<forall>t \<in> set (T n). \<exists>r. table_serves fmt r (fst t) (snd t) w)
      else T n = [])"

lemma serving_readers:
  assumes "\<forall>t \<in> set ts. \<exists>r. table_serves fmt r (fst t) (snd t) w"
  shows "\<exists>rs. list_all2 (\<lambda>r (p, es). table_serves fmt r p es w) rs ts"
  using assms by (induction ts) (auto simp: list_all2_Cons2)

lemma level_on_disk_same_files:
  assumes "level_on_disk fmt base ds T n w" and "same_files w w'"
  shows "level_on_disk fmt base ds T n w'"
proof -
  have "host_order w' = host_order w" using assms(2) by (auto simp: same_files_def evolves_def)
  then have "table_serves fmt r p es w \<Longrightarrow> table_serves fmt r p es w'" for r p es
    using tf.serves_stable [where w = w and w' = w'] same_files_content [OF assms(2)] by blast
  then show ?thesis
    using assms same_files_list [OF assms(2)] by (fastforce simp: level_on_disk_def)
qed

lemma init_levels_loop_ok:
  assumes "healthy w" and "\<forall>n \<in> set ns. level_on_disk fmt base ds T n w"
  shows "\<exists>levels w'. init_levels_loop fmt base ds ns (acc, w) = (Inr None, (acc @ levels, w')) \<and> same_files w w' \<and>
    list_all2 (\<lambda>l n. level_serves fmt l (T n) w' \<and> lm_directoryPath l = level_path base n) levels ns"
  using assms
proof (induction ns arbitrary: acc w)
  case Nil
  then show ?case by (auto simp: same_files_refl)
next
  case (Cons n ns)
  let ?lm = "LevelManagerImpl n (level_path base n)"
  have "\<exists>l w1. init_levels_loop fmt base ds (n # ns) (acc, w) = init_levels_loop fmt base ds ns (acc @ [l], w1) \<and>
      same_files w w1 \<and> level_serves fmt l (T n) w1 \<and> lm_directoryPath l = level_path base n"
  proof (cases "n \<in> set ds")
    case True
    with Cons.prems(2) have d: "list_files (level_path base n) w = Inr (map fst (T n))"
      and "\<forall>t \<in> set (T n). \<exists>r. table_serves fmt r (fst t) (snd t) w" by (simp_all add: level_on_disk_def)
    then obtain rs where rs: "list_all2 (\<lambda>r (p, es). table_serves fmt r p es w) rs (T n)"
      using serving_readers by blast
    have "level_initNew fmt ?lm w = Inr (Status_OK, ?lm\<lparr>lm_tableReaders := rs\<rparr>)"
        "level_serves fmt (?lm\<lparr>lm_tableReaders := rs\<rparr>) (T n) w"
      using level_initNew_serves [OF Cons.prems(1) _ _ rs, of ?lm] d by (simp_all add: LevelManagerImpl_def)
    then show ?thesis
      using True by (intro exI [of _ "?lm\<lparr>lm_tableReaders := rs\<rparr>"] exI [of _ w])
        (simp add: same_files_refl, simp add: LevelManagerImpl_def)
  next
    case False
    with Cons.prems(2) have "T n = []" by (simp add: level_on_disk_def)
    then show ?thesis
      using False Cons.prems(1)
      by (intro exI [of _ ?lm] exI [of _ "mkdir_all (level_path base n) w"])
        (simp add: create_directories_healthy same_files_mkdir level_serves_def, simp add: LevelManagerImpl_def Let_def)
  qed
  then obtain l w1 where l: "init_levels_loop fmt base ds (n # ns) (acc, w) = init_levels_loop fmt base ds ns (acc @ [l], w1)"
      "same_files w w1" "level_serves fmt l (T n) w1" "lm_directoryPath l = level_path base n" by blast
  have "healthy w1" "\<forall>n \<in> set ns. level_on_disk fmt base ds T n w1"
    using Cons.prems l(2) same_files_healthy level_on_disk_same_files by auto
  from Cons.IH [OF this, of "acc @ [l]"] obtain ls w' where ls:
      "init_levels_loop fmt base ds ns (acc @ [l], w1) = (Inr None, ((acc @ [l]) @ ls, w'))" "same_files w1 w'"
      "list_all2 (\<lambda>l n. level_serves fmt l (T n) w' \<and> lm_directoryPath l = level_path base n) ls ns" by blast
  then show ?case
    using l level_serves_same_files [OF l(3) ls(2)] same_files_trans [OF l(2) ls(2)]
    by (intro exI [of _ "l # ls"] exI [of _ w']) simp
qed

lemma storage_initLevels_ok:
  assumes "healthy w" and "-1 \<le> sm_maxLevel st"
    and "list_directories (sm_basePath st) (mkdir_all (sm_basePath st) w) = Inr ps"
    and "scan_levels (sm_maxLevel st) ps [] = Inr ds"
    and "\<forall>n \<in> {0..sm_maxLevel st}. level_on_disk (sm_format st) (sm_basePath st) ds T n w"
  shows "\<exists>levels w'. storage_initLevels (st, w) = (Inr None, (st\<lparr>sm_levels := levels\<rparr>, w')) \<and> same_files w w' \<and>
    list_all2 (\<lambda>l n. level_serves (sm_format st) l (T n) w' \<and> lm_directoryPath l = level_path (sm_basePath st) n)
      levels [0..sm_maxLevel st]"
proof -
  let ?w1 = "mkdir_all (sm_basePath st) w"
  have "healthy ?w1" and sf: "same_files w ?w1" using assms(1) by (simp_all add: same_files_mkdir)
  moreover have "\<forall>n \<in> set [0..sm_maxLevel st]. level_on_disk (sm_format st) (sm_basePath st) ds T n ?w1"
    using assms(5) level_on_disk_same_files [OF _ sf] by simp
  ultimately obtain levels w' where
      "init_levels_loop (sm_format st) (sm_basePath st) ds [0..sm_maxLevel st] ([], ?w1) = (Inr None, (levels, w'))"
      "same_files ?w1 w'"
      "list_all2 (\<lambda>l n. level_serves (sm_format st) l (T n) w' \<and> lm_directoryPath l = level_path (sm_basePath st) n)
        levels [0..sm_maxLevel st]"
    using init_levels_loop_ok [of ?w1 "[0..sm_maxLevel st]" "sm_format st" "sm_basePath st" ds T "[]"] by auto
  then show ?thesis
    using assms same_files_trans [OF sf]
    by (auto simp: storage_initLevels_def create_directories_healthy)
qed

text \<open>A base directory with no subdirectory, on a system that lists directories completely.\<close>

definition lists_all :: "world \<Rightarrow> bool" where
  "lists_all w \<longleftrightarrow> (\<forall>ps. set (fs_listing w ps) = set ps)"

definition no_levels_on_disk :: "path \<Rightarrow> world \<Rightarrow> bool" where
  "no_levels_on_disk base w \<longleftrightarrow> lists_all w \<and> (\<forall>d. is_directory w d \<longrightarrow> \<not> child_of base d)"

lemma ancestors_length: "d \<in> set (path_and_ancestors p) \<Longrightarrow> length d \<le> length p"
  by (auto simp: path_and_ancestors_def)

lemma child_of_length: "child_of base d \<Longrightarrow> length base < length d"
proof -
  assume "child_of base d"
  then have "length (take (length base + 1) d) = length base + 1" by (simp add: child_of_def)
  then show ?thesis by simp
qed

lemma no_levels_mkdir_base:
  assumes "healthy w" and "no_levels_on_disk base w"
  shows "list_directories base (mkdir_all base w) = Inr []"
proof -
  let ?w = "mkdir_all base w"
  have "\<not> child_of base d" if "is_directory ?w d" for d
    using that assms ancestors_length [of d base] child_of_length [of base d] by (auto simp: no_levels_on_disk_def)
  then have "filter (child_of base) (fs_dirs ?w) = []" by (simp add: filter_empty_conv is_directory_def)
  moreover have "fs_listing w [] = []"
    using assms(2) by (metis no_levels_on_disk_def lists_all_def set_empty)
  ultimately show ?thesis
    using assms(1) by (simp add: list_directories_def)
qed

lemma storage_initLevels_fresh:
  assumes "healthy w" and "0 \<le> sm_maxLevel st" and "no_levels_on_disk (sm_basePath st) w"
  shows "\<exists>l0 ls w'. storage_initLevels (st, w) = (Inr None, (st\<lparr>sm_levels := l0 # ls\<rparr>, w')) \<and> same_files w w' \<and>
    lm_directoryPath l0 = level_path (sm_basePath st) 0 \<and>
    storage_serves (st\<lparr>sm_levels := l0 # ls\<rparr>) ([] # replicate (nat (sm_maxLevel st)) []) w'"
proof -
  have "scan_levels (sm_maxLevel st) [] [] = Inr []" by simp
  then obtain levels w' where i: "storage_initLevels (st, w) = (Inr None, (st\<lparr>sm_levels := levels\<rparr>, w'))" "same_files w w'"
      and l: "list_all2 (\<lambda>l n. level_serves (sm_format st) l [] w' \<and> lm_directoryPath l = level_path (sm_basePath st) n)
        levels [0..sm_maxLevel st]"
    using storage_initLevels_ok [OF assms(1) _ no_levels_mkdir_base [OF assms(1,3)], of "[]" "\<lambda>_. []"] assms(2)
    by (auto simp: level_on_disk_def)
  have "[0..sm_maxLevel st] = 0 # [1..sm_maxLevel st]" using assms(2) by (simp add: upto.simps)
  then obtain l0 ls where lv: "levels = l0 # ls" "lm_directoryPath l0 = level_path (sm_basePath st) 0"
      "level_serves (sm_format st) l0 [] w'"
      "list_all2 (\<lambda>l n. level_serves (sm_format st) l [] w' \<and> lm_directoryPath l = level_path (sm_basePath st) n)
        ls [1..sm_maxLevel st]"
    using l by (auto simp: list_all2_Cons2)
  have "list_all2 (\<lambda>l ts. level_serves (sm_format st) l ts w') ls (replicate (nat (sm_maxLevel st)) [])"
    using lv(4) by (auto simp: list_all2_conv_all_nth)
  then show ?thesis
    using i lv by (intro exI [of _ l0] exI [of _ ls] exI [of _ w']) (simp add: storage_serves_def)
qed

section \<open>The invariant of the running store\<close>

text \<open>
  The levels are not set up yet, or they are and level 0 holds the tables \<open>ts\<close>, newest first, under
  the names of the first \<open>n\<close> counter values; the deeper levels are empty, since nothing is ever moved
  into them.
\<close>

definition storage_inv :: "storage \<Rightarrow> nat \<Rightarrow> tables \<Rightarrow> world \<Rightarrow> bool" where
  "storage_inv st n ts w \<longleftrightarrow>
     name_counter w = of_nat n \<and> 0 \<le> sm_maxLevel st \<and> level_paths (level_path (sm_basePath st) 0) n ts \<and>
     (case sm_levels st of
        [] \<Rightarrow> ts = [] \<and> no_levels_on_disk (sm_basePath st) w
      | l0 # ls \<Rightarrow> lm_directoryPath l0 = level_path (sm_basePath st) 0 \<and>
          storage_serves st (ts # replicate (nat (sm_maxLevel st)) []) w)"

lemma storage_inv_get:
  assumes "healthy w" and "storage_inv st n ts w"
  shows "storage_get k st w = Inr (map_option (format_stored (sm_format st)) (live (newest k (map snd ts))))"
proof (cases "sm_levels st")
  case Nil
  then show ?thesis using assms(2) by (simp add: storage_inv_def storage_get_def)
next
  case (Cons l0 ls)
  then have "storage_serves st (ts # replicate (nat (sm_maxLevel st)) []) w"
    using assms(2) by (simp add: storage_inv_def)
  from storage_get_correct [OF assms(1) this] show ?thesis by (simp only: first_live_single)
qed

text \<open>Changes of the world that the storage manager does not see.\<close>

lemma storage_inv_evolves:
  assumes "storage_inv st n ts w" and "evolves q w w'" and "q \<notin> fst ` set ts"
    and "\<And>d. is_directory w' d \<Longrightarrow> is_directory w d \<or> \<not> child_of (sm_basePath st) d"
  shows "storage_inv st n ts w'"
proof -
  have "level_serves fmt l us w \<Longrightarrow> set us \<subseteq> set ts \<Longrightarrow> level_serves fmt l us w'" for fmt l us
    using level_serves_evolves [OF _ assms(2)] assms(3) by blast
  then have "storage_serves st (ts # replicate m []) w \<Longrightarrow> storage_serves st (ts # replicate m []) w'" for m
    unfolding storage_serves_def by (auto elim!: list.rel_mono_strong)
  moreover have "name_counter w' = name_counter w" using assms(2) by (simp add: evolves_def)
  moreover have no_child: "no_levels_on_disk (sm_basePath st) w \<Longrightarrow> no_levels_on_disk (sm_basePath st) w'"
    using assms(2,4) unfolding no_levels_on_disk_def lists_all_def evolves_def by metis
  ultimately show ?thesis
    using assms(1) no_child by (auto simp: storage_inv_def split: list.splits)
qed

lemma storage_ensure_levels_ok:
  assumes "healthy w" and "storage_inv st n ts w"
  shows "\<exists>l0 ls w'. storage_ensure_levels (st, c, w) = (Inr (), (st\<lparr>sm_levels := l0 # ls\<rparr>, c, w')) \<and>
    storage_inv (st\<lparr>sm_levels := l0 # ls\<rparr>) n ts w' \<and> same_files w w'"
proof (cases "sm_levels st")
  case (Cons l0 ls)
  then have eq: "st\<lparr>sm_levels := l0 # ls\<rparr> = st" by (cases st) simp
  have "storage_ensure_levels (st, c, w) = (Inr (), (st\<lparr>sm_levels := l0 # ls\<rparr>, c, w))"
    unfolding eq using Cons by (simp add: storage_ensure_levels_def)
  moreover have "storage_inv (st\<lparr>sm_levels := l0 # ls\<rparr>) n ts w" unfolding eq by (rule assms(2))
  ultimately show ?thesis using same_files_refl by blast
next
  case Nil
  then have "0 \<le> sm_maxLevel st" "no_levels_on_disk (sm_basePath st) w" "ts = []"
    using assms(2) by (simp_all add: storage_inv_def)
  then obtain l0 ls w' where i: "storage_initLevels (st, w) = (Inr None, (st\<lparr>sm_levels := l0 # ls\<rparr>, w'))" "same_files w w'"
      "lm_directoryPath l0 = level_path (sm_basePath st) 0"
      "storage_serves (st\<lparr>sm_levels := l0 # ls\<rparr>) ([] # replicate (nat (sm_maxLevel st)) []) w'"
    using storage_initLevels_fresh [OF assms(1)] by blast
  moreover have "name_counter w' = name_counter w" using i(2) by (auto simp: same_files_def evolves_def)
  ultimately show ?thesis
    using Nil assms(2) \<open>ts = []\<close>
    by (intro exI [of _ l0] exI [of _ ls] exI [of _ w']) (simp add: storage_ensure_levels_def storage_inv_def)
qed

text \<open>A file that is not one of the tables, and so survives a write.\<close>

definition keeps_other :: "path \<Rightarrow> world \<Rightarrow> world \<Rightarrow> bool" where
  "keeps_other p w w' \<longleftrightarrow> healthy w' = healthy w \<and> host_order w' = host_order w \<and> fs_listing w' = fs_listing w \<and>
     (\<forall>d. is_directory w d \<longrightarrow> is_directory w' d) \<and> (\<forall>q. q \<noteq> p \<longrightarrow> content w' q = content w q)"

lemma storage_write_ok:
  assumes "healthy w" and "storage_inv st n ts w" and "n < 2 ^ 16"
    and "format_fits (sm_format st) (it_items it)" and "sorted_keys e_key (it_items it)"
  shows "\<exists>levels p name w'. storage_write it (st, c, w) = (Inr None, (st\<lparr>sm_levels := levels\<rparr>, c + 1, w')) \<and>
    p = level_path (sm_basePath st) 0 @ ''/'' @ name \<and> table_name_with n name \<and>
    storage_inv (st\<lparr>sm_levels := levels\<rparr>) (Suc n) ((p, it_items it) # ts) w' \<and> keeps_other p w w'"
proof -
  obtain l0 ls w1 where e: "storage_ensure_levels (st, c, w) = (Inr (), (st\<lparr>sm_levels := l0 # ls\<rparr>, c, w1))"
      "storage_inv (st\<lparr>sm_levels := l0 # ls\<rparr>) n ts w1" "same_files w w1"
    using storage_ensure_levels_ok [OF assms(1,2)] by blast
  have h1: "healthy w1" using same_files_healthy [OF e(3)] assms(1) by simp
  let ?dir = "level_path (sm_basePath st) 0" and ?m = "nat (sm_maxLevel st)"
  have l0: "lm_directoryPath l0 = ?dir" "name_counter w1 = of_nat n" "level_paths (lm_directoryPath l0) n ts"
      "level_serves (sm_format st) l0 ts w1" "0 \<le> sm_maxLevel st"
      and ls: "list_all2 (\<lambda>l ts. level_serves (sm_format st) l ts w1) ls (replicate ?m [])"
    using e(2) by (auto simp: storage_inv_def storage_serves_def)
  obtain r p w2 name where c: "level_createTable (sm_format st) it (l0, c, w1) =
      (Inr Status_OK, (l0\<lparr>lm_tableReaders := r # lm_tableReaders l0\<rparr>, c + 1, w2))"
      "p = ?dir @ ''/'' @ name" "table_name_with n name"
      "level_serves (sm_format st) (l0\<lparr>lm_tableReaders := r # lm_tableReaders l0\<rparr>) ((p, it_items it) # ts) w2"
      "level_paths ?dir (Suc n) ((p, it_items it) # ts)"
      "evolves p (w1\<lparr>ticks := ticks w1 + 2, name_counter := of_nat (Suc n)\<rparr>) w2"
    using level_createTable_ok [OF h1 l0(2) assms(3) l0(4,3) assms(4,5), of c] l0(1) by auto
  let ?l0 = "l0\<lparr>lm_tableReaders := r # lm_tableReaders l0\<rparr>"
  have "list_all2 (\<lambda>l ts. level_serves (sm_format st) l ts w2) ls (replicate ?m [])"
    using ls by (auto simp: list_all2_conv_all_nth level_serves_def)
  moreover have "name_counter w2 = of_nat (Suc n)" using c(6) by (simp add: evolves_def)
  ultimately have inv: "storage_inv (st\<lparr>sm_levels := ?l0 # ls\<rparr>) (Suc n) ((p, it_items it) # ts) w2"
    using c(4,5) l0(1,5) by (simp add: storage_inv_def storage_serves_def)
  have "storage_write it (st, c, w) = (Inr None, (st\<lparr>sm_levels := ?l0 # ls\<rparr>, c + 1, w2))"
    using e(1) c(1) by (simp add: storage_write_def sx_simps storage_write_level0_def)
  moreover have "keeps_other p w w2"
    using c(6) e(3) h1 assms(1) same_files_content [OF e(3)]
    by (auto simp: keeps_other_def evolves_def healthy_def same_files_def content_def is_directory_def)
  ultimately show ?thesis using c(2,3) inv by blast
qed

text \<open>Writing an empty source: no table format accepts one, and the exception passes through.\<close>

lemma storage_write_empty:
  assumes "healthy w" and "storage_inv st n ts w" and "it_items it = []"
  shows "\<exists>msg s. storage_write it (st, c, w) = (Inl (Runtime_error msg), s)"
proof -
  obtain l0 ls w1 where e: "storage_ensure_levels (st, c, w) = (Inr (), (st\<lparr>sm_levels := l0 # ls\<rparr>, c, w1))" "same_files w w1"
    using storage_ensure_levels_ok [OF assms(1,2)] by blast
  obtain name w2 where g: "generateSSTableFileName w1 = (name, w2)" by fastforce
  have "w2 = w1\<lparr>ticks := Suc (ticks w1), name_counter := name_counter w1 + 1\<rparr>"
    using generateSSTableFileName_world [of w1] g by simp
  then have "healthy (snd (getTimeNow w2))"
    using same_files_healthy [OF e(2)] assms(1) by (simp add: getTimeNow_def read_clock_def healthy_def)
  then obtain msg w3 where "writeTable (sm_format st) (lm_directoryPath l0 @ ''/'' @ name) it (fst (getTimeNow w2)) c (snd (getTimeNow w2)) =
      (Inl (Runtime_error msg), w3)"
    using writeTable_empty [OF _ assms(3)] by blast
  then have "level_createTable (sm_format st) it (l0, c, w1) = (Inl (Runtime_error msg), (l0, c + 1, w3))"
    using g by (cases "getTimeNow w2") (simp add: level_createTable_def file_number_next_def)
  then show ?thesis using e(1) by (simp add: storage_write_def sx_simps storage_write_level0_def)
qed

section \<open>Properties\<close>

text \<open>
  C25: a lookup returns the live entry of the first level that has one.  A level whose newest entry
  for the key is a tombstone is passed over, so a deleted key comes back when a deeper level still
  holds it.
\<close>

theorem storage_get_first_live:
  assumes "healthy w" and "storage_serves st tss w"
  shows "storage_get k st w = Inr (map_option (format_stored (sm_format st)) (first_live k tss))"
  by (rule storage_get_correct [OF assms])

text \<open>Level 0 says that \<open>k\<close> was deleted, level 1 still has the old value, and the old value is returned.\<close>

theorem storage_get_first_live_witness:
  "storage_get ''k''
      \<lparr>sm_basePath = ''b'', sm_maxLevel = 1, sm_format = InMemory,
       sm_levels = [(LevelManagerImpl 0 ''b/level-0'')\<lparr>lm_tableReaders :=
           [InMemoryTableReader (SSTable (SSTableMetadata 1 2 ''k'' ''k'') [Entry ''k'' ''val'' True])]\<rparr>,
         (LevelManagerImpl 1 ''b/level-1'')\<lparr>lm_tableReaders :=
           [InMemoryTableReader (SSTable (SSTableMetadata 0 1 ''k'' ''k'') [Entry ''k'' ''old'' False])]\<rparr>]\<rparr>
      (fresh_world\<lparr>fs_files := [(''n'', serializeTable Little [Entry ''k'' ''val'' True] 2 1),
                                (''o'', serializeTable Little [Entry ''k'' ''old'' False] 1 0)]\<rparr>) =
    Inr (Some (Entry ''k'' ''old'' False))"
proof -
  let ?e = "[Entry ''k'' ''val'' True]" and ?f = "[Entry ''k'' ''old'' False]"
  let ?w = "fresh_world\<lparr>fs_files := [(''n'', serializeTable Little ?e 2 1), (''o'', serializeTable Little ?f 1 0)]\<rparr>"
  let ?r = "InMemoryTableReader (SSTable (SSTableMetadata 1 2 ''k'' ''k'') ?e)"
  let ?q = "InMemoryTableReader (SSTable (SSTableMetadata 0 1 ''k'' ''k'') ?f)"
  let ?st = "\<lparr>sm_basePath = ''b'', sm_maxLevel = 1, sm_format = InMemory,
    sm_levels = [(LevelManagerImpl 0 ''b/level-0'')\<lparr>lm_tableReaders := [?r]\<rparr>,
      (LevelManagerImpl 1 ''b/level-1'')\<lparr>lm_tableReaders := [?q]\<rparr>]\<rparr>"
  have "table_serves InMemory ?r ''n'' ?e ?w"
    by (rule table_serves_InMemoryI [of _ 1 2]) (simp_all add: entry_fits_def content_def fresh_world_def)
  moreover have "table_serves InMemory ?q ''o'' ?f ?w"
    by (rule table_serves_InMemoryI [of _ 0 1]) (simp_all add: entry_fits_def content_def fresh_world_def)
  ultimately have "storage_serves ?st [[(''n'', ?e)], [(''o'', ?f)]] ?w"
    by (simp add: storage_serves_def level_serves_def)
  then show ?thesis
    using storage_get_first_live [of ?w ?st "[[(''n'', ?e)], [(''o'', ?f)]]" "''k''"]
    by (simp add: fresh_world_def healthy_def)
qed

text \<open>
  C14: setting the levels up from disk.  When every level directory that exists holds only readable
  tables, \<open>initLevels\<close> succeeds with \<open>maxLevel + 1\<close> levels, loads each existing level, creates the
  others empty, and lookups then see all loaded tables.
\<close>

theorem storage_initLevels_loads:
  assumes "healthy w" and "-1 \<le> sm_maxLevel st"
    and "list_directories (sm_basePath st) (mkdir_all (sm_basePath st) w) = Inr ps"
    and "scan_levels (sm_maxLevel st) ps [] = Inr ds"
    and "\<forall>n \<in> {0..sm_maxLevel st}. level_on_disk (sm_format st) (sm_basePath st) ds T n w"
  shows "\<exists>st' w'. storage_initLevels (st, w) = (Inr None, (st', w')) \<and>
    length (sm_levels st') = nat (sm_maxLevel st + 1) \<and>
    (\<forall>k. storage_get k st' w' = Inr (map_option (format_stored (sm_format st)) (first_live k (map T [0..sm_maxLevel st]))))"
proof -
  obtain levels w' where i: "storage_initLevels (st, w) = (Inr None, (st\<lparr>sm_levels := levels\<rparr>, w'))" "same_files w w'"
      and l: "list_all2 (\<lambda>l n. level_serves (sm_format st) l (T n) w' \<and> lm_directoryPath l = level_path (sm_basePath st) n)
        levels [0..sm_maxLevel st]"
    using storage_initLevels_ok [OF assms] by blast
  let ?st = "st\<lparr>sm_levels := levels\<rparr>"
  have "storage_serves ?st (map T [0..sm_maxLevel st]) w'"
    using l by (auto simp: storage_serves_def list_all2_map2 elim!: list_all2_mono)
  then have "storage_get k ?st w' = Inr (map_option (format_stored (sm_format st)) (first_live k (map T [0..sm_maxLevel st])))" for k
    using storage_get_correct [of w' ?st] same_files_healthy [OF i(2)] assms(1) by simp
  moreover have "length levels = nat (sm_maxLevel st + 1)" using list_all2_lengthD [OF l] by simp
  ultimately show ?thesis using i(1) by (intro exI [of _ ?st] exI [of _ w']) simp
qed

theorem storage_initLevels_loads_witness:
  "\<exists>st' w'. storage_initLevels (StorageManagerImpl ''b'' 0 InMemory,
      fresh_world\<lparr>fs_dirs := [''b'', ''b/level-0''],
        fs_files := [(''b/level-0/t'', serializeTable Little [Entry ''k'' ''v'' False] 1 0)]\<rparr>) = (Inr None, (st', w')) \<and>
    storage_get ''k'' st' w' = Inr (Some (Entry ''k'' ''v'' False))"
proof -
  let ?e = "[Entry ''k'' ''v'' False]"
  let ?w = "fresh_world\<lparr>fs_dirs := [''b'', ''b/level-0''], fs_files := [(''b/level-0/t'', serializeTable Little ?e 1 0)]\<rparr>"
  let ?st = "StorageManagerImpl ''b'' 0 InMemory"
  let ?r = "InMemoryTableReader (SSTable (SSTableMetadata 0 1 ''k'' ''k'') ?e)"
  have h: "healthy ?w" by (simp add: fresh_world_def healthy_def)
  have "table_serves InMemory ?r ''b/level-0/t'' ?e ?w"
    by (rule table_serves_InMemoryI [of _ 0 1]) (simp_all add: entry_fits_def content_def fresh_world_def)
  moreover have "level_path ''b'' 0 = ''b/level-0''" by code_simp
  ultimately have "level_on_disk InMemory ''b'' [0] (\<lambda>_. [(''b/level-0/t'', ?e)]) 0 ?w"
    by (auto simp: level_on_disk_def list_files_def is_directory_def child_of_def fresh_world_def)
  moreover have "list_directories ''b'' (mkdir_all ''b'' ?w) = Inr [''b/level-0'']"
    by (simp add: list_directories_def is_directory_def mkdir_all_def create_directories_def path_and_ancestors_def
        child_of_def fresh_world_def)
  moreover have "scan_levels 0 [''b/level-0''] [] = Inr [0]"
    by (simp add: filename_def match_level_def stoi_def decimal_value_def digit_value_def isdigit_def)
  ultimately show ?thesis
    using storage_initLevels_loads [OF h, of ?st "[''b/level-0'']" "[0]" "\<lambda>_. [(''b/level-0/t'', ?e)]"]
    by (auto simp: StorageManagerImpl_def)
qed

text \<open>
  When the base directory cannot be created, \<open>initLevels\<close> reports it, \<open>write\<close> drops the report,
  and the access to level 0 of an empty vector is undefined behaviour.
\<close>

theorem storage_write_without_levels:
  assumes "sm_levels st = []" and "fs_mkdir_error w (sm_basePath st) = Some msg"
  shows "fst (storage_initLevels (st, w)) = Inr (Some (Error (''Failed to create base directory: '' @ msg))) \<and>
    fst (storage_write it (st, c, w)) = Inl (Undefined_behaviour ''m_levelManagers[0]'')"
  using assms
  by (simp add: storage_initLevels_def create_directories_def storage_write_def storage_ensure_levels_def
      sx_bind_def storage_write_level0_def)

theorem storage_write_without_levels_witness:
  "fst (storage_write (Skip_it (skip_list_NewIterator skip_list_empty))
      (StorageManagerImpl ''b'' 3 InMemory, 0, fresh_world\<lparr>fs_mkdir_error := \<lambda>_. Some ''denied''\<rparr>)) =
    Inl (Undefined_behaviour ''m_levelManagers[0]'')"
  using storage_write_without_levels [of "StorageManagerImpl ''b'' 3 InMemory"
      "fresh_world\<lparr>fs_mkdir_error := \<lambda>_. Some ''denied''\<rparr>" "''denied''"]
  by (simp add: StorageManagerImpl_def)

end
