(* ===== verification/WAL.thy ===== *)
theory WAL
  imports Entry Streams Decimal
begin

text \<open>
  The write-ahead log, \<open>src/core/wal\<close>.  Each \<open>append\<close> opens the log file in append mode and writes
  one record (type, key length, value length, key, value; integers in host byte order);
  \<open>getEntries\<close> replays the file up to its end or to the first incomplete record.
\<close>

section \<open>Operations\<close>

record wal =
  w_basePath :: path
  w_id :: u64
  w_fname :: path
  w_fullPath :: path

definition wal_buildFileName :: "u64 \<Rightarrow> path" where
  "wal_buildFileName i = ''wal-'' @ to_string (unat i)"

definition WAL :: "u64 \<Rightarrow> path \<Rightarrow> wal" where
  "WAL i basePath =
     \<lparr>w_basePath = basePath, w_id = i, w_fname = wal_buildFileName i,
      w_fullPath = basePath @ ''/'' @ wal_buildFileName i\<rparr>"

text \<open>
  \<open>WAL::append\<close>.  The lengths are truncated to 32 bits; a tombstone's value is not written.
\<close>

definition wal_type :: "entry \<Rightarrow> char" where
  "wal_type e = (if e_tombstone e then char_of (1::nat) else char_of (0::nat))"

definition wal_klen :: "entry \<Rightarrow> u32" where
  "wal_klen e = of_nat (length (e_key e))"

definition wal_vlen :: "entry \<Rightarrow> u32" where
  "wal_vlen e = (if e_tombstone e then 0 else of_nat (length (e_val e)))"

definition wal_write_header :: "endian \<Rightarrow> entry \<Rightarrow> out \<Rightarrow> out" where
  "wal_write_header en e out =
     owrite (host_bytes en 4 (wal_vlen e)) (owrite (host_bytes en 4 (wal_klen e)) (owrite [wal_type e] out))"

definition wal_write_payload :: "entry \<Rightarrow> out \<Rightarrow> out" where
  "wal_write_payload e out =
     (let out1 = (if wal_klen e \<noteq> 0 then owrite (take (unat (wal_klen e)) (e_key e)) out else out)
      in if \<not> e_tombstone e \<and> wal_vlen e \<noteq> 0
         then owrite (take (unat (wal_vlen e)) (e_val e)) out1 else out1)"

definition wal_append :: "entry \<Rightarrow> wal \<Rightarrow> (world, error option) sx" where
  "wal_append e l =
     sx_bind (create_directories_or_throw (w_basePath l)) (\<lambda>_ w.
       let out = open_append (w_fullPath l) w
       in if \<not> o_good (fst out)
          then (Inr (Some (Error (''open WAL for append failed: '' @ w_fullPath l))), snd out)
          else
            (let out1 = wal_write_header (host_order w) e out
             in if \<not> o_good (fst out1)
                then (Inr (Some (Error ''write WAL header failed'')), snd out1)
                else
                  (let out2 = wal_write_payload e out1
                   in if \<not> o_good (fst out2)
                      then (Inr (Some (Error ''write WAL payload failed'')), snd out2)
                      else
                        (let out3 = oflush out2
                         in if \<not> o_good (fst out3)
                            then (Inr (Some (Error ''flush WAL failed'')), snd out3)
                            else (Inr None, snd out3)))))"

definition wal_remove :: "wal \<Rightarrow> world \<Rightarrow> error option \<times> world" where
  "wal_remove l w =
     (if content w (w_fullPath l) \<noteq> None
      then (case remove_file (w_fullPath l) w of
              (Some msg, w') \<Rightarrow> (Some (Error (''WAL::remove failed: '' @ msg)), w')
            | (None, w') \<Rightarrow> (None, w'))
      else (None, w))"

text \<open>
  One round of the loop of \<open>WAL::getEntries\<close>: the replay stops at the end of the file or at a
  record cut short, gives up (\<open>std::nullopt\<close>) on a hard read error or on a length field above
  \<open>1 << 30\<close>, or takes one entry off the stream.
\<close>

datatype wal_step = Wal_stop | Wal_corrupt | Wal_entry entry istream

definition wal_read_record :: "endian \<Rightarrow> istream \<Rightarrow> wal_step" where
  "wal_read_record en s =
     (let (type, s1) = iread 1 s
      in if \<not> i_good s1 then (if i_eof s1 then Wal_stop else Wal_corrupt)
         else let (kb, s2) = iread 4 s1
         in if \<not> i_good s2 then Wal_stop
            else let (vb, s3) = iread 4 s2
            in if \<not> i_good s3 then Wal_stop
               else let klen = (host_value en kb :: u32); vlen = (host_value en vb :: u32)
               in if klen > push_bit 30 1 \<or> vlen > push_bit 30 1 then Wal_corrupt
                  else let (key, s4) = (if klen \<noteq> 0 then iread (unat klen) s3 else ([], s3))
                  in if \<not> i_good s4 then Wal_stop
                     else let tombstone = (type = [char_of (1::nat)]);
                              (val, s5) = (if \<not> tombstone \<and> vlen \<noteq> 0 then iread (unat vlen) s4 else ([], s4))
                     in if \<not> i_good s5 then Wal_stop
                        else Wal_entry (Entry key val tombstone) s5)"

lemma wal_read_record_progress:
  assumes "wal_read_record en s = Wal_entry e s'"
  shows "i_data s' = i_data s" and "i_pos s < i_pos s'" and "i_pos s < length (i_data s)"
proof -
  obtain type s1 where r1: "iread (Suc 0) s = (type, s1)" by (cases "iread (Suc 0) s")
  obtain kb s2 where r2: "iread 4 s1 = (kb, s2)" by (cases "iread 4 s1")
  obtain vb s3 where r3: "iread 4 s2 = (vb, s3)" by (cases "iread 4 s2")
  define kl vl where "kl = unat (host_value en kb :: u32)" and "vl = unat (host_value en vb :: u32)"
  obtain key s4 where r4: "(if kl \<noteq> 0 then iread kl s3 else ([], s3)) = (key, s4)"
    by (cases "if kl \<noteq> 0 then iread kl s3 else ([], s3)")
  obtain val where r5: "i_good s1" "i_good s2" "i_good s3" "i_good s4" "i_good s'"
      "(if type \<noteq> [char_of (1::nat)] \<and> vl \<noteq> 0 then iread vl s4 else ([], s4)) = (val, s')"
    using assms r4 unfolding kl_def vl_def wal_read_record_def
    by (auto simp: r1 r2 r3 Let_def unat_eq_0 split: if_splits prod.splits)
  have "i_data s3 = i_data s" "i_pos s < i_pos s3" "i_pos s < length (i_data s)"
    using iread_goodD [OF r1 r5(1)] iread_goodD [OF r2 r5(2)] iread_goodD [OF r3 r5(3)] by simp_all
  moreover have "i_data s4 = i_data s3" "i_pos s3 \<le> i_pos s4"
    using r4 r5 iread_goodD(2) [of kl s3 key s4] by (auto split: if_splits)
  moreover have "i_data s' = i_data s4" "i_pos s4 \<le> i_pos s'"
    using r5 iread_goodD(2) [of vl s4 val s'] by (auto split: if_splits)
  ultimately show "i_data s' = i_data s" "i_pos s < i_pos s'" "i_pos s < length (i_data s)"
    by simp_all
qed

function wal_read_loop :: "endian \<Rightarrow> istream \<Rightarrow> entry list \<Rightarrow> entry list option" where
  "wal_read_loop en s entries =
     (case wal_read_record en s of
        Wal_stop \<Rightarrow> Some entries
      | Wal_corrupt \<Rightarrow> None
      | Wal_entry e s' \<Rightarrow> wal_read_loop en s' (entries @ [e]))"
  by pat_completeness auto
termination
proof (relation "measure (\<lambda>(en, s, es). length (i_data s) - i_pos s)", goal_cases)
  case (2 en s entries e s')
  then show ?case using wal_read_record_progress [of en s e s'] by simp
qed simp

declare wal_read_loop.simps [simp del]

definition wal_getEntries :: "wal \<Rightarrow> world \<Rightarrow> entry list option" where
  "wal_getEntries l w =
     (case open_in (w_fullPath l) w of
        None \<Rightarrow> Some []
      | Some s \<Rightarrow> wal_read_loop (host_order w) s [])"

section \<open>The record format\<close>

text \<open>
  What one record looks like on disk, what an entry looks like after a replay (a tombstone loses
  its value), and the size limit the reader puts on a record.
\<close>

definition wal_value :: "entry \<Rightarrow> string" where
  "wal_value e = (if e_tombstone e then [] else e_val e)"

definition wal_header :: "endian \<Rightarrow> entry \<Rightarrow> bytes" where
  "wal_header en e = wal_type e # host_bytes en 4 (wal_klen e) @ host_bytes en 4 (wal_vlen e)"

definition wal_record :: "endian \<Rightarrow> entry \<Rightarrow> bytes" where
  "wal_record en e = wal_header en e @ e_key e @ wal_value e"

definition wal_normal :: "entry \<Rightarrow> entry" where
  "wal_normal e = Entry (e_key e) (wal_value e) (e_tombstone e)"

definition wal_entry_ok :: "entry \<Rightarrow> bool" where
  "wal_entry_ok e \<longleftrightarrow> length (e_key e) \<le> 2 ^ 30 \<and> length (wal_value e) \<le> 2 ^ 30"

definition wal_entry_fits :: "entry \<Rightarrow> bool" where
  "wal_entry_fits e \<longleftrightarrow> length (e_key e) < 2 ^ 32 \<and> length (wal_value e) < 2 ^ 32"

lemma wal_entry_ok_fits: "wal_entry_ok e \<Longrightarrow> wal_entry_fits e"
  by (simp add: wal_entry_ok_def wal_entry_fits_def)

lemma wal_type_tombstone [simp]: "wal_type e = char_of (Suc 0) \<longleftrightarrow> e_tombstone e"
  by (simp add: wal_type_def char_of_eq_iff)

lemma wal_vlen_value: "wal_vlen e = of_nat (length (wal_value e))"
  by (simp add: wal_vlen_def wal_value_def)

lemma wal_lens:
  assumes "wal_entry_fits e"
  shows "unat (wal_klen e) = length (e_key e)" and "wal_klen e = 0 \<longleftrightarrow> e_key e = []"
    and "unat (wal_vlen e) = length (wal_value e)" and "wal_vlen e = 0 \<longleftrightarrow> wal_value e = []"
  using assms unat_u32_len [of "length (e_key e)"] u32_len_0 [of "length (e_key e)"]
    unat_u32_len [of "length (wal_value e)"] u32_len_0 [of "length (wal_value e)"]
  by (auto simp: wal_klen_def wal_vlen_value wal_entry_fits_def)

lemma wal_lens_limit:
  assumes "wal_entry_fits e"
  shows "wal_klen e > push_bit 30 1 \<or> wal_vlen e > push_bit 30 1 \<longleftrightarrow> \<not> wal_entry_ok e"
  using wal_lens [OF assms] by (simp add: word_less_nat_alt wal_entry_ok_def not_le)

lemma length_wal_header [simp]: "length (wal_header en e) = 9"
  by (simp add: wal_header_def)

lemma length_wal_record: "length (wal_record en e) = 9 + length (e_key e) + length (wal_value e)"
  by (simp add: wal_record_def)

section \<open>Appending\<close>

lemma wal_file_name_no_slash [simp]: "CHR ''/'' \<notin> set (wal_buildFileName i)"
  by (simp add: wal_buildFileName_def)

lemma wal_paths [simp]: "w_basePath (WAL i base) = base"
  by (simp add: WAL_def)

lemma wal_can_create:
  assumes "fs_mkdir_error w base = None" and "fs_openable w (w_fullPath (WAL i base))"
  shows "can_create (w_fullPath (WAL i base)) (mkdir_all base w)"
  using assms mkdir_ok(2) [OF assms(1)] parent_path_append [OF wal_file_name_no_slash, of base i]
  by (simp add: can_create_def WAL_def)

lemma wal_write_header_eq: "wal_write_header en e out = owrite (wal_header en e) out"
  by (simp add: wal_write_header_def owrite_append wal_header_def)

lemma wal_write_payload_eq:
  assumes "wal_entry_fits e" and "content (snd out) (o_path (fst out)) \<noteq> None"
  shows "wal_write_payload e out = owrite (e_key e @ wal_value e) out"
proof -
  let ?out1 = "if wal_klen e \<noteq> 0 then owrite (take (unat (wal_klen e)) (e_key e)) out else out"
  have "?out1 = owrite (e_key e) out"
    using assms wal_lens [OF assms(1)] by (simp add: owrite_Nil)
  then show ?thesis
    using wal_lens [OF assms(1)] assms(2)
    by (auto simp: wal_write_payload_def Let_def owrite_append wal_value_def split: if_splits)
qed

text \<open>Whatever the device accepts, an append is one write of the record, and is reported as such.\<close>

lemma wal_append_write:
  assumes "fs_mkdir_error w base = None" and "fs_openable w (w_fullPath (WAL i base))"
    and fits: "wal_entry_fits e"
  defines "p \<equiv> w_fullPath (WAL i base)"
  defines "out0 \<equiv> (\<lparr>o_path = p, o_good = True\<rparr>, set_file p (old_content p w) (mkdir_all base w))"
  defines "out \<equiv> owrite (wal_record (host_order w) e) out0"
  shows "\<exists>msg. wal_append e (WAL i base) w =
    (Inr (if o_good (fst out) then None else Some (Error msg)), snd out)"
proof -
  let ?h = "owrite (wal_header (host_order w) e) out0"
  have opn: "open_append p (mkdir_all base w) = out0"
    using wal_can_create [OF assms(1,2)] by (simp add: open_append_ok p_def out0_def old_content_def)
  have out: "out = owrite (e_key e @ wal_value e) ?h"
    by (simp add: out_def owrite_append wal_record_def)
  have g: "o_good (fst out0)" and "content (snd out0) (o_path (fst out0)) \<noteq> None"
    by (simp_all add: out0_def)
  then have pay: "wal_write_payload e ?h = out"
    unfolding out by (intro wal_write_payload_eq [OF fits] owrite_content)
  show ?thesis
  proof (cases "o_good (fst ?h)")
    case False
    then show ?thesis
      by (simp add: wal_append_def oflush_def sx_simps mkdir_ok(1) [OF assms(1)] Let_def opn
          wal_write_header_eq g p_def [symmetric] out owrite_stuck)
  next
    case True
    then show ?thesis
      by (simp add: wal_append_def oflush_def sx_simps mkdir_ok(1) [OF assms(1)] Let_def opn
          wal_write_header_eq g p_def [symmetric] pay)
  qed
qed

section \<open>Replaying\<close>

text \<open>
  One round of the replay over a file that holds the first \<open>n\<close> bytes of a record: the whole record
  is taken off the stream, and a record cut short ends the replay.
\<close>

lemma wal_read_record_prefix:
  assumes s: "i_data s = pre @ take n (wal_record en e @ post)" "i_pos s = length pre" "i_good s" "i_bad s = None"
    and n: "n \<le> length (wal_record en e @ post)" and fits: "wal_entry_fits e"
  shows "wal_read_record en s =
    (if n < 9 then Wal_stop
     else if \<not> wal_entry_ok e then Wal_corrupt
     else if n < length (wal_record en e) then Wal_stop
     else Wal_entry (wal_normal e) (s\<lparr>i_pos := length pre + length (wal_record en e)\<rparr>))"
proof -
  let ?r = "wal_record en e @ post"
  have parts: "take (Suc 0) ?r = [wal_type e]" "take 4 (drop (Suc 0) ?r) = host_bytes en 4 (wal_klen e)"
      "take 4 (drop 5 ?r) = host_bytes en 4 (wal_vlen e)" "take (length (e_key e)) (drop 9 ?r) = e_key e"
      "take (length (wal_value e)) (drop (9 + length (e_key e)) ?r) = wal_value e"
    by (simp_all add: wal_record_def wal_header_def drop_Cons')
  have rd: "iread k (s\<lparr>i_pos := length pre + j\<rparr>) =
    (if j + k \<le> n then (take k (drop j ?r), s\<lparr>i_pos := length pre + (j + k)\<rparr>)
     else (drop (length pre + j) (i_data s), s\<lparr>i_pos := length pre + j, i_good := False, i_eof := True\<rparr>))"
    if "0 < k" for j k
    using s n that iread_slice [of "s\<lparr>i_pos := length pre + j\<rparr>" pre n ?r j k] by simp
  have r1: "iread (Suc 0) s = (if 0 < n then ([wal_type e], s\<lparr>i_pos := length pre + 1\<rparr>)
      else (drop (length pre) (i_data s), s\<lparr>i_good := False, i_eof := True\<rparr>))"
    using iread_slice [of s pre n ?r 0 "Suc 0"] s n parts(1) by (simp add: Suc_le_eq)
  have r2: "iread 4 (s\<lparr>i_pos := Suc (length pre)\<rparr>) =
      (if 5 \<le> n then (host_bytes en 4 (wal_klen e), s\<lparr>i_pos := length pre + 5\<rparr>)
       else (drop (length pre + 1) (i_data s), s\<lparr>i_pos := Suc (length pre), i_good := False, i_eof := True\<rparr>))"
    using rd [of 4 1] parts(2) by simp
  have r3: "iread 4 (s\<lparr>i_pos := length pre + 5\<rparr>) =
      (if 9 \<le> n then (host_bytes en 4 (wal_vlen e), s\<lparr>i_pos := length pre + 9\<rparr>)
       else (drop (length pre + 5) (i_data s), s\<lparr>i_pos := length pre + 5, i_good := False, i_eof := True\<rparr>))"
    using rd [of 4 5] parts(3) by simp
  have tomb: "e_tombstone e \<Longrightarrow> wal_value e = []"
    by (simp add: wal_value_def)
  show ?thesis
    using s wal_lens [OF fits] wal_lens_limit [OF fits] tomb parts(4,5)
    by (auto simp: wal_read_record_def r1 r2 r3 rd Let_def length_wal_record wal_normal_def add.assoc)
qed

lemma wal_read_loop_records:
  assumes "i_data s = pre @ concat (map (wal_record en) es) @ post" and "i_pos s = length pre"
    and "i_good s" and "i_bad s = None" and "\<forall>e \<in> set es. wal_entry_ok e"
  shows "wal_read_loop en s acc =
    wal_read_loop en (s\<lparr>i_pos := length (pre @ concat (map (wal_record en) es))\<rparr>) (acc @ map wal_normal es)"
  using assms
proof (induction es arbitrary: s pre acc)
  case Nil
  then have "s\<lparr>i_pos := length pre\<rparr> = s" by simp
  then show ?case by simp
next
  case (Cons e es)
  let ?t = "s\<lparr>i_pos := length (pre @ wal_record en e)\<rparr>"
  let ?rest = "concat (map (wal_record en) es) @ post"
  have "wal_read_record en s = Wal_entry (wal_normal e) ?t"
    using Cons.prems wal_read_record_prefix [of s pre "length (wal_record en e @ ?rest)" en e ?rest]
      wal_entry_ok_fits [of e]
    by (simp add: length_wal_record)
  then have "wal_read_loop en s acc = wal_read_loop en ?t (acc @ [wal_normal e])"
    by (subst wal_read_loop.simps) simp
  also have "\<dots> = wal_read_loop en
      (?t\<lparr>i_pos := length ((pre @ wal_record en e) @ concat (map (wal_record en) es))\<rparr>)
      ((acc @ [wal_normal e]) @ map wal_normal es)"
    using Cons.prems by (intro Cons.IH) simp_all
  finally show ?case by simp
qed

text \<open>The contents of a log: complete records, then possibly the first bytes of one more.\<close>

lemma wal_getEntries_prefix:
  assumes "fs_openable w (w_fullPath l)" and "fs_bad w (w_fullPath l) = None"
    and "content w (w_fullPath l) =
      Some (concat (map (wal_record (host_order w)) es) @ take n (wal_record (host_order w) e))"
    and es: "\<forall>e \<in> set es. wal_entry_ok e" and e: "wal_entry_ok e"
  shows "wal_getEntries l w =
    Some (map wal_normal (if n < length (wal_record (host_order w) e) then es else es @ [e]))"
proof -
  let ?en = "host_order w"
  let ?r = "wal_record ?en"
  let ?s = "\<lparr>i_data = concat (map ?r es) @ take n (?r e), i_pos = 0, i_good = True, i_eof = False, i_bad = None\<rparr>"
  let ?m = "min n (length (?r e))"
  have open_log: "open_in (w_fullPath l) w = Some ?s"
    using assms(1-3) by (simp add: open_in_def)
  show ?thesis
  proof (cases "n < length (?r e)")
    case True
    let ?t = "?s\<lparr>i_pos := length (concat (map ?r es))\<rparr>"
    have "wal_read_record ?en ?t = Wal_stop"
      using True wal_read_record_prefix [of ?t "concat (map ?r es)" n ?en e "[]"] e wal_entry_ok_fits [OF e]
      by simp
    then have "wal_read_loop ?en ?t (map wal_normal es) = Some (map wal_normal es)"
      by (subst wal_read_loop.simps) simp
    then show ?thesis
      using True es wal_read_loop_records [of ?s "[]" ?en es "take n (?r e)" "[]"]
      by (simp add: wal_getEntries_def open_log)
  next
    case False
    let ?t = "?s\<lparr>i_pos := length (concat (map ?r (es @ [e])))\<rparr>"
    have "wal_read_record ?en ?t = Wal_stop"
      using iread_short [of ?t "Suc 0"] by (simp add: wal_read_record_def Let_def)
    then have "wal_read_loop ?en ?t (map wal_normal (es @ [e])) = Some (map wal_normal (es @ [e]))"
      by (subst wal_read_loop.simps) simp
    then show ?thesis
      using False es e wal_read_loop_records [of ?s "[]" ?en "es @ [e]" "[]" "[]"]
      by (simp add: wal_getEntries_def open_log)
  qed
qed

section \<open>Durability\<close>

lemma wal_append_healthy:
  fixes i :: u64 and base :: path
  assumes "healthy w" and "wal_entry_fits e"
  defines "p \<equiv> w_fullPath (WAL i base)"
  shows "wal_append e (WAL i base) w =
    (Inr None, set_file p (old_content p w @ wal_record (host_order w) e) (mkdir_all base w))"
  using wal_append_write [of w base i e] assms by (auto simp: healthy_def owrite_ok p_def)

text \<open>A run of appends.\<close>

fun wal_append_all :: "entry list \<Rightarrow> wal \<Rightarrow> world \<Rightarrow> world" where
  "wal_append_all [] l w = w"
| "wal_append_all (e # es) l w = wal_append_all es l (snd (wal_append e l w))"

lemma wal_append_all_content:
  fixes i :: u64 and base :: path
  assumes "healthy w" and "\<forall>e \<in> set es. wal_entry_fits e"
  defines "l \<equiv> WAL i base"
  shows "healthy (wal_append_all es l w) \<and> host_order (wal_append_all es l w) = host_order w \<and>
    old_content (w_fullPath l) (wal_append_all es l w) =
      old_content (w_fullPath l) w @ concat (map (wal_record (host_order w)) es)"
  using assms(1,2)
proof (induction es arbitrary: w)
  case (Cons e es)
  have step: "wal_append e l w = (Inr None, set_file (w_fullPath l)
      (old_content (w_fullPath l) w @ wal_record (host_order w) e) (mkdir_all base w))"
    using Cons.prems unfolding l_def by (intro wal_append_healthy) simp_all
  show ?case
    using Cons.IH [of "snd (wal_append e l w)"] Cons.prems by (simp add: step old_content_def)
qed simp

text \<open>A log that holds complete records replays to them.\<close>

lemma wal_getEntries_records:
  assumes "healthy w" and "old_content (w_fullPath l) w = concat (map (wal_record (host_order w)) es)"
    and "\<forall>e \<in> set es. wal_entry_ok e"
  shows "wal_getEntries l w = Some (map wal_normal es)"
proof (cases es rule: rev_cases)
  case Nil
  show ?thesis
  proof (cases "content w (w_fullPath l)")
    case None
    then show ?thesis using Nil by (simp add: wal_getEntries_def open_in_def)
  next
    case (Some d)
    then have "d = []" using assms(2) Nil by (simp add: old_content_def)
    then show ?thesis
      using Some Nil assms(1)
      by (simp add: wal_getEntries_def open_in_def healthy_def wal_read_loop.simps wal_read_record_def iread_def
          readable_end_def)
  qed
next
  case (snoc es' e)
  let ?r = "wal_record (host_order w) e"
  have "content w (w_fullPath l) = Some (concat (map (wal_record (host_order w)) es') @ take (length ?r) ?r)"
    using assms(2) snoc length_wal_record [of "host_order w" e] by (auto simp: old_content_def split: option.splits)
  then show ?thesis
    using snoc assms(1,3) wal_getEntries_prefix [of w l es' "length ?r" e] by (simp add: healthy_def)
qed

text \<open>
  C8: on a healthy system the log returns what was appended: after any run of appends to a log
  that does not exist yet, \<open>getEntries\<close> returns the appended entries in order (a tombstone comes
  back without its value), for all entries within the reader's size limit.
\<close>

theorem wal_replay_returns_appended:
  assumes "healthy w" and "content w (w_fullPath (WAL i base)) = None" and "\<forall>e \<in> set es. wal_entry_ok e"
  shows "wal_getEntries (WAL i base) (wal_append_all es (WAL i base) w) = Some (map wal_normal es)"
proof -
  let ?w = "wal_append_all es (WAL i base) w"
  have "healthy ?w" "old_content (w_fullPath (WAL i base)) ?w = concat (map (wal_record (host_order ?w)) es)"
    using wal_append_all_content [of w es i base] assms wal_entry_ok_fits by (auto simp: old_content_def)
  then show ?thesis using assms(3) by (rule wal_getEntries_records)
qed

theorem wal_replay_returns_appended_witness:
  "wal_getEntries (WAL 0 ''./wal'')
     (wal_append_all [Entry ''k'' ''v'' False, Entry ''k'' ''val'' True] (WAL 0 ''./wal'') fresh_world)
   = Some [Entry ''k'' ''v'' False, Entry ''k'' [] True]"
  using wal_replay_returns_appended [of fresh_world 0 "''./wal''"
      "[Entry ''k'' ''v'' False, Entry ''k'' ''val'' True]"]
  by (simp add: wal_entry_ok_def wal_value_def wal_normal_def)

text \<open>
  C7: on a log that so far holds only complete records, all within the limit of \<open>2 ^ 30\<close> bytes the
  reader puts on keys and values, appending one more entry within that limit is atomic for the replay,
  also when the device stops accepting bytes in the middle of it: it reports success exactly when the
  replay sees the new entry, and otherwise the log still replays as before.  Both conditions are
  needed: the next lemma shows what happens after a record that was cut short, and the theorem after it
  what an entry above the limit does.
\<close>

theorem wal_append_crash_safe:
  assumes "fs_mkdir_error w base = None" and "fs_openable w (w_fullPath (WAL i base))"
    and "fs_bad w (w_fullPath (WAL i base)) = None"
    and "old_content (w_fullPath (WAL i base)) w = concat (map (wal_record (host_order w)) es)"
    and "\<forall>e \<in> set es. wal_entry_ok e" and "wal_entry_ok e"
  shows "\<exists>r w'. wal_append e (WAL i base) w = (Inr r, w') \<and>
    wal_getEntries (WAL i base) w' = Some (map wal_normal (if r = None then es @ [e] else es))"
proof -
  let ?p = "w_fullPath (WAL i base)"
  let ?r = "wal_record (host_order w) e"
  let ?d = "concat (map (wal_record (host_order w)) es)"
  let ?out = "owrite ?r (\<lparr>o_path = ?p, o_good = True\<rparr>, set_file ?p ?d (mkdir_all base w))"
  obtain msg where a: "wal_append e (WAL i base) w =
      (Inr (if o_good (fst ?out) then None else Some (Error msg)), snd ?out)"
    using wal_append_write [OF assms(1,2) wal_entry_ok_fits [OF assms(6)]] assms(4) by auto
  define n where "n = (case fs_quota w ?p of None \<Rightarrow> length ?r | Some q \<Rightarrow> q - length ?d)"
  have "content (snd ?out) ?p = Some (?d @ take n ?r)" and g: "o_good (fst ?out) \<longleftrightarrow> \<not> n < length ?r"
      and frame: "host_order (snd ?out) = host_order w" "fs_openable (snd ?out) ?p" "fs_bad (snd ?out) ?p = None"
    using assms(2,3) by (auto simp: owrite_def Let_def n_def not_less split: option.splits)
  then have "wal_getEntries (WAL i base) (snd ?out) = Some (map wal_normal (if n < length ?r then es else es @ [e]))"
    using wal_getEntries_prefix [of "snd ?out" "WAL i base" es n e] assms(5,6) by simp
  then show ?thesis
    using a g by auto
qed

theorem wal_append_crash_safe_witness:
  "\<exists>r w'. wal_append (Entry ''key'' ''value'' False) (WAL 0 ''./wal'') (fresh_world\<lparr>fs_quota := (\<lambda>_. Some 11)\<rparr>)
     = (Inr r, w') \<and>
   wal_getEntries (WAL 0 ''./wal'') w' =
     Some (map wal_normal (if r = None then [] @ [Entry ''key'' ''value'' False] else []))"
  using wal_append_crash_safe [of "fresh_world\<lparr>fs_quota := (\<lambda>_. Some 11)\<rparr>" "''./wal''" 0 "[]" "Entry ''key'' ''value'' False"]
  by (simp add: old_content_def content_def fresh_world_def wal_entry_ok_def wal_value_def)

text \<open>
  An append that was cut short is not cleaned up, and the next one goes behind what it left.  In
  the log below a record was cut after eleven of its seventeen bytes and another entry was then
  appended with success: the replay takes bytes of the second record for the rest of the first, and
  returns an entry that nobody wrote.
\<close>

lemma wal_torn_append_corrupts_next:
  "let l = WAL 0 ''./wal'';
       (r1, w1) = wal_append (Entry ''key'' ''value'' False) l (fresh_world\<lparr>fs_quota := (\<lambda>_. Some 11)\<rparr>);
       (r2, w2) = wal_append (Entry ''k'' ''v'' False) l (w1\<lparr>fs_quota := (\<lambda>_. None)\<rparr>)
   in r1 = Inr (Some (Error ''write WAL payload failed'')) \<and> r2 = Inr None \<and>
      wal_getEntries l w2 =
        Some [Entry [CHR ''k'', CHR ''e'', CHR 0x00] [CHR 0x01, CHR 0x00, CHR 0x00, CHR 0x00, CHR 0x01] False]"
  by code_simp

text \<open>
  C31: the writer does not enforce the reader's limit: an entry whose key or value is longer than
  \<open>2 ^ 30\<close> bytes (and shorter than \<open>2 ^ 32\<close>) is appended successfully, after which
  \<open>getEntries\<close> refuses the whole log, the earlier entries included.
\<close>

theorem wal_oversized_entry_spoils_log:
  assumes "healthy w" and "old_content (w_fullPath (WAL i base)) w = concat (map (wal_record (host_order w)) es)"
    and "\<forall>e \<in> set es. wal_entry_ok e" and "wal_entry_fits e" and "\<not> wal_entry_ok e"
  shows "\<exists>w'. wal_append e (WAL i base) w = (Inr None, w') \<and> wal_getEntries (WAL i base) w' = None"
proof -
  let ?p = "w_fullPath (WAL i base)"
  let ?en = "host_order w"
  let ?d = "concat (map (wal_record ?en) es)"
  let ?w = "set_file ?p (?d @ wal_record ?en e) (mkdir_all base w)"
  let ?s = "\<lparr>i_data = ?d @ wal_record ?en e, i_pos = 0, i_good = True, i_eof = False, i_bad = None\<rparr>"
  let ?t = "?s\<lparr>i_pos := length ?d\<rparr>"
  have a: "wal_append e (WAL i base) w = (Inr None, ?w)"
    using wal_append_healthy [OF assms(1,4)] assms(2) by simp
  have "wal_read_record ?en ?t = Wal_corrupt"
    using wal_read_record_prefix [of ?t ?d "length (wal_record ?en e)" ?en e "[]"] assms(4,5)
    by (simp add: length_wal_record)
  then have "wal_read_loop ?en ?t (map wal_normal es) = None"
    by (subst wal_read_loop.simps) simp
  moreover have "open_in ?p ?w = Some ?s"
    using assms(1) by (simp add: open_in_def healthy_def)
  ultimately have "wal_getEntries (WAL i base) ?w = None"
    using assms(3) wal_read_loop_records [of ?s "[]" ?en es "wal_record ?en e" "[]"]
    by (simp add: wal_getEntries_def)
  with a show ?thesis by blast
qed

theorem wal_oversized_entry_spoils_log_witness:
  "\<exists>w'. wal_append (Entry (replicate (2 ^ 30 + 1) CHR ''k'') ''v'' False) (WAL 0 ''./wal'') fresh_world = (Inr None, w') \<and>
     wal_getEntries (WAL 0 ''./wal'') w' = None"
  using wal_oversized_entry_spoils_log [of fresh_world 0 "''./wal''" "[]"
      "Entry (replicate (2 ^ 30 + 1) CHR ''k'') ''v'' False"]
  by (simp add: old_content_def wal_entry_ok_def wal_entry_fits_def wal_value_def)

end
