(* ===== verification/Mem_Table.thy ===== *)
theory Mem_Table
  imports Storage_Manager WAL
begin

text \<open>
  \<open>MemTableImpl\<close> (\<open>src/core/mem_table\<close>): writes go to the log and then to the skip list; a full skip
  list is first written out as a table of level 0.  The record holds the memtable's own fields and
  the components it refers to, all owned by \<open>DbImpl\<close>.
\<close>

section \<open>State\<close>

record db =
  db_size :: int
  db_readOnly :: bool
  db_skiplist :: skip_list
  db_storage :: storage
  db_wal :: wal
  db_next_file :: u64
  db_world :: world

section \<open>Operations\<close>

definition mem_isReadOnly :: "db \<Rightarrow> bool" where
  "mem_isReadOnly s = db_readOnly s"

definition mem_get :: "string \<Rightarrow> db \<Rightarrow> entry option" where
  "mem_get key s = skip_list_get key (db_skiplist s)"

text \<open>Calls into the components.\<close>

definition call_storage :: "(storage_state, 'a) sx \<Rightarrow> (db, 'a) sx" where
  "call_storage m s =
     (case m (db_storage s, db_next_file s, db_world s) of
        (r, (st, c, w)) \<Rightarrow> (r, s\<lparr>db_storage := st, db_next_file := c, db_world := w\<rparr>))"

definition call_wal_append :: "entry \<Rightarrow> (db, error option) sx" where
  "call_wal_append e s =
     (case wal_append e (db_wal s) (db_world s) of (r, w) \<Rightarrow> (r, s\<lparr>db_world := w\<rparr>))"

definition call_wal_remove :: "(db, error option) sx" where
  "call_wal_remove s = (case wal_remove (db_wal s) (db_world s) of (r, w) \<Rightarrow> (Inr r, s\<lparr>db_world := w\<rparr>))"

definition set_entry :: "entry \<Rightarrow> db \<Rightarrow> db" where
  "set_entry e s = s\<lparr>db_skiplist := snd (skip_list_set e (db_skiplist s))\<rparr>"

definition mem_flushToDisk :: "(db, error option) sx" where
  "mem_flushToDisk s0 =
     (let s = s0\<lparr>db_readOnly := True\<rparr>
      in sx_bind (call_storage (storage_write (Skip_it (skip_list_NewIterator (db_skiplist s))))) (\<lambda>errOpt.
           if errOpt \<noteq> None then sx_return errOpt
           else
             sx_bind call_wal_remove (\<lambda>err.
               if err \<noteq> None then sx_return err
               else (\<lambda>s. (Inr None, s\<lparr>db_skiplist := snd (skip_list_clear (db_skiplist s)), db_readOnly := False\<rparr>)))) s)"

text \<open>The guard of \<open>put\<close> and \<open>del\<close>: a full memtable is flushed first.\<close>

definition mem_flush_if_full :: "(db, error option) sx" where
  "mem_flush_if_full s =
     (if skip_list_getLength (db_skiplist s) = Some (db_size s)
      then mem_flushToDisk (s\<lparr>db_readOnly := True\<rparr>) else (Inr None, s))"

definition mem_put :: "string \<Rightarrow> string \<Rightarrow> (db, error option) sx" where
  "mem_put key val s =
     (if mem_isReadOnly s
      then (Inr (Some (Error ''[MemTableImpl.put()] Cannot PUT: memtable in read-only mode'')), s)
      else
        sx_bind mem_flush_if_full (\<lambda>errOpt.
          if errOpt \<noteq> None
          then sx_return (Some (Error ''[MemTableImpl.put()] Failed to PUT: Flushing error ''))
          else
            sx_bind (call_wal_append (Entry key val False)) (\<lambda>err.
              if err \<noteq> None
              then sx_return (Some (Error ''MemTableImpl.put()] Failed to PUT: Failed to write to WAL''))
              else (\<lambda>s. (Inr None, set_entry (Entry key val False) s)))) s)"

definition mem_del :: "string \<Rightarrow> (db, error option) sx" where
  "mem_del key s =
     (case (if mem_get key s = None
            then rbind (storage_get key (db_storage s) (db_world s)) (\<lambda>e. Inr (e = None)) else Inr False) of
        Inl ex \<Rightarrow> (Inl ex, s)
      | Inr True \<Rightarrow> (Inr (Some (Error ''Cannot DELETE: key does not exist'')), s)
      | Inr False \<Rightarrow>
          if mem_isReadOnly s
          then (Inr (Some (Error ''Cannot DELETE: memtable in read-only mode'')), s)
          else
            sx_bind mem_flush_if_full (\<lambda>errOpt.
              if errOpt \<noteq> None
              then sx_return (Some (Error ''[MemTableImpl.put()] Failed to DELETE: Flushing error ''))
              else
                sx_bind (call_wal_append (Entry key ''val'' True)) (\<lambda>err.
                  if err \<noteq> None
                  then sx_return (Some (Error ''MemTableImpl.put()] Failed to PUT: Failed to write to WAL''))
                  else (\<lambda>s. let s' = set_entry (Entry key ''val'' True) s
                        in if skip_list_getLength (db_skiplist s') = None
                           then (Inr (Some (Error ''Failed to DELETE'')), s')
                           else (Inr None, s')))) s)"

text \<open>
  The loop of \<open>replayWal\<close>: the result of a flush in the middle is not looked at.
\<close>

fun mem_replay_entries :: "entry list \<Rightarrow> (db, unit) sx" where
  "mem_replay_entries [] s = (Inr (), s)"
| "mem_replay_entries (e # es) s =
     sx_bind (if skip_list_getLength (db_skiplist s) = Some (db_size s) then mem_flushToDisk else sx_return None)
       (\<lambda>_ s. mem_replay_entries es (set_entry e s)) s"

definition mem_replayWal :: "(db, error option) sx" where
  "mem_replayWal s0 =
     (let s = s0\<lparr>db_readOnly := True\<rparr>
      in case wal_getEntries (db_wal s0) (db_world s0) of
           None \<Rightarrow> (Inl Bad_optional_access, s)
         | Some entries \<Rightarrow>
             sx_bind (mem_replay_entries entries) (\<lambda>_.
             sx_bind (\<lambda>s. if (case skip_list_getLength (db_skiplist s) of None \<Rightarrow> False | Some n \<Rightarrow> n > 0)
                          then mem_flushToDisk s else (Inr None, s)) (\<lambda>err.
               if err \<noteq> None
               then sx_return (Some (Error ''[MemTableImpl.replayWal()] Failed to replay WAL: Flushing error ''))
               else
                 sx_bind call_wal_remove (\<lambda>_ s. (Inr None, s\<lparr>db_readOnly := False\<rparr>)))) s)"

section \<open>Sizes\<close>

lemma entry_small_wal: "entry_small e \<Longrightarrow> wal_entry_ok e"
  by (simp add: entry_small_def wal_entry_ok_def wal_value_def)

lemma format_fits_bound:
  assumes "es \<noteq> []" and "length es \<le> 2 ^ 20" and "\<forall>e \<in> set es. entry_small e"
  shows "format_fits fmt es"
proof (cases fmt)
  case InMemory
  have "entry_fits e" if "e \<in> set es" for e
    using assms(3) that by (fastforce simp: entry_small_def entry_fits_def)
  then show ?thesis using InMemory assms(1,2) by simp
qed (use table_fits_bound [OF assms] in simp)

section \<open>The invariant\<close>

text \<open>
  The log holds one record per write since the last flush, and the skip list is the result of these
  writes.
\<close>

definition wal_matches :: "db \<Rightarrow> bool" where
  "wal_matches s \<longleftrightarrow>
     (\<exists>es. old_content (w_fullPath (db_wal s)) (db_world s) = concat (map (wal_record (host_order (db_world s))) es) \<and>
        (\<forall>e \<in> set es. entry_small e) \<and>
        db_skiplist s = fold (\<lambda>e m. snd (skip_list_set e m)) es skip_list_empty)"

text \<open>
  A configuration in which the log directory is not one the storage manager scans, with a usable
  memtable capacity.
\<close>

definition db_config_ok :: "db \<Rightarrow> bool" where
  "db_config_ok s \<longleftrightarrow>
     1 \<le> db_size s \<and> db_size s \<le> 2 ^ 20 \<and>
     (\<exists>i base. db_wal s = WAL i base \<and>
        (\<forall>d \<in> set (path_and_ancestors base). \<not> child_of (sm_basePath (db_storage s)) d))"

definition memtable_ok :: "db \<Rightarrow> bool" where
  "memtable_ok s \<longleftrightarrow>
     skip_list_inv (db_skiplist s) \<and> int (length (m_map (db_skiplist s))) \<le> db_size s \<and>
     (\<forall>x \<in> set (m_map (db_skiplist s)). entry_small (snd x)) \<and> \<not> db_readOnly s"

text \<open>
  The invariant; the flag says whether the log is known to match the memtable, which is not so when
  the store was started on a log that was never replayed.
\<close>

definition db_inv :: "bool \<Rightarrow> nat \<Rightarrow> tables \<Rightarrow> db \<Rightarrow> bool" where
  "db_inv lg n ts s \<longleftrightarrow>
     healthy (db_world s) \<and> db_config_ok s \<and> memtable_ok s \<and> (lg \<longrightarrow> wal_matches s) \<and>
     storage_inv (db_storage s) n ts (db_world s)"

lemma db_inv_weaken: "db_inv True n ts s \<Longrightarrow> db_inv lg n ts s"
  by (simp add: db_inv_def)

text \<open>
  Everything a client can see of the store: the memtable before the tables, tombstones hiding what
  is behind them.
\<close>

definition db_view :: "db \<Rightarrow> string \<Rightarrow> string option" where
  "db_view s k =
     (case mem_get k s of
        Some e \<Rightarrow> if e_tombstone e then None else Some (e_val e)
      | None \<Rightarrow> (case storage_get k (db_storage s) (db_world s) of Inl _ \<Rightarrow> None | Inr x \<Rightarrow> map_option e_val x))"

lemma db_inv_storage_get:
  assumes "db_inv lg n ts s"
  shows "storage_get k (db_storage s) (db_world s) =
    Inr (map_option (format_stored (sm_format (db_storage s))) (live (newest k (map snd ts))))"
  using storage_inv_get assms unfolding db_inv_def by blast

lemma stored_val_live: "map_option (\<lambda>e. e_val (format_stored fmt e)) (live x) = map_option e_val (live x)"
  by (auto simp: live_def tf.stored_value split: option.splits)

lemma db_inv_view:
  assumes "db_inv lg n ts s"
  shows "db_view s k =
    (case mem_get k s of
       Some e \<Rightarrow> if e_tombstone e then None else Some (e_val e)
     | None \<Rightarrow> map_option e_val (live (newest k (map snd ts))))"
  using db_inv_storage_get [OF assms, of k]
  by (simp add: db_view_def option.map_comp o_def stored_val_live split: option.splits)

section \<open>Flushing\<close>

lemma filename_append: "CHR ''/'' \<notin> set n \<Longrightarrow> filename (d @ ''/'' @ n) = n"
proof -
  assume n: "CHR ''/'' \<notin> set n"
  have "takeWhile (\<lambda>c. c \<noteq> CHR ''/'') (rev n @ CHR ''/'' # rev d) = rev n"
    by (rule takeWhile_append_stop) (use n in auto)
  then show ?thesis by (simp add: filename_def)
qed

text \<open>The log is never one of the tables: its file name starts differently.\<close>

lemma wal_path_not_table:
  assumes "table_name_with n name"
  shows "w_fullPath (WAL i base) \<noteq> dir @ ''/'' @ name"
proof
  assume "w_fullPath (WAL i base) = dir @ ''/'' @ name"
  then have "filename (base @ ''/'' @ wal_buildFileName i) = filename (dir @ ''/'' @ name)" by (simp add: WAL_def)
  then have "wal_buildFileName i = name"
    using filename_append [OF wal_file_name_no_slash] filename_append [OF table_name_no_slash [OF assms]] by simp
  then show False using assms by (auto simp: table_name_with_def wal_buildFileName_def)
qed

lemma wal_path_not_in_tables:
  assumes "level_paths dir n ts"
  shows "w_fullPath (WAL i base) \<notin> fst ` set ts"
proof
  assume "w_fullPath (WAL i base) \<in> fst ` set ts"
  then obtain m name where "w_fullPath (WAL i base) = dir @ ''/'' @ name" "table_name_with m name"
    using assms by (fastforce simp: level_paths_def)
  then show False using wal_path_not_table by blast
qed

lemma wal_remove_ok:
  assumes "healthy w"
  shows "\<exists>w'. wal_remove l w = (None, w') \<and> content w' (w_fullPath l) = None \<and> evolves (w_fullPath l) w w' \<and>
    (\<forall>d. is_directory w' d = is_directory w d)"
proof (cases "content w (w_fullPath l)")
  case None
  then show ?thesis by (simp add: wal_remove_def evolves_refl)
next
  case (Some d)
  then show ?thesis
    using assms by (simp add: wal_remove_def remove_file_healthy evolves_def)
qed

lemma skip_list_entries_ok:
  assumes "memtable_ok s" and "db_config_ok s" and "m_map (db_skiplist s) \<noteq> []"
  defines "es \<equiv> map snd (m_map (db_skiplist s))"
  shows "sorted_keys e_key es" and "format_fits fmt es" and "find_key e_key k es = mem_get k s"
proof -
  have inv: "skip_list_inv (db_skiplist s)" using assms(1) by (simp add: memtable_ok_def)
  show "sorted_keys e_key es" and "find_key e_key k es = mem_get k s"
    using sl.listing_sorted [OF inv] sl.listing_lookup [OF inv, of k]
    by (simp_all add: es_def mem_get_def skip_list_getAll_def)
  show "format_fits fmt es"
    using assms(1-3) by (intro format_fits_bound) (auto simp: es_def memtable_ok_def db_config_ok_def)
qed

text \<open>
  What an operation leaves alone: the configuration, and every file but the log and the ones named.
  A memtable that is full before a write is flushed first, which adds one table and one file.
\<close>

definition changes_files :: "path set \<Rightarrow> db \<Rightarrow> db \<Rightarrow> bool" where
  "changes_files P s s' \<longleftrightarrow>
     db_size s' = db_size s \<and> db_wal s' = db_wal s \<and> sm_basePath (db_storage s') = sm_basePath (db_storage s) \<and>
     fs_listing (db_world s') = fs_listing (db_world s) \<and>
     (\<forall>d. is_directory (db_world s) d \<longrightarrow> is_directory (db_world s') d) \<and>
     (\<forall>q. q \<notin> P \<longrightarrow> q \<noteq> w_fullPath (db_wal s) \<longrightarrow> content (db_world s') q = content (db_world s) q)"

lemma changes_files_trans: "changes_files P s s' \<Longrightarrow> changes_files Q s' s'' \<Longrightarrow> changes_files (P \<union> Q) s s''"
  by (simp add: changes_files_def)

lemma changes_files_set_entry [simp]: "changes_files P s (set_entry e s') = changes_files P s s'"
  by (simp add: changes_files_def set_entry_def)

definition mem_full :: "db \<Rightarrow> bool" where
  "mem_full s \<longleftrightarrow> int (length (m_map (db_skiplist s))) = db_size s"

definition flushed_if :: "bool \<Rightarrow> nat \<Rightarrow> tables \<Rightarrow> nat \<Rightarrow> tables \<Rightarrow> db \<Rightarrow> db \<Rightarrow> bool" where
  "flushed_if full n ts n' ts' s s' \<longleftrightarrow>
     (if full then n' = Suc n \<and> (\<exists>p es. ts' = (p, es) # ts \<and> p \<notin> fst ` set ts \<and> changes_files {p} s s')
      else n' = n \<and> ts' = ts \<and> changes_files {} s s')"

lemma flushed_if_trans: "flushed_if full n ts n' ts' s s' \<Longrightarrow> changes_files {} s' s'' \<Longrightarrow> flushed_if full n ts n' ts' s s''"
  using changes_files_trans [of _ s s' "{}" s''] by (auto simp: flushed_if_def split: if_splits)

lemma mem_flush_ok:
  assumes "db_inv lg n ts (s\<lparr>db_readOnly := False\<rparr>)" and "n < 2 ^ 16" and "m_map (db_skiplist s) \<noteq> []"
  shows "\<exists>s' p. mem_flushToDisk s = (Inr None, s') \<and> db_inv True (Suc n) ((p, map snd (m_map (db_skiplist s))) # ts) s' \<and>
    db_skiplist s' = skip_list_empty \<and> db_size s' = db_size s \<and> content (db_world s') (w_fullPath (db_wal s')) = None \<and>
    p \<notin> fst ` set ts \<and> changes_files {p} s s'"
proof -
  let ?es = "map snd (m_map (db_skiplist s))" and ?it = "Skip_it (skip_list_NewIterator (db_skiplist s))"
  let ?st = "db_storage s" and ?w = "db_world s"
  have pre: "healthy ?w" "db_config_ok (s\<lparr>db_readOnly := False\<rparr>)" "memtable_ok (s\<lparr>db_readOnly := False\<rparr>)"
      "storage_inv ?st n ts ?w"
    using assms(1) by (simp_all add: db_inv_def)
  obtain i base where wal: "db_wal s = WAL i base" using pre(2) by (auto simp: db_config_ok_def)
  have ents: "sorted_keys e_key ?es" "format_fits (sm_format ?st) ?es"
    using skip_list_entries_ok [OF pre(3,2)] assms(3) by simp_all
  obtain levels p name w1 where wr: "storage_write ?it (?st, db_next_file s, ?w) =
      (Inr None, (?st\<lparr>sm_levels := levels\<rparr>, db_next_file s + 1, w1))"
      "p = level_path (sm_basePath ?st) 0 @ ''/'' @ name" "table_name_with n name"
      "storage_inv (?st\<lparr>sm_levels := levels\<rparr>) (Suc n) ((p, ?es) # ts) w1" "keeps_other p ?w w1"
    using storage_write_ok [OF pre(1,4) assms(2), of ?it "db_next_file s"] ents by auto
  have h1: "healthy w1" using wr(5) pre(1) by (simp add: keeps_other_def)
  obtain w2 where rm: "wal_remove (WAL i base) w1 = (None, w2)" "content w2 (w_fullPath (WAL i base)) = None"
      "evolves (w_fullPath (WAL i base)) w1 w2" "\<forall>d. is_directory w2 d = is_directory w1 d"
    using wal_remove_ok [OF h1] by blast
  let ?s' = "s\<lparr>db_readOnly := False, db_skiplist := skip_list_empty, db_storage := ?st\<lparr>sm_levels := levels\<rparr>,
    db_next_file := db_next_file s + 1, db_world := w2\<rparr>"
  have "mem_flushToDisk s = (Inr None, ?s')"
    using wr(1) rm(1) wal
    by (simp add: mem_flushToDisk_def Let_def sx_bind_def sx_return_def call_storage_def call_wal_remove_def
        skip_list_clear_def skip_list_empty_def)
  moreover have "level_paths (level_path (sm_basePath ?st) 0) (Suc n) ((p, ?es) # ts)"
    using wr(4) by (simp add: storage_inv_def)
  then have "storage_inv (?st\<lparr>sm_levels := levels\<rparr>) (Suc n) ((p, ?es) # ts) w2"
    using storage_inv_evolves [OF wr(4) rm(3)] wal_path_not_in_tables rm(4) by blast
  then have "db_inv True (Suc n) ((p, ?es) # ts) ?s'"
    using pre(2) wal rm(2) evolves_healthy [OF rm(3)] h1
    by (auto simp: db_inv_def db_config_ok_def memtable_ok_def wal_matches_def old_content_def sl.invar_empty
        intro!: exI [of _ "[]"]) (simp_all add: skip_list_empty_def)
  moreover have "p \<notin> fst ` set ts"
    unfolding wr(2) by (rule level_paths_fresh [OF _ wr(3) assms(2)]) (use pre(4) in \<open>simp add: storage_inv_def\<close>)
  moreover have "changes_files {p} s ?s'"
    using wr(5) rm(3) wal by (auto simp: changes_files_def keeps_other_def evolves_def)
  ultimately show ?thesis using rm(2) wal by (intro exI [of _ ?s'] exI [of _ p]) simp
qed

section \<open>Writing\<close>

lemma skip_list_full_iff:
  assumes "memtable_ok s" and "db_config_ok s"
  shows "skip_list_getLength (db_skiplist s) = Some (db_size s) \<longleftrightarrow> int (length (m_map (db_skiplist s))) = db_size s"
  using assms int_of_size_small [of "int (length (m_map (db_skiplist s)))"]
  by (auto simp: skip_list_getLength_def memtable_ok_def db_config_ok_def)

lemma flushed_view:
  assumes "db_inv lg n ts s" and "db_inv lg' n' ((p, map snd (m_map (db_skiplist s))) # ts) s'"
    and "db_skiplist s' = skip_list_empty" and "m_map (db_skiplist s) \<noteq> []"
  shows "db_view s' = db_view s"
proof
  fix k
  have "mem_get k s' = None" using assms(3) by (simp add: mem_get_def sl.lookup_empty)
  moreover have "find_key e_key k (map snd (m_map (db_skiplist s))) = mem_get k s"
    using skip_list_entries_ok(3) assms(1,4) by (simp add: db_inv_def)
  ultimately show "db_view s' k = db_view s k"
    by (simp add: db_inv_view [OF assms(1)] db_inv_view [OF assms(2)] split: option.splits)
qed

lemma mem_flush_if_full_ok:
  assumes "db_inv lg n ts s" and "n < 2 ^ 16"
  shows "\<exists>s' n' ts'. mem_flush_if_full s = (Inr None, s') \<and> n' \<le> Suc n \<and> db_inv lg n' ts' s' \<and> db_view s' = db_view s \<and>
    int (length (m_map (db_skiplist s'))) < db_size s' \<and> flushed_if (mem_full s) n ts n' ts' s s' \<and>
    db_skiplist s' = (if mem_full s then skip_list_empty else db_skiplist s)"
proof -
  have ok: "memtable_ok s" "db_config_ok s" using assms(1) by (simp_all add: db_inv_def)
  show ?thesis
  proof (cases "int (length (m_map (db_skiplist s))) = db_size s")
    case True
    then have ne: "m_map (db_skiplist s) \<noteq> []" using ok(2) by (auto simp: db_config_ok_def)
    have "s\<lparr>db_readOnly := False\<rparr> = s" using ok(1) by (cases s) (simp add: memtable_ok_def)
    then have inv: "db_inv lg n ts (s\<lparr>db_readOnly := True, db_readOnly := False\<rparr>)" using assms(1) by simp
    obtain s' p where s': "mem_flushToDisk (s\<lparr>db_readOnly := True\<rparr>) = (Inr None, s')"
        "db_inv lg (Suc n) ((p, map snd (m_map (db_skiplist s))) # ts) s'" "db_skiplist s' = skip_list_empty" "db_size s' = db_size s"
        "p \<notin> fst ` set ts" "changes_files {p} (s\<lparr>db_readOnly := True\<rparr>) s'"
      using mem_flush_ok [OF inv assms(2)] ne db_inv_weaken [of "Suc n"] by fastforce
    have "flushed_if (mem_full s) n ts (Suc n) ((p, map snd (m_map (db_skiplist s))) # ts) s s'"
      using True s'(5,6) by (simp add: flushed_if_def mem_full_def changes_files_def)
    moreover have "db_skiplist s' = (if mem_full s then skip_list_empty else db_skiplist s)"
      using True s'(3) by (simp add: mem_full_def)
    moreover
    have "mem_flush_if_full s = (Inr None, s')"
      using True s'(1) skip_list_full_iff [OF ok] by (simp add: mem_flush_if_full_def)
    moreover have "db_view s' = db_view s" using flushed_view [OF assms(1) s'(2,3) ne] .
    moreover have "int (length (m_map (db_skiplist s'))) < db_size s'"
      using s'(3,4) ok(2) by (simp add: skip_list_empty_def db_config_ok_def)
    ultimately show ?thesis using s'(2) by blast
  next
    case False
    then have "mem_flush_if_full s = (Inr None, s)"
      using skip_list_full_iff [OF ok] by (simp add: mem_flush_if_full_def)
    moreover have "int (length (m_map (db_skiplist s))) < db_size s"
      using False ok(1) by (simp add: memtable_ok_def)
    ultimately show ?thesis using assms(1) False
      by (intro exI [of _ s] exI [of _ n] exI [of _ ts]) (simp add: flushed_if_def mem_full_def changes_files_def)
  qed
qed

lemma set_map_assign: "set (map_assign k e m) \<subseteq> insert (k, e) (set m)"
  by (induction k e m rule: map_assign.induct) auto

definition entry_view :: "entry \<Rightarrow> string option" where
  "entry_view e = (if e_tombstone e then None else Some (e_val e))"

text \<open>Putting an entry into the skip list, when there is room for it; with the log, or without.\<close>

lemma set_entry_ok:
  assumes "db_inv lg n ts s" and "entry_small e" and "int (length (m_map (db_skiplist s))) < db_size s"
  shows "db_inv False n ts (set_entry e s)" and "db_view (set_entry e s) = (db_view s)(e_key e := entry_view e)"
proof -
  have "memtable_ok (set_entry e s)"
    using assms sl.invar_put [of "db_skiplist s" e] length_map_assign [of "e_key e" e "m_map (db_skiplist s)"]
      set_map_assign [of "e_key e" e "m_map (db_skiplist s)"]
    by (auto simp: db_inv_def memtable_ok_def set_entry_def skip_list_set_def)
  then show inv: "db_inv False n ts (set_entry e s)"
    using assms(1) by (simp add: db_inv_def db_config_ok_def) (simp add: set_entry_def)
  have "mem_get k (set_entry e s) = (if k = e_key e then Some e else mem_get k s)" for k
    using sl.lookup_put [of "db_skiplist s" k e] assms(1)
    by (simp add: mem_get_def set_entry_def db_inv_def memtable_ok_def)
  then show "db_view (set_entry e s) = (db_view s)(e_key e := entry_view e)"
    by (auto simp: fun_eq_iff db_inv_view [OF inv] db_inv_view [OF assms(1)] entry_view_def)
qed

lemma wal_matches_append:
  assumes "wal_matches s" and "entry_small e"
    and "old_content (w_fullPath (db_wal s)) w = old_content (w_fullPath (db_wal s)) (db_world s) @ wal_record (host_order w) e"
    and "host_order w = host_order (db_world s)"
  shows "wal_matches (set_entry e (s\<lparr>db_world := w\<rparr>))"
proof -
  obtain es where es: "old_content (w_fullPath (db_wal s)) (db_world s) = concat (map (wal_record (host_order w)) es)"
      "\<forall>e \<in> set es. entry_small e" "db_skiplist s = fold (\<lambda>e m. snd (skip_list_set e m)) es skip_list_empty"
    using assms(1,4) by (auto simp: wal_matches_def)
  show ?thesis
    unfolding wal_matches_def
    by (rule exI [of _ "es @ [e]"]) (use es assms in \<open>simp add: set_entry_def\<close>)
qed

lemma mem_append_set_ok:
  assumes "db_inv lg n ts s" and "entry_small e" and "int (length (m_map (db_skiplist s))) < db_size s"
  shows "\<exists>s'. call_wal_append e s = (Inr None, s') \<and> db_inv lg n ts (set_entry e s') \<and>
    db_view (set_entry e s') = (db_view s)(e_key e := entry_view e) \<and> db_skiplist s' = db_skiplist s \<and> changes_files {} s s'"
proof -
  have pre: "healthy (db_world s)" "db_config_ok s" "lg \<longrightarrow> wal_matches s" "storage_inv (db_storage s) n ts (db_world s)"
    using assms(1) by (simp_all add: db_inv_def)
  obtain i base where wal: "db_wal s = WAL i base"
      and sep: "\<forall>d \<in> set (path_and_ancestors base). \<not> child_of (sm_basePath (db_storage s)) d"
    using pre(2) by (auto simp: db_config_ok_def)
  let ?p = "w_fullPath (WAL i base)"
  let ?w = "set_file ?p (old_content ?p (db_world s) @ wal_record (host_order (db_world s)) e) (mkdir_all base (db_world s))"
  let ?s = "s\<lparr>db_world := ?w\<rparr>"
  have ap: "call_wal_append e s = (Inr None, ?s)"
    using wal_append_healthy [OF pre(1) wal_entry_ok_fits [OF entry_small_wal [OF assms(2)]], of i base] wal
    by (simp add: call_wal_append_def)
  have ev: "evolves ?p (db_world s) ?w" using pre(1) by (intro evolves_set_file evolves_mkdir)
  have "?p \<notin> fst ` set ts" using pre(4) wal_path_not_in_tables unfolding storage_inv_def by blast
  then have "storage_inv (db_storage s) n ts ?w"
    using pre(1) sep by (intro storage_inv_evolves [OF pre(4) ev]) auto
  then have inv: "db_inv False n ts ?s"
    using assms(1) by (simp add: db_inv_def db_config_ok_def memtable_ok_def)
  have "lg \<longrightarrow> wal_matches (set_entry e ?s)"
    using pre(3) assms(2) wal wal_matches_append [of s e ?w] by (simp add: old_content_def)
  then have "db_inv lg n ts (set_entry e ?s)"
    using set_entry_ok(1) [OF inv assms(2)] assms(3) by (simp add: db_inv_def)
  moreover have "db_view ?s = db_view s"
    by (rule ext) (simp add: db_inv_view [OF inv] db_inv_view [OF assms(1)] mem_get_def)
  then have "db_view (set_entry e ?s) = (db_view s)(e_key e := entry_view e)"
    using set_entry_ok(2) [OF inv assms(2)] assms(3) by simp
  moreover have "db_skiplist ?s = db_skiplist s" "changes_files {} s ?s"
    using wal pre(1) by (simp_all add: changes_files_def)
  ultimately show ?thesis using ap by blast
qed

text \<open>What \<open>put\<close> and \<open>del\<close> do once they have decided to write: flush if full, log, set.\<close>

lemma mem_log_and_set_ok:
  assumes "db_inv lg n ts s" and "n < 2 ^ 16" and "entry_small e"
  obtains s1 s2 n' ts' where "mem_flush_if_full s = (Inr None, s1)" and "call_wal_append e s1 = (Inr None, s2)" and "n' \<le> Suc n"
    and "db_inv lg n' ts' (set_entry e s2)" and "db_view (set_entry e s2) = (db_view s)(e_key e := entry_view e)"
    and "flushed_if (mem_full s) n ts n' ts' s (set_entry e s2)"
    and "m_map (db_skiplist (set_entry e s2)) = map_assign (e_key e) e (if mem_full s then [] else m_map (db_skiplist s))"
proof -
  obtain s1 n' ts' where s1: "mem_flush_if_full s = (Inr None, s1)" "n' \<le> Suc n" "db_inv lg n' ts' s1"
      "db_view s1 = db_view s" "int (length (m_map (db_skiplist s1))) < db_size s1"
      "flushed_if (mem_full s) n ts n' ts' s s1" "db_skiplist s1 = (if mem_full s then skip_list_empty else db_skiplist s)"
    using mem_flush_if_full_ok [OF assms(1,2)] by blast
  obtain s2 where s2: "call_wal_append e s1 = (Inr None, s2)" "db_inv lg n' ts' (set_entry e s2)"
      "db_view (set_entry e s2) = (db_view s1)(e_key e := entry_view e)" "db_skiplist s2 = db_skiplist s1" "changes_files {} s1 s2"
    using mem_append_set_ok [OF s1(3) assms(3) s1(5)] by blast
  have "flushed_if (mem_full s) n ts n' ts' s (set_entry e s2)"
    by (rule flushed_if_trans [OF s1(6)]) (simp add: s2(5))
  moreover have "m_map (db_skiplist (set_entry e s2)) = map_assign (e_key e) e (if mem_full s then [] else m_map (db_skiplist s))"
    using s1(7) s2(4) by (simp add: set_entry_def skip_list_set_def skip_list_empty_def)
  ultimately show thesis using that [OF s1(1) s2(1) s1(2) s2(2)] s1(4) s2(3) by simp
qed

lemma mem_put_ok:
  assumes "db_inv lg n ts s" and "n < 2 ^ 16" and "length k \<le> 2 ^ 30" and "length v \<le> 2 ^ 30"
  shows "\<exists>s' n' ts'. mem_put k v s = (Inr None, s') \<and> n' \<le> Suc n \<and> db_inv lg n' ts' s' \<and> db_view s' = (db_view s)(k \<mapsto> v) \<and>
    flushed_if (mem_full s) n ts n' ts' s s' \<and>
    m_map (db_skiplist s') = map_assign k (Entry k v False) (if mem_full s then [] else m_map (db_skiplist s))"
proof -
  let ?e = "Entry k v False"
  have "entry_small ?e" using assms(3,4) by (simp add: entry_small_def)
  then obtain s1 s2 n' ts' where s: "mem_flush_if_full s = (Inr None, s1)" "call_wal_append ?e s1 = (Inr None, s2)" "n' \<le> Suc n"
      "db_inv lg n' ts' (set_entry ?e s2)" "db_view (set_entry ?e s2) = (db_view s)(e_key ?e := entry_view ?e)"
      "flushed_if (mem_full s) n ts n' ts' s (set_entry ?e s2)"
      "m_map (db_skiplist (set_entry ?e s2)) = map_assign (e_key ?e) ?e (if mem_full s then [] else m_map (db_skiplist s))"
    by (rule mem_log_and_set_ok [OF assms(1,2)])
  have "\<not> db_readOnly s" using assms(1) by (simp add: db_inv_def memtable_ok_def)
  then have "mem_put k v s = (Inr None, set_entry ?e s2)"
    using s(1,2) by (simp add: mem_put_def mem_isReadOnly_def sx_simps)
  then show ?thesis using s(3-7) by (intro exI [of _ "set_entry ?e s2"] exI [of _ n'] exI [of _ ts']) (simp add: entry_view_def)
qed

lemma mem_del_ok:
  assumes "db_inv lg n ts s" and "n < 2 ^ 16" and "length k \<le> 2 ^ 30"
  shows "\<exists>r s' n' ts'. mem_del k s = (Inr r, s') \<and> n' \<le> Suc n \<and> db_inv lg n' ts' s' \<and> db_view s' = (db_view s)(k := None) \<and>
    (r = None \<longleftrightarrow> mem_get k s \<noteq> None \<or> db_view s k \<noteq> None) \<and> (r = None \<longrightarrow> mem_get k s' \<noteq> None) \<and>
    (r \<noteq> None \<longrightarrow> r = Some (Error ''Cannot DELETE: key does not exist'') \<and> s' = s \<and> n' = n) \<and>
    (r = None \<longrightarrow> flushed_if (mem_full s) n ts n' ts' s s' \<and>
      m_map (db_skiplist s') = map_assign k (Entry k ''val'' True) (if mem_full s then [] else m_map (db_skiplist s)))"
proof (cases "mem_get k s \<noteq> None \<or> db_view s k \<noteq> None")
  case False
  then have "mem_get k s = None" "live (newest k (map snd ts)) = None" "db_view s k = None"
    using db_inv_view [OF assms(1), of k] by auto
  then have "mem_del k s = (Inr (Some (Error ''Cannot DELETE: key does not exist'')), s)"
    using db_inv_storage_get [OF assms(1), of k] by (simp add: mem_del_def)
  moreover have "(db_view s)(k := None) = db_view s" using \<open>db_view s k = None\<close> by auto
  ultimately show ?thesis using assms(1) False
    by (intro exI [of _ "Some (Error ''Cannot DELETE: key does not exist'')"] exI [of _ s] exI [of _ n] exI [of _ ts]) simp
next
  case True
  let ?e = "Entry k ''val'' True"
  have "entry_small ?e" using assms(3) by (simp add: entry_small_def)
  then obtain s1 s2 n' ts' where s: "mem_flush_if_full s = (Inr None, s1)" "call_wal_append ?e s1 = (Inr None, s2)" "n' \<le> Suc n"
      "db_inv lg n' ts' (set_entry ?e s2)" "db_view (set_entry ?e s2) = (db_view s)(e_key ?e := entry_view ?e)"
      "flushed_if (mem_full s) n ts n' ts' s (set_entry ?e s2)"
      "m_map (db_skiplist (set_entry ?e s2)) = map_assign (e_key ?e) ?e (if mem_full s then [] else m_map (db_skiplist s))"
    by (rule mem_log_and_set_ok [OF assms(1,2)])
  have "\<not> db_readOnly s" using assms(1) by (simp add: db_inv_def memtable_ok_def)
  moreover have "\<not> (mem_get k s = None \<and> live (newest k (map snd ts)) = None)"
    using True db_inv_view [OF assms(1), of k] by (auto split: option.splits)
  ultimately have "mem_del k s = (Inr None, set_entry ?e s2)"
    using s(1,2) db_inv_storage_get [OF assms(1), of k]
    by (auto simp: mem_del_def mem_isReadOnly_def sx_simps skip_list_getLength_def Let_def)
  moreover have "mem_get k (set_entry ?e s2) \<noteq> None"
    by (simp add: mem_get_def set_entry_def skip_list_get_def skip_list_set_def map_of_map_assign)
  ultimately show ?thesis using s(3-7) True
    by (intro exI [of _ None] exI [of _ "set_entry ?e s2"] exI [of _ n'] exI [of _ ts']) (simp add: entry_view_def)
qed

text \<open>
  How much of the table names the store has used, measured in writes: a table takes as many writes as
  the memtable holds, so that a write uses up one, whether it triggers a flush or not.
\<close>

definition filled :: "nat \<Rightarrow> db \<Rightarrow> nat" where
  "filled n s = n * nat (db_size s) + length (m_map (db_skiplist s))"

lemma filled_write:
  assumes "flushed_if (mem_full s) n ts n' ts' s s'"
    and "m_map (db_skiplist s') = map_assign k e (if mem_full s then [] else m_map (db_skiplist s))"
  shows "filled n' s' \<le> Suc (filled n s)" and "db_size s' = db_size s"
proof -
  show size: "db_size s' = db_size s" using assms(1) by (auto simp: flushed_if_def changes_files_def split: if_splits)
  show "filled n' s' \<le> Suc (filled n s)"
  proof (cases "mem_full s")
    case True
    then have "nat (db_size s) = length (m_map (db_skiplist s))" unfolding mem_full_def by (metis nat_int)
    then show ?thesis using True assms size by (auto simp: filled_def flushed_if_def)
  next
    case False
    then show ?thesis
      using assms size length_map_assign [of k e "m_map (db_skiplist s)"] by (simp add: filled_def flushed_if_def)
  qed
qed

lemma name_left:
  assumes "filled n s + b \<le> nat (db_size s) * 2 ^ 16" and "0 < b \<or> m_map (db_skiplist s) \<noteq> []"
  shows "n < 2 ^ 16"
proof -
  have "0 < length (m_map (db_skiplist s)) + b" using assms(2) by auto
  then have "n * nat (db_size s) < nat (db_size s) * 2 ^ 16" using assms(1) unfolding filled_def by linarith
  then show ?thesis by (metis mult.commute mult_less_cancel2)
qed

section \<open>A new memtable\<close>

definition MemTableImpl :: "int \<Rightarrow> skip_list \<Rightarrow> storage \<Rightarrow> wal \<Rightarrow> u64 \<Rightarrow> world \<Rightarrow> db" where
  "MemTableImpl sz skipList storageManager l next_file w =
     \<lparr>db_size = sz, db_readOnly = False, db_skiplist = skipList, db_storage = storageManager, db_wal = l,
      db_next_file = next_file, db_world = w\<rparr>"

text \<open>
  What a system has to offer for a new store: it works, it has no level directories yet, no table
  name was drawn in this process, and the log directory is apart from the tables.
\<close>

definition fresh_disk :: "path \<Rightarrow> path \<Rightarrow> world \<Rightarrow> bool" where
  "fresh_disk sstDir walDir w \<longleftrightarrow>
     healthy w \<and> no_levels_on_disk sstDir w \<and> name_counter w = 0 \<and>
     (\<forall>d \<in> set (path_and_ancestors walDir). \<not> child_of sstDir d)"

lemma db_inv_new_at:
  assumes "healthy w" and "no_levels_on_disk sstDir w" and "name_counter w = of_nat n"
    and "\<forall>d \<in> set (path_and_ancestors walDir). \<not> child_of sstDir d"
    and "1 \<le> sz" and "sz \<le> 2 ^ 20" and "0 \<le> maxLevel"
    and "lg \<Longrightarrow> content w (w_fullPath (WAL i walDir)) = None"
  shows "db_inv lg n [] (MemTableImpl sz skip_list_empty (StorageManagerImpl sstDir maxLevel fmt) (WAL i walDir) 0 w)"
proof -
  have "wal_matches (MemTableImpl sz skip_list_empty (StorageManagerImpl sstDir maxLevel fmt) (WAL i walDir) 0 w)" if lg
    unfolding wal_matches_def using assms(8) [OF that]
    by (intro exI [of _ "[]"]) (simp add: MemTableImpl_def old_content_def)
  then show ?thesis
    using assms sl.invar_empty
    by (auto simp: db_inv_def MemTableImpl_def db_config_ok_def memtable_ok_def storage_inv_def
        StorageManagerImpl_def level_paths_def skip_list_empty_def)
qed

lemma db_inv_new:
  assumes "fresh_disk sstDir walDir w" and "1 \<le> sz" and "sz \<le> 2 ^ 20" and "0 \<le> maxLevel"
    and "lg \<Longrightarrow> content w (w_fullPath (WAL i walDir)) = None"
  shows "db_inv lg 0 [] (MemTableImpl sz skip_list_empty (StorageManagerImpl sstDir maxLevel fmt) (WAL i walDir) 0 w)"
  using assms by (intro db_inv_new_at) (simp_all add: fresh_disk_def)

lemma fresh_disk_fresh_world: "fresh_disk ''./sstables'' ''./wal'' fresh_world"
  by (auto simp: fresh_disk_def no_levels_on_disk_def lists_all_def is_directory_def fresh_world_def healthy_def
      path_and_ancestors_def child_of_def upt_rec)

section \<open>Replaying the log\<close>

lemma db_view_readOnly [simp]: "db_view (s\<lparr>db_readOnly := b\<rparr>) = db_view s"
  by (simp add: fun_eq_iff db_view_def mem_get_def split: option.split)

lemma mem_replay_step:
  assumes "db_inv lg n ts (s\<lparr>db_readOnly := False\<rparr>)" and "n < 2 ^ 16" and "entry_small e"
  shows "\<exists>s' n' ts'. mem_replay_entries (e # es) s = mem_replay_entries es s' \<and> n' \<le> Suc n \<and>
    db_inv False n' ts' (s'\<lparr>db_readOnly := False\<rparr>) \<and> db_view s' = (db_view s)(e_key e := entry_view e)"
proof -
  let ?s = "s\<lparr>db_readOnly := False\<rparr>"
  have ok: "memtable_ok ?s" "db_config_ok ?s" using assms(1) by (simp_all add: db_inv_def)
  have set_ro: "set_entry e (t\<lparr>db_readOnly := False\<rparr>) = (set_entry e t)\<lparr>db_readOnly := False\<rparr>" for t
    by (simp add: set_entry_def)
  show ?thesis
  proof (cases "int (length (m_map (db_skiplist s))) = db_size s")
    case True
    then have ne: "m_map (db_skiplist s) \<noteq> []" using ok(2) by (auto simp: db_config_ok_def)
    obtain s1 p where s1: "mem_flushToDisk s = (Inr None, s1)" "db_inv True (Suc n) ((p, map snd (m_map (db_skiplist s))) # ts) s1"
        "db_skiplist s1 = skip_list_empty" "db_size s1 = db_size s"
      using mem_flush_ok [OF assms(1,2) ne] by blast
    have "int (length (m_map (db_skiplist s1))) < db_size s1"
      using s1(3,4) ok(2) by (simp add: skip_list_empty_def db_config_ok_def)
    note set_entry_ok [OF s1(2) assms(3) this]
    moreover have "s1\<lparr>db_readOnly := False\<rparr> = s1"
      using s1(2) by (cases s1) (simp add: db_inv_def memtable_ok_def)
    moreover have "db_view s1 = db_view s"
      using flushed_view [OF assms(1), of True "Suc n" p s1] s1(2,3) ne by simp
    moreover have "mem_replay_entries (e # es) s = mem_replay_entries es (set_entry e s1)"
      using True s1(1) skip_list_full_iff [OF ok] by (simp add: sx_simps)
    ultimately show ?thesis using set_ro [of s1] by (metis order_refl)
  next
    case False
    then have "int (length (m_map (db_skiplist ?s))) < db_size ?s" using ok(1) by (simp add: memtable_ok_def)
    note set_entry_ok [OF assms(1,3) this]
    moreover have "mem_replay_entries (e # es) s = mem_replay_entries es (set_entry e s)"
      using False skip_list_full_iff [OF ok] by (simp add: sx_simps)
    ultimately show ?thesis
      unfolding set_ro by (intro exI [of _ "set_entry e s"] exI [of _ n] exI [of _ ts]) simp
  qed
qed

text \<open>The effect of a sequence of writes on the view.\<close>

definition apply_entries :: "entry list \<Rightarrow> (string \<Rightarrow> string option) \<Rightarrow> string \<Rightarrow> string option" where
  "apply_entries es v = foldl (\<lambda>v e. v(e_key e := entry_view e)) v es"

lemma mem_replay_entries_ok:
  assumes "db_inv lg n ts (s\<lparr>db_readOnly := False\<rparr>)" and "n + length es \<le> 2 ^ 16" and "\<forall>e \<in> set es. entry_small e"
  shows "\<exists>s' n' ts'. mem_replay_entries es s = (Inr (), s') \<and> n' \<le> n + length es \<and>
    db_inv False n' ts' (s'\<lparr>db_readOnly := False\<rparr>) \<and> db_view s' = apply_entries es (db_view s)"
  using assms
proof (induction es arbitrary: lg n ts s)
  case Nil
  then show ?case
    by (intro exI [of _ s] exI [of _ n] exI [of _ ts]) (simp add: apply_entries_def db_inv_def)
next
  case (Cons e es)
  have "n < 2 ^ 16" "entry_small e" using Cons.prems(2,3) by simp_all
  then obtain s1 n1 ts1 where s1: "mem_replay_entries (e # es) s = mem_replay_entries es s1" "n1 \<le> Suc n"
      "db_inv False n1 ts1 (s1\<lparr>db_readOnly := False\<rparr>)" "db_view s1 = (db_view s)(e_key e := entry_view e)"
    using mem_replay_step [OF Cons.prems(1)] by blast
  have "n1 + length es \<le> 2 ^ 16" "\<forall>e \<in> set es. entry_small e" using s1(2) Cons.prems(2,3) by simp_all
  then obtain s' n' ts' where "mem_replay_entries es s1 = (Inr (), s')" "n' \<le> n1 + length es"
      "db_inv False n' ts' (s'\<lparr>db_readOnly := False\<rparr>)" "db_view s' = apply_entries es (db_view s1)"
    using Cons.IH [OF s1(3)] by blast
  then show ?case
    using s1 by (intro exI [of _ s'] exI [of _ n'] exI [of _ ts']) (simp add: apply_entries_def)
qed

lemma mem_flush_rest_ok:
  assumes "db_inv lg n ts (s\<lparr>db_readOnly := False\<rparr>)" and "n < 2 ^ 16"
  defines "rest \<equiv> (\<lambda>s. if (case skip_list_getLength (db_skiplist s) of None \<Rightarrow> False | Some n \<Rightarrow> n > 0)
    then mem_flushToDisk s else (Inr None, s))"
  shows "\<exists>s' n' ts'. rest s = (Inr None, s') \<and> n' \<le> Suc n \<and> db_inv False n' ts' (s'\<lparr>db_readOnly := False\<rparr>) \<and>
    db_view s' = db_view s \<and> db_skiplist s' = skip_list_empty"
proof -
  let ?s = "s\<lparr>db_readOnly := False\<rparr>"
  have len: "skip_list_getLength (db_skiplist s) = Some (int (length (m_map (db_skiplist s))))"
    using assms(1) int_of_size_small [of "int (length (m_map (db_skiplist s)))"]
    by (auto simp: skip_list_getLength_def db_inv_def memtable_ok_def db_config_ok_def)
  show ?thesis
  proof (cases "m_map (db_skiplist s) = []")
    case True
    then have "db_skiplist s = skip_list_empty" by (cases "db_skiplist s") (simp add: skip_list_empty_def)
    then show ?thesis
      using True len assms(1)
      by (intro exI [of _ s] exI [of _ n] exI [of _ ts]) (simp add: rest_def db_inv_def)
  next
    case False
    obtain s1 p where s1: "mem_flushToDisk s = (Inr None, s1)" "db_inv True (Suc n) ((p, map snd (m_map (db_skiplist s))) # ts) s1"
        "db_skiplist s1 = skip_list_empty"
      using mem_flush_ok [OF assms(1,2) False] by blast
    moreover have "s1\<lparr>db_readOnly := False\<rparr> = s1"
      using s1(2) by (cases s1) (simp add: db_inv_def memtable_ok_def)
    moreover have "db_view s1 = db_view s"
      using flushed_view [OF assms(1), of True "Suc n" p s1] s1(2,3) False by simp
    ultimately show ?thesis
      using len False db_inv_weaken [OF s1(2), of False]
      by (intro exI [of _ s1] exI [of _ "Suc n"] exI [of _ "(p, map snd (m_map (db_skiplist s))) # ts"])
        (simp add: rest_def)
  qed
qed

lemma wal_normal_view [simp]: "e_key (wal_normal e) = e_key e" "entry_view (wal_normal e) = entry_view e"
  by (simp_all add: wal_normal_def entry_view_def wal_value_def)

lemma wal_normal_small: "entry_small e \<Longrightarrow> entry_small (wal_normal e)"
  by (simp add: entry_small_def wal_normal_def wal_value_def)

lemma apply_entries_normal: "apply_entries (map wal_normal es) v = apply_entries es v"
  by (induction es arbitrary: v) (simp_all add: apply_entries_def)

lemma mem_replayWal_ok:
  assumes "db_inv lg n ts (s\<lparr>db_readOnly := False\<rparr>)" and "n + length es < 2 ^ 16" and "\<forall>e \<in> set es. entry_small e"
    and "old_content (w_fullPath (db_wal s)) (db_world s) = concat (map (wal_record (host_order (db_world s))) es)"
  shows "\<exists>s' n' ts'. mem_replayWal s = (Inr None, s') \<and> db_inv True n' ts' s' \<and>
    db_view s' = apply_entries es (db_view s) \<and> db_skiplist s' = skip_list_empty"
proof -
  let ?s0 = "s\<lparr>db_readOnly := True\<rparr>"
  have h: "healthy (db_world s)" and inv0: "db_inv lg n ts (?s0\<lparr>db_readOnly := False\<rparr>)"
    using assms(1) by (simp_all add: db_inv_def)
  have "\<forall>e \<in> set es. wal_entry_ok e" using assms(3) entry_small_wal by blast
  then have log: "wal_getEntries (db_wal s) (db_world s) = Some (map wal_normal es)"
    using wal_getEntries_records [OF h assms(4)] by blast
  obtain s1 n1 ts1 where s1: "mem_replay_entries (map wal_normal es) ?s0 = (Inr (), s1)" "n1 \<le> n + length es"
      "db_inv False n1 ts1 (s1\<lparr>db_readOnly := False\<rparr>)" "db_view s1 = apply_entries es (db_view s)"
    using mem_replay_entries_ok [OF inv0, of "map wal_normal es"] assms(2,3) wal_normal_small
    by (auto simp: apply_entries_normal)
  have "n1 < 2 ^ 16" using s1(2) assms(2) by simp
  then obtain s2 n2 ts2 where s2: "(if (case skip_list_getLength (db_skiplist s1) of None \<Rightarrow> False | Some n \<Rightarrow> n > 0)
        then mem_flushToDisk s1 else (Inr None, s1)) = (Inr None, s2)"
      "db_inv False n2 ts2 (s2\<lparr>db_readOnly := False\<rparr>)" "db_view s2 = db_view s1" "db_skiplist s2 = skip_list_empty"
    using mem_flush_rest_ok [OF s1(3)] by blast
  have h2: "healthy (db_world s2)" using s2(2) by (simp add: db_inv_def)
  obtain w3 where w3: "wal_remove (db_wal s2) (db_world s2) = (None, w3)" "content w3 (w_fullPath (db_wal s2)) = None"
      "evolves (w_fullPath (db_wal s2)) (db_world s2) w3" "\<forall>d. is_directory w3 d = is_directory (db_world s2) d"
    using wal_remove_ok [OF h2] by blast
  let ?s3 = "s2\<lparr>db_world := w3, db_readOnly := False\<rparr>"
  have run: "mem_replayWal s = (Inr None, ?s3)"
    using log s1(1) s2(1) w3(1) by (simp add: mem_replayWal_def Let_def sx_bind_def call_wal_remove_def)
  have si: "storage_inv (db_storage s2) n2 ts2 (db_world s2)" and cfg: "db_config_ok s2"
    using s2(2) by (simp_all add: db_inv_def db_config_ok_def)
  have "w_fullPath (db_wal s2) \<notin> fst ` set ts2"
    using cfg si wal_path_not_in_tables unfolding storage_inv_def db_config_ok_def by metis
  then have "storage_inv (db_storage s2) n2 ts2 w3"
    using storage_inv_evolves [OF si w3(3)] w3(4) by blast
  then have inv: "db_inv True n2 ts2 ?s3"
    using s2(2,4) w3(2) evolves_healthy [OF w3(3)]
    by (auto simp: db_inv_def db_config_ok_def memtable_ok_def wal_matches_def old_content_def intro!: exI [of _ "[]"])
  have "db_view ?s3 = db_view s2"
  proof
    fix x show "db_view ?s3 x = db_view s2 x"
      using db_inv_view [OF inv, of x] db_inv_view [OF s2(2), of x] by (simp add: mem_get_def)
  qed
  then show ?thesis using run inv s1(4) s2(3,4) by (intro exI [of _ ?s3] exI [of _ n2] exI [of _ ts2]) simp
qed

lemma log_matches_memtable:
  assumes "db_inv True n ts s"
  shows "\<exists>es. wal_getEntries (db_wal s) (db_world s) = Some es \<and>
    (\<forall>k. skip_list_get k (fold (\<lambda>e m. snd (skip_list_set e m)) es skip_list_empty) = map_option wal_normal (mem_get k s))"
proof -
  obtain es where es: "old_content (w_fullPath (db_wal s)) (db_world s) = concat (map (wal_record (host_order (db_world s))) es)"
      "\<forall>e \<in> set es. entry_small e" "db_skiplist s = fold (\<lambda>e m. snd (skip_list_set e m)) es skip_list_empty"
    using assms by (auto simp: db_inv_def wal_matches_def)
  have "wal_getEntries (db_wal s) (db_world s) = Some (map wal_normal es)"
    using wal_getEntries_records [OF _ es(1)] assms es(2) entry_small_wal by (simp add: db_inv_def)
  moreover have "find_key e_key k (map wal_normal xs) = map_option wal_normal (find_key e_key k xs)" for k xs
    by (induction xs) simp_all
  then have "skip_list_get k (fold (\<lambda>e m. snd (skip_list_set e m)) (map wal_normal es) skip_list_empty) =
      map_option wal_normal (mem_get k s)" for k
    using sl.lookup_fold [OF sl.invar_empty, of k "map wal_normal es"] sl.lookup_fold [OF sl.invar_empty, of k es]
    by (simp add: mem_get_def es(3) rev_map sl.lookup_empty split: option.splits)
  ultimately show ?thesis by blast
qed

text \<open>Writes made one after the other: a value is put, \<open>None\<close> deletes.\<close>

fun mem_writes :: "(string \<times> string option) list \<Rightarrow> (db, error option list) sx" where
  "mem_writes [] = sx_return []"
| "mem_writes ((k, x) # ws) =
     sx_bind (case x of Some v \<Rightarrow> mem_put k v | None \<Rightarrow> mem_del k) (\<lambda>r.
       sx_bind (mem_writes ws) (\<lambda>rs. sx_return (r # rs)))"

definition apply_write :: "(string \<rightharpoonup> string) \<Rightarrow> string \<times> string option \<Rightarrow> string \<rightharpoonup> string" where
  "apply_write m w = m(fst w := snd w)"

definition write_small :: "string \<times> string option \<Rightarrow> bool" where
  "write_small w \<longleftrightarrow> length (fst w) \<le> 2 ^ 30 \<and> (case snd w of Some v \<Rightarrow> length v \<le> 2 ^ 30 | None \<Rightarrow> True)"

lemma mem_write_ok:
  assumes "db_inv lg n ts s" and "n < 2 ^ 16" and "write_small (k, x)"
  shows "\<exists>r s' n' ts'. (case x of Some v \<Rightarrow> mem_put k v | None \<Rightarrow> mem_del k) s = (Inr r, s') \<and> n' \<le> Suc n \<and>
    db_inv lg n' ts' s' \<and> db_view s' = (db_view s)(k := x) \<and> filled n' s' \<le> Suc (filled n s) \<and> db_size s' = db_size s"
proof (cases x)
  case None
  have "length k \<le> 2 ^ 30" using assms(3) by (simp add: write_small_def)
  then obtain r s' n' ts' where d: "mem_del k s = (Inr r, s')" "n' \<le> Suc n" "db_inv lg n' ts' s'" "db_view s' = (db_view s)(k := None)"
      "r \<noteq> None \<longrightarrow> s' = s \<and> n' = n" "r = None \<longrightarrow> flushed_if (mem_full s) n ts n' ts' s s' \<and>
        m_map (db_skiplist s') = map_assign k (Entry k ''val'' True) (if mem_full s then [] else m_map (db_skiplist s))"
    using mem_del_ok [OF assms(1,2)] by blast
  have "filled n' s' \<le> Suc (filled n s)" "db_size s' = db_size s"
    using d(5,6) filled_write [of s n ts n' ts' s'] by (cases r; auto)+
  then show ?thesis using d(1-4) None by auto
next
  case (Some v)
  have "length k \<le> 2 ^ 30" "length v \<le> 2 ^ 30" using assms(3) Some by (simp_all add: write_small_def)
  then obtain s' n' ts' where p: "mem_put k v s = (Inr None, s')" "n' \<le> Suc n" "db_inv lg n' ts' s'" "db_view s' = (db_view s)(k \<mapsto> v)"
      "flushed_if (mem_full s) n ts n' ts' s s'"
      "m_map (db_skiplist s') = map_assign k (Entry k v False) (if mem_full s then [] else m_map (db_skiplist s))"
    using mem_put_ok [OF assms(1,2)] by blast
  then show ?thesis using filled_write [OF p(5,6)] Some by auto
qed

lemma mem_writes_ok:
  assumes "db_inv lg n ts s" and "filled n s + length ws \<le> nat (db_size s) * 2 ^ 16" and "\<forall>w \<in> set ws. write_small w"
  shows "\<exists>rs s' n' ts'. mem_writes ws s = (Inr rs, s') \<and> db_inv lg n' ts' s' \<and>
    db_view s' = foldl apply_write (db_view s) ws"
  using assms
proof (induction ws arbitrary: n ts s)
  case (Cons w ws)
  obtain k x where w: "w = (k, x)" by (cases w)
  have "n < 2 ^ 16" "write_small (k, x)" using name_left [OF Cons.prems(2)] Cons.prems(3) w by simp_all
  then obtain r s1 n1 ts1 where 1: "(case x of Some v \<Rightarrow> mem_put k v | None \<Rightarrow> mem_del k) s = (Inr r, s1)" "n1 \<le> Suc n"
      "db_inv lg n1 ts1 s1" "db_view s1 = (db_view s)(k := x)" "filled n1 s1 \<le> Suc (filled n s)" "db_size s1 = db_size s"
    using mem_write_ok [OF Cons.prems(1)] by blast
  have "filled n1 s1 + length ws \<le> nat (db_size s1) * 2 ^ 16" using 1(5) Cons.prems(2) unfolding 1(6) by simp
  then obtain rs s2 n2 ts2 where "mem_writes ws s1 = (Inr rs, s2)" "db_inv lg n2 ts2 s2"
      "db_view s2 = foldl apply_write (db_view s1) ws"
    using Cons.IH [OF 1(3)] Cons.prems(3) by auto
  moreover have "apply_write (db_view s) w = db_view s1" by (simp add: apply_write_def w 1(4))
  ultimately show ?case using 1(1) w by (auto simp: sx_simps)
qed (auto simp: sx_simps)

text \<open>A flush that fails, and what is refused in read-only mode.\<close>

lemma mem_flushToDisk_failed:
  assumes "mem_flushToDisk s = (r, s')" and "r \<noteq> Inr None"
  shows "db_readOnly s' \<and> db_skiplist s' = db_skiplist s"
  using assms
  by (auto simp: mem_flushToDisk_def Let_def sx_bind_def sx_return_def call_storage_def call_wal_remove_def
      split: prod.splits sum.splits if_splits)

lemma mem_flushToDisk_clears:
  assumes "mem_flushToDisk s = (Inr None, s')"
  shows "\<not> db_readOnly s' \<and> m_map (db_skiplist s') = []"
  using assms
  by (auto simp: mem_flushToDisk_def Let_def sx_bind_def sx_return_def call_storage_def call_wal_remove_def skip_list_clear_def
      split: prod.splits sum.splits if_splits)

lemma mem_write_readOnly:
  assumes "db_readOnly s"
  shows "snd ((case x of Some v \<Rightarrow> mem_put k v | None \<Rightarrow> mem_del k) s) = s \<and>
    fst ((case x of Some v \<Rightarrow> mem_put k v | None \<Rightarrow> mem_del k) s) \<noteq> Inr None"
  using assms
  by (auto simp: mem_put_def mem_del_def mem_isReadOnly_def split: option.splits sum.splits bool.splits)

lemma mem_writes_readOnly:
  assumes "db_readOnly s"
  shows "snd (mem_writes ws s) = s \<and> (case fst (mem_writes ws s) of Inl _ \<Rightarrow> True | Inr rs \<Rightarrow> None \<notin> set rs)"
proof (induction ws)
  case (Cons w ws)
  obtain k x where w: "w = (k, x)" by (cases w)
  let ?op = "case x of Some v \<Rightarrow> mem_put k v | None \<Rightarrow> mem_del k"
  obtain r where r: "?op s = (r, s)" "r \<noteq> Inr None" using mem_write_readOnly [OF assms, of k x] by (cases "?op s") auto
  then show ?case using Cons w by (auto simp: sx_bind_def sx_return_def split: prod.splits sum.splits)
qed (simp add: sx_return_def)

section \<open>Properties\<close>

text \<open>
  C9: at every moment the log on disk determines the memtable.  After any sequence of writes, as long as
  there are names for the tables, and with the flushes they cause, replaying the log gives, for every key, the entry the memtable holds (a
  tombstone without its dummy value), and no entry for any other key; and the store shows the writes.
\<close>

theorem log_determines_memtable:
  assumes "db_inv True n ts s" and "filled n s + length ws \<le> nat (db_size s) * 2 ^ 16" and "\<forall>w \<in> set ws. write_small w"
  shows "\<exists>rs s' es. mem_writes ws s = (Inr rs, s') \<and> wal_getEntries (db_wal s') (db_world s') = Some es \<and>
    (\<forall>k. skip_list_get k (fold (\<lambda>e m. snd (skip_list_set e m)) es skip_list_empty) = map_option wal_normal (mem_get k s')) \<and>
    db_view s' = foldl apply_write (db_view s) ws"
proof -
  obtain rs s' n' ts' where w: "mem_writes ws s = (Inr rs, s')" "db_inv True n' ts' s'"
      "db_view s' = foldl apply_write (db_view s) ws"
    using mem_writes_ok [OF assms] by blast
  then show ?thesis using log_matches_memtable [OF w(2)] by blast
qed

theorem log_determines_memtable_witness:
  "\<exists>rs s' es. mem_writes [(''k'', Some ''v''), (''k'', None)] (MemTableImpl 3 skip_list_empty (StorageManagerImpl ''./sstables'' 3 InMemory) (WAL 0 ''./wal'') 0 fresh_world) = (Inr rs, s') \<and>
    wal_getEntries (db_wal s') (db_world s') = Some es \<and> db_view s' ''k'' = None"
proof -
  let ?ws = "[(''k'', Some ''v''), (''k'', None)]"
  let ?s = "MemTableImpl 3 skip_list_empty (StorageManagerImpl ''./sstables'' 3 InMemory) (WAL 0 ''./wal'') 0 fresh_world"
  have "db_inv True 0 [] ?s" by (rule db_inv_new [OF fresh_disk_fresh_world]) simp_all
  moreover have "filled 0 ?s + length ?ws \<le> nat (db_size ?s) * 2 ^ 16" "\<forall>w \<in> set ?ws. write_small w"
    by (simp_all add: write_small_def filled_def MemTableImpl_def skip_list_empty_def)
  ultimately obtain rs s' es where "mem_writes ?ws ?s = (Inr rs, s')" "wal_getEntries (db_wal s') (db_world s') = Some es"
      "db_view s' = foldl apply_write (db_view ?s) ?ws"
    using log_determines_memtable by blast
  then show ?thesis by (auto simp: apply_write_def simp del: mem_writes.simps)
qed

text \<open>
  C10: \<open>replayWal\<close> recovers the logged writes: on a log of complete records it ends without error
  and with the effect of the logged writes, in order, on what the store shows; the memtable is then
  empty and the log matches it.
\<close>

theorem replay_recovers_writes:
  assumes "db_inv False n ts s" and "n + length es < 2 ^ 16" and "\<forall>e \<in> set es. entry_small e"
    and "old_content (w_fullPath (db_wal s)) (db_world s) = concat (map (wal_record (host_order (db_world s))) es)"
  shows "\<exists>s' n' ts'. mem_replayWal s = (Inr None, s') \<and> db_inv True n' ts' s' \<and>
    db_view s' = foldl (\<lambda>v e. v(e_key e := entry_view e)) (db_view s) es \<and> m_map (db_skiplist s') = []"
proof -
  have "s\<lparr>db_readOnly := False\<rparr> = s" using assms(1) by (cases s) (simp add: db_inv_def memtable_ok_def)
  then show ?thesis
    using mem_replayWal_ok [OF _ assms(2-4), of False ts] assms(1)
    by (auto simp: apply_entries_def skip_list_empty_def) blast
qed

theorem replay_recovers_writes_witness:
  "\<exists>s'. mem_replayWal (MemTableImpl 3 skip_list_empty (StorageManagerImpl ''./sstables'' 3 InMemory) (WAL 0 ''./wal'') 0
      (set_file (w_fullPath (WAL 0 ''./wal'')) (wal_record Little (Entry ''k'' ''v'' False)) fresh_world)) = (Inr None, s') \<and>
    db_view s' ''k'' = Some ''v''"
proof -
  let ?e = "Entry ''k'' ''v'' False" and ?p = "w_fullPath (WAL 0 ''./wal'')"
  let ?w = "set_file ?p (wal_record Little ?e) fresh_world"
  let ?s = "MemTableImpl 3 skip_list_empty (StorageManagerImpl ''./sstables'' 3 InMemory) (WAL 0 ''./wal'') 0 ?w"
  have "fresh_disk ''./sstables'' ''./wal'' ?w"
    using fresh_disk_fresh_world by (simp add: fresh_disk_def no_levels_on_disk_def lists_all_def)
  then have "db_inv False 0 [] ?s" by (rule db_inv_new) simp_all
  moreover have "old_content (w_fullPath (db_wal ?s)) (db_world ?s) = concat (map (wal_record (host_order (db_world ?s))) [?e])"
    by (simp add: MemTableImpl_def old_content_def) (simp add: fresh_world_def)
  ultimately show ?thesis
    using replay_recovers_writes [of 0 "[]" ?s "[?e]"] by (auto simp: entry_small_def entry_view_def)
qed



end
