(* ===== verification/Message.thy ===== *)
theory Message
  imports Prelude
begin

text \<open>The messages of the protocol, \<open>src/api/message.h\<close>.\<close>

datatype command = PUT | GET | DEL | EXIT | FLUSH_CMD | UNKNOWN

record request =
  req_command :: command
  req_args :: "string list"

record response =
  res_ok :: bool
  res_message :: string
  res_data :: "string option"

definition Response :: "bool \<Rightarrow> string \<Rightarrow> string option \<Rightarrow> response" where
  "Response k m d = \<lparr>res_ok = k, res_message = m, res_data = d\<rparr>"

lemma Response_sel [simp]:
  "res_ok (Response k m d) = k" "res_message (Response k m d) = m" "res_data (Response k m d) = d"
  by (simp_all add: Response_def)

lemma Response_inject [simp]: "Response k m d = Response k' m' d' \<longleftrightarrow> k = k' \<and> m = m' \<and> d = d'"
  by (simp add: Response_def)

end
