(* ===== verification/Db.thy ===== *)
theory Db
  imports Mem_Table Message
begin

text \<open>
  \<open>DbImpl\<close> (\<open>src/core/db_impl.cpp\<close>) and \<open>DbFactory\<close> (\<open>src/factories/db_factory.cpp\<close>): the public
  operations of the store and its configuration.
\<close>

section \<open>Operations\<close>

definition db_put :: "string \<Rightarrow> string \<Rightarrow> (db, response) sx" where
  "db_put key val =
     sx_bind (mem_put key val) (\<lambda>errOpt.
       case errOpt of
         Some err \<Rightarrow> sx_return (Response False (error_msg err) None)
       | None \<Rightarrow> sx_return (Response True ''OK'' None))"

definition db_get :: "string \<Rightarrow> db \<Rightarrow> exn + response" where
  "db_get key s =
     (case mem_get key s of
        Some e \<Rightarrow>
          if e_tombstone e then Inr (Response False ''Key does not exist'' None)
          else Inr (Response True ''OK'' (Some (e_val e)))
      | None \<Rightarrow>
          rbind (storage_get key (db_storage s) (db_world s)) (\<lambda>found.
            case found of
              None \<Rightarrow> Inr (Response False ''Key does not exist'' None)
            | Some e \<Rightarrow> Inr (Response True ''OK'' (Some (e_val e)))))"

definition db_del :: "string \<Rightarrow> (db, response) sx" where
  "db_del key =
     sx_bind (mem_del key) (\<lambda>errOpt.
       case errOpt of
         Some err \<Rightarrow> sx_return (Response False (''Failed to DELETE key: '' @ error_msg err) None)
       | None \<Rightarrow> sx_return (Response True ''OK'' None))"

definition db_forceCompactForTests :: "(db, response) sx" where
  "db_forceCompactForTests s =
     (case storage_compact (db_storage s) of
        Inl ex \<Rightarrow> (Inl ex, s)
      | Inr (_, st) \<Rightarrow> (Inr (Response True ''OK'' None), s\<lparr>db_storage := st\<rparr>))"

text \<open>The result of the flush is not looked at.\<close>

definition db_forceFlushForTests :: "(db, response) sx" where
  "db_forceFlushForTests = sx_bind mem_flushToDisk (\<lambda>_. sx_return (Response True ''OK'' None))"

section \<open>Factory\<close>

record db_config =
  cfg_memtableCapacity :: int
  cfg_walId :: u64
  cfg_walDirectory :: path
  cfg_sstableDirectory :: path
  cfg_maxLevels :: int
  cfg_tableFormat :: TableFormatKind

definition DbFactoryConfig :: db_config where
  "DbFactoryConfig =
     \<lparr>cfg_memtableCapacity = 3, cfg_walId = 0, cfg_walDirectory = ''./wal'',
      cfg_sstableDirectory = ''./sstables'', cfg_maxLevels = 3, cfg_tableFormat = InMemory\<rparr>"

definition createDbWithConfig :: "db_config \<Rightarrow> world \<Rightarrow> db" where
  "createDbWithConfig config w =
     (let storageManagerImpl = StorageManagerImpl (cfg_sstableDirectory config) (cfg_maxLevels config) (cfg_tableFormat config);
          l = WAL (cfg_walId config) (cfg_walDirectory config)
      in MemTableImpl (cfg_memtableCapacity config) skip_list_empty storageManagerImpl l 0 w)"

definition createDefaultDb :: "world \<Rightarrow> db" where
  "createDefaultDb = createDbWithConfig DbFactoryConfig"

definition createDbForTests :: "world \<Rightarrow> db" where
  "createDbForTests = createDbWithConfig DbFactoryConfig"

definition createBlockBasedDb :: "world \<Rightarrow> db" where
  "createBlockBasedDb = createDbWithConfig (DbFactoryConfig\<lparr>cfg_tableFormat := BlockBased\<rparr>)"

definition createBlockBasedDbForTests :: "world \<Rightarrow> db" where
  "createBlockBasedDbForTests = createDbWithConfig (DbFactoryConfig\<lparr>cfg_tableFormat := BlockBased\<rparr>)"

section \<open>Correctness of the operations\<close>

text \<open>
  The store is good for \<open>b\<close> more writes: the invariant holds, and the table names left are enough for
  the flushes they cause.
\<close>

definition db_ok :: "nat \<Rightarrow> db \<Rightarrow> bool" where
  "db_ok b s \<longleftrightarrow> (\<exists>n ts. db_inv False n ts s \<and> filled n s + b \<le> nat (db_size s) * 2 ^ 16)"

lemma db_okE:
  assumes "db_ok b s"
  obtains n ts where "db_inv False n ts s" and "filled n s + b \<le> nat (db_size s) * 2 ^ 16"
  using assms unfolding db_ok_def by blast

lemma db_ok_mono: "db_ok b s \<Longrightarrow> c \<le> b \<Longrightarrow> db_ok c s"
  unfolding db_ok_def by (meson add_left_mono order_trans)

definition get_response :: "string option \<Rightarrow> response" where
  "get_response x = (case x of None \<Rightarrow> Response False ''Key does not exist'' None | Some v \<Rightarrow> Response True ''OK'' (Some v))"

lemma db_put_exact:
  assumes "db_inv False n ts s" and "n < 2 ^ 16" and "length k \<le> 2 ^ 30" and "length v \<le> 2 ^ 30"
  shows "\<exists>s' n' ts'. db_put k v s = (Inr (Response True ''OK'' None), s') \<and> db_inv False n' ts' s' \<and>
    db_view s' = (db_view s)(k \<mapsto> v) \<and> flushed_if (mem_full s) n ts n' ts' s s' \<and>
    m_map (db_skiplist s') = map_assign k (Entry k v False) (if mem_full s then [] else m_map (db_skiplist s))"
proof -
  obtain s' n' ts' where "mem_put k v s = (Inr None, s')" "db_inv False n' ts' s'" "db_view s' = (db_view s)(k \<mapsto> v)"
      "flushed_if (mem_full s) n ts n' ts' s s'"
      "m_map (db_skiplist s') = map_assign k (Entry k v False) (if mem_full s then [] else m_map (db_skiplist s))"
    using mem_put_ok [OF assms] by blast
  then show ?thesis by (simp add: db_put_def sx_simps) blast
qed

lemma db_put_ok:
  assumes "db_ok (Suc b) s" and "length k \<le> 2 ^ 30" and "length v \<le> 2 ^ 30"
  shows "\<exists>s'. db_put k v s = (Inr (Response True ''OK'' None), s') \<and> db_ok b s' \<and> db_view s' = (db_view s)(k \<mapsto> v) \<and>
    db_size s' = db_size s"
proof -
  obtain n ts where n: "db_inv False n ts s" "filled n s + Suc b \<le> nat (db_size s) * 2 ^ 16" using assms(1) by (rule db_okE)
  then have "n < 2 ^ 16" using name_left by blast
  then obtain s' n' ts' where s': "db_put k v s = (Inr (Response True ''OK'' None), s')" "db_inv False n' ts' s'"
      "db_view s' = (db_view s)(k \<mapsto> v)" "flushed_if (mem_full s) n ts n' ts' s s'"
      "m_map (db_skiplist s') = map_assign k (Entry k v False) (if mem_full s then [] else m_map (db_skiplist s))"
    using db_put_exact [OF n(1) _ assms(2,3)] by blast
  note f = filled_write [OF s'(4,5)]
  have "filled n' s' + b \<le> nat (db_size s') * 2 ^ 16" unfolding f(2) using f(1) n(2) by linarith
  then show ?thesis using s' f(2) unfolding db_ok_def by blast
qed

lemma db_put_nonempty: "db_put k v s = (Inr (Response True m d), s') \<Longrightarrow> m_map (db_skiplist s') \<noteq> []"
  by (auto simp: db_put_def mem_put_def Response_def sx_bind_def sx_return_def set_entry_def skip_list_set_def fst_map_assign
      split: prod.splits sum.splits if_splits option.splits dest: arg_cong [of _ _ "\<lambda>m. fst ` set m"])

lemma db_get_inv:
  assumes "db_inv False n ts s"
  shows "db_get k s = Inr (get_response (db_view s k))"
  using db_inv_storage_get [OF assms, of k] db_inv_view [OF assms, of k]
  by (auto simp: db_get_def get_response_def live_def tf.stored_value split: option.splits)

lemma db_get_ok: "db_ok b s \<Longrightarrow> db_get k s = Inr (get_response (db_view s k))"
  by (auto simp: db_ok_def intro: db_get_inv)

definition del_missing :: response where
  "del_missing = Response False ''Failed to DELETE key: Cannot DELETE: key does not exist'' None"

lemma db_del_ok:
  assumes "db_ok (Suc b) s" and "length k \<le> 2 ^ 30"
  shows "\<exists>r s'. db_del k s = (Inr r, s') \<and> db_ok b s' \<and> db_view s' = (db_view s)(k := None) \<and> db_size s' = db_size s \<and>
    (r = Response True ''OK'' None \<and> mem_get k s' \<noteq> None \<and> (mem_get k s \<noteq> None \<or> db_view s k \<noteq> None) \<or>
     r = del_missing \<and> s' = s \<and> db_view s k = None \<and> mem_get k s = None)"
proof -
  obtain n ts where n: "db_inv False n ts s" "filled n s + Suc b \<le> nat (db_size s) * 2 ^ 16" using assms(1) by (rule db_okE)
  then have "n < 2 ^ 16" using name_left by blast
  then obtain r s' n' ts' where d: "mem_del k s = (Inr r, s')" "n' \<le> Suc n" "db_inv False n' ts' s'"
      "db_view s' = (db_view s)(k := None)" "r = None \<longleftrightarrow> mem_get k s \<noteq> None \<or> db_view s k \<noteq> None"
      "r = None \<longrightarrow> mem_get k s' \<noteq> None" "r \<noteq> None \<longrightarrow> r = Some (Error ''Cannot DELETE: key does not exist'') \<and> s' = s \<and> n' = n"
      "r = None \<longrightarrow> flushed_if (mem_full s) n ts n' ts' s s' \<and>
        m_map (db_skiplist s') = map_assign k (Entry k ''val'' True) (if mem_full s then [] else m_map (db_skiplist s))"
    using mem_del_ok [OF n(1) _ assms(2)] by blast
  have f: "filled n' s' \<le> Suc (filled n s)" "db_size s' = db_size s"
    using d(7,8) filled_write [of s n ts n' ts' s'] by (cases r; auto)+
  have "filled n' s' + b \<le> nat (db_size s') * 2 ^ 16" unfolding f(2) using f(1) n(2) by linarith
  then have "db_ok b s'" using d(3) unfolding db_ok_def by blast
  then show ?thesis using f(2)
    using d by (cases r) (auto simp: db_del_def sx_simps del_missing_def)
qed

lemma storage_compact_noop:
  assumes "sm_levels st \<noteq> [] \<Longrightarrow> length (sm_levels st) = nat (sm_maxLevel st + 1)"
  shows "storage_compact st = Inr (None, st)"
proof -
  have loop: "storage_compact_loop ns ls = Inr ls" if "\<forall>n \<in> set ns. 0 \<le> n \<and> n + 1 < int (length ls)" for ns ls
    using that by (induction ns) (simp_all add: level_compactInto_def nat_add_distrib)
  show ?thesis
  proof (cases "sm_levels st = []")
    case False
    then have "storage_compact_loop [0..sm_maxLevel st - 1] (sm_levels st) = Inr (sm_levels st)"
      using assms by (intro loop) auto
    then show ?thesis using False by (simp add: storage_compact_def)
  qed (simp add: storage_compact_def)
qed

lemma db_compact_ok:
  assumes "db_ok b s"
  shows "db_forceCompactForTests s = (Inr (Response True ''OK'' None), s)"
proof -
  obtain n ts where n: "db_inv False n ts s" using assms by (rule db_okE)
  then have "sm_levels (db_storage s) \<noteq> [] \<Longrightarrow> length (sm_levels (db_storage s)) = nat (sm_maxLevel (db_storage s) + 1)"
    by (auto simp: db_inv_def storage_inv_def storage_serves_def nat_add_distrib dest!: list_all2_lengthD split: list.splits)
  then show ?thesis using storage_compact_noop [of "db_storage s"] by (simp add: db_forceCompactForTests_def)
qed

lemma db_flush_exact:
  assumes "db_inv False n ts s" and "n < 2 ^ 16" and "m_map (db_skiplist s) \<noteq> []"
  shows "\<exists>s' p es. db_forceFlushForTests s = (Inr (Response True ''OK'' None), s') \<and> db_inv False (Suc n) ((p, es) # ts) s' \<and>
    db_view s' = db_view s \<and> db_skiplist s' = skip_list_empty \<and> content (db_world s') (w_fullPath (db_wal s')) = None \<and>
    p \<notin> fst ` set ts \<and> changes_files {p} s s'"
proof -
  have "s\<lparr>db_readOnly := False\<rparr> = s" using assms(1) by (cases s) (simp add: db_inv_def memtable_ok_def)
  then have "db_inv False n ts (s\<lparr>db_readOnly := False\<rparr>)" using assms(1) by simp
  then obtain s' p where f: "mem_flushToDisk s = (Inr None, s')"
      "db_inv True (Suc n) ((p, map snd (m_map (db_skiplist s))) # ts) s'" "db_skiplist s' = skip_list_empty"
      "content (db_world s') (w_fullPath (db_wal s')) = None" "p \<notin> fst ` set ts" "changes_files {p} s s'"
    using mem_flush_ok assms(2,3) by blast
  have "db_view s' = db_view s" by (rule flushed_view [OF assms(1) f(2,3) assms(3)])
  moreover have "db_forceFlushForTests s = (Inr (Response True ''OK'' None), s')"
    using f(1) by (simp add: db_forceFlushForTests_def sx_simps)
  ultimately show ?thesis using f(3-6) db_inv_weaken [OF f(2), of False] by blast
qed

text \<open>A forced flush takes a name for a table that may hold a single entry.\<close>

lemma db_flush_ok:
  assumes "db_ok b s" and "m_map (db_skiplist s) \<noteq> []"
  shows "\<exists>s'. db_forceFlushForTests s = (Inr (Response True ''OK'' None), s') \<and> (\<forall>k. db_get k s' = Inr (get_response (db_view s' k))) \<and>
    (\<forall>c. nat (db_size s) + c \<le> b \<longrightarrow> db_ok c s') \<and> db_view s' = db_view s \<and>
    db_skiplist s' = skip_list_empty \<and> content (db_world s') (w_fullPath (db_wal s')) = None"
proof -
  obtain n ts where n: "db_inv False n ts s" "filled n s + b \<le> nat (db_size s) * 2 ^ 16" using assms(1) by (rule db_okE)
  then have "n < 2 ^ 16" using name_left assms(2) by blast
  then obtain s' p es where f: "db_forceFlushForTests s = (Inr (Response True ''OK'' None), s')" "db_inv False (Suc n) ((p, es) # ts) s'"
      "db_view s' = db_view s" "db_skiplist s' = skip_list_empty" "content (db_world s') (w_fullPath (db_wal s')) = None" "changes_files {p} s s'"
    using db_flush_exact [OF n(1) _ assms(2)] by blast
  moreover have "db_ok c s'" if "nat (db_size s) + c \<le> b" for c
  proof -
    have "filled (Suc n) s' + c \<le> nat (db_size s') * 2 ^ 16"
      using f(4,6) n(2) that by (simp add: filled_def skip_list_empty_def changes_files_def)
    then show ?thesis using f(2) unfolding db_ok_def by blast
  qed
  moreover have "db_get k s' = Inr (get_response (db_view s' k))" for k by (rule db_get_inv [OF f(2)])
  ultimately show ?thesis by blast
qed

lemma db_size_new [simp]: "db_size (createDbWithConfig config w) = cfg_memtableCapacity config"
  by (simp add: createDbWithConfig_def MemTableImpl_def)

lemma db_new_ok:
  assumes "fresh_disk (cfg_sstableDirectory config) (cfg_walDirectory config) w"
    and "1 \<le> cfg_memtableCapacity config" and "cfg_memtableCapacity config \<le> 2 ^ 20" and "0 \<le> cfg_maxLevels config"
    and "b \<le> nat (cfg_memtableCapacity config) * 2 ^ 16"
  shows "db_ok b (createDbWithConfig config w)" and "db_view (createDbWithConfig config w) = (\<lambda>_. None)"
proof -
  have "db_inv False 0 [] (createDbWithConfig config w)"
    unfolding createDbWithConfig_def Let_def using assms by (intro db_inv_new) simp_all
  moreover have "filled 0 (createDbWithConfig config w) + b \<le> nat (db_size (createDbWithConfig config w)) * 2 ^ 16"
    using assms(5) by (simp add: filled_def createDbWithConfig_def MemTableImpl_def skip_list_empty_def)
  ultimately show "db_ok b (createDbWithConfig config w)" unfolding db_ok_def by blast
  show "db_view (createDbWithConfig config w) = (\<lambda>_. None)"
    by (simp add: fun_eq_iff db_view_def createDbWithConfig_def MemTableImpl_def StorageManagerImpl_def mem_get_def
        storage_get_def sl.lookup_empty)
qed

text \<open>The default store on an empty system, after one write; the state several examples start from.\<close>

lemma default_db_ok:
  assumes "b \<le> 3 * 2 ^ 16"
  shows "db_ok b (createDefaultDb fresh_world)"
  unfolding createDefaultDb_def
  by (rule db_new_ok) (simp_all add: DbFactoryConfig_def fresh_disk_fresh_world assms [simplified])

lemma default_db_put:
  assumes "Suc b \<le> 3 * 2 ^ 16"
  obtains s where "db_put ''k'' ''v'' (createDefaultDb fresh_world) = (Inr (Response True ''OK'' None), s)"
    and "db_ok b s" and "db_view s ''k'' = Some ''v''" and "db_size s = 3"
proof -
  have "db_size (createDefaultDb fresh_world) = 3"
    by (simp add: createDefaultDb_def DbFactoryConfig_def)
  moreover have "length ''k'' \<le> 2 ^ 30" "length ''v'' \<le> 2 ^ 30" by simp_all
  ultimately show ?thesis using db_put_ok [OF default_db_ok [OF assms]] that by fastforce
qed

section \<open>Properties\<close>

text \<open>
  C3: a successful \<open>put\<close> makes the value visible to \<open>get\<close>, also when it triggered a flush, and
  changes no other key.
\<close>

theorem put_then_get:
  assumes "db_ok (Suc b) s" and "length k \<le> 2 ^ 30" and "length v \<le> 2 ^ 30"
  shows "\<exists>s'. db_put k v s = (Inr (Response True ''OK'' None), s') \<and>
    db_get k s' = Inr (Response True ''OK'' (Some v)) \<and> (\<forall>k'. k' \<noteq> k \<longrightarrow> db_get k' s' = db_get k' s)"
proof -
  obtain s' where s': "db_put k v s = (Inr (Response True ''OK'' None), s')" "db_ok b s'" "db_view s' = (db_view s)(k \<mapsto> v)"
    using db_put_ok [OF assms] by blast
  then show ?thesis using db_get_ok [OF s'(2)] db_get_ok [OF assms(1)] by (simp add: get_response_def)
qed

theorem put_then_get_witness:
  "\<exists>s'. db_put ''k'' ''v'' (createDefaultDb fresh_world) = (Inr (Response True ''OK'' None), s') \<and>
    db_get ''k'' s' = Inr (Response True ''OK'' (Some ''v''))"
  using put_then_get [OF default_db_ok, of 0 "''k''" "''v''"] by auto

text \<open>
  C4: \<open>del\<close> removes a key for good: afterwards \<open>get\<close> does not find it, and later flushes do not
  bring it back.
\<close>

theorem del_then_get:
  assumes "db_ok (Suc b) s" and "length k \<le> 2 ^ 30" and "db_get k s = Inr (Response True ''OK'' (Some v))"
  shows "\<exists>s' s''. db_del k s = (Inr (Response True ''OK'' None), s') \<and>
    db_get k s' = Inr (Response False ''Key does not exist'' None) \<and>
    db_forceFlushForTests s' = (Inr (Response True ''OK'' None), s'') \<and>
    db_get k s'' = Inr (Response False ''Key does not exist'' None)"
proof -
  have v: "db_view s k \<noteq> None" using assms(3) db_get_ok [OF assms(1)] by (auto simp: get_response_def split: option.splits)
  obtain r s' where s': "db_del k s = (Inr r, s')" "db_ok b s'" "db_view s' = (db_view s)(k := None)"
      "r = Response True ''OK'' None \<and> mem_get k s' \<noteq> None"
    using db_del_ok [OF assms(1,2)] v by blast
  have "m_map (db_skiplist s') \<noteq> []" using s'(4) by (auto simp: mem_get_def skip_list_get_def)
  then obtain s'' where "db_forceFlushForTests s' = (Inr (Response True ''OK'' None), s'')" "db_view s'' = db_view s'"
      "\<forall>k. db_get k s'' = Inr (get_response (db_view s'' k))"
    using db_flush_ok [OF s'(2)] by blast
  then show ?thesis using s' db_get_ok [OF s'(2)] by (auto simp: get_response_def)
qed

theorem del_then_get_witness:
  "\<exists>s' s''. db_del ''k'' (snd (db_put ''k'' ''v'' (createDefaultDb fresh_world))) = (Inr (Response True ''OK'' None), s') \<and>
    db_forceFlushForTests s' = (Inr (Response True ''OK'' None), s'') \<and>
    db_get ''k'' s'' = Inr (Response False ''Key does not exist'' None)"
proof -
  obtain s where s: "db_put ''k'' ''v'' (createDefaultDb fresh_world) = (Inr (Response True ''OK'' None), s)"
      "db_ok (Suc 0) s" "db_view s ''k'' = Some ''v''"
    using default_db_put [of "Suc 0"] by auto
  have "db_get ''k'' s = Inr (Response True ''OK'' (Some ''v''))" using db_get_ok [OF s(2)] s(3) by (simp add: get_response_def)
  then show ?thesis using del_then_get [OF s(2), of "''k''" "''v''"] s(1) by auto
qed

text \<open>
  Deleting a key twice.  While the tombstone is still in the memtable the second \<open>del\<close> succeeds;
  after a flush the same call reports that the key does not exist.
\<close>

theorem del_twice:
  assumes "db_ok (Suc (Suc (nat (db_size s) + Suc b))) s" and "length k \<le> 2 ^ 30" and "db_view s k \<noteq> None"
  shows "\<exists>s1 s2 s3. db_del k s = (Inr (Response True ''OK'' None), s1) \<and> db_del k s1 = (Inr (Response True ''OK'' None), s2) \<and>
    db_forceFlushForTests s2 = (Inr (Response True ''OK'' None), s3) \<and>
    db_del k s3 = (Inr (Response False ''Failed to DELETE key: Cannot DELETE: key does not exist'' None), s3)"
proof -
  obtain s1 where s1: "db_del k s = (Inr (Response True ''OK'' None), s1)" "db_ok (Suc (nat (db_size s) + Suc b)) s1" "mem_get k s1 \<noteq> None"
      "db_view s1 = (db_view s)(k := None)" "db_size s1 = db_size s"
    using db_del_ok [OF assms(1,2)] assms(3) by blast
  obtain s2 where s2: "db_del k s1 = (Inr (Response True ''OK'' None), s2)" "db_ok (nat (db_size s) + Suc b) s2" "mem_get k s2 \<noteq> None"
      "db_view s2 = (db_view s1)(k := None)" "db_size s2 = db_size s"
    using db_del_ok [OF s1(2) assms(2)] s1(3,5) by auto
  have "m_map (db_skiplist s2) \<noteq> []" using s2(3) by (auto simp: mem_get_def skip_list_get_def)
  then obtain s3 where s3: "db_forceFlushForTests s2 = (Inr (Response True ''OK'' None), s3)" "db_ok (Suc b) s3"
      "db_view s3 = db_view s2" "db_skiplist s3 = skip_list_empty"
    using db_flush_ok [OF s2(2)] s2(5) by auto
  have "mem_get k s3 = None" "db_view s3 k = None"
    using s3(3,4) s2(4) by (simp_all add: mem_get_def sl.lookup_empty)
  then have "db_del k s3 = (Inr del_missing, s3)" using db_del_ok [OF s3(2) assms(2)] by blast
  then show ?thesis using s1(1) s2(1) s3(1) by (auto simp: del_missing_def)
qed

theorem del_twice_witness:
  "\<exists>s1 s2 s3. db_del ''k'' (snd (db_put ''k'' ''v'' (createDefaultDb fresh_world))) = (Inr (Response True ''OK'' None), s1) \<and>
    db_del ''k'' s1 = (Inr (Response True ''OK'' None), s2) \<and> db_forceFlushForTests s2 = (Inr (Response True ''OK'' None), s3) \<and>
    fst (db_del ''k'' s3) = Inr (Response False ''Failed to DELETE key: Cannot DELETE: key does not exist'' None)"
proof -
  obtain s where s: "db_put ''k'' ''v'' (createDefaultDb fresh_world) = (Inr (Response True ''OK'' None), s)"
      "db_ok 6 s" "db_view s ''k'' = Some ''v''" "db_size s = 3"
    using default_db_put [of 6] by auto
  have "Suc (Suc (nat (db_size s) + Suc 0)) = 6" using s(4) by simp
  then show ?thesis using del_twice [of s 0 "''k''"] s by auto
qed

text \<open>
  C26: an acknowledged write does not survive a restart, although it could.  A process starts on a
  disk without tables, with any number of complete records in its log, and a \<open>put\<close> is acknowledged.
  Its record is then the last one of the log that a store created anew on that disk has; the new store
  answers that the key does not exist.  Calling \<open>replayWal\<close> on it, which no code path does, brings the
  value back.
\<close>

theorem restart_forgets_acknowledged_write:
  assumes "fresh_disk (cfg_sstableDirectory config) (cfg_walDirectory config) w"
    and "1 \<le> cfg_memtableCapacity config" and "cfg_memtableCapacity config \<le> 2 ^ 20" and "0 \<le> cfg_maxLevels config"
    and "old_content (w_fullPath (WAL (cfg_walId config) (cfg_walDirectory config))) w = concat (map (wal_record (host_order w)) es)"
    and "\<forall>e \<in> set es. entry_small e" and "length es < 2 ^ 16 - 1" and "length k \<le> 2 ^ 30" and "length v \<le> 2 ^ 30"
  shows "\<exists>s' new s''. db_put k v (createDbWithConfig config w) = (Inr (Response True ''OK'' None), s') \<and>
    new = createDbWithConfig config (db_world s') \<and>
    wal_getEntries (db_wal new) (db_world new) = Some (map wal_normal es @ [Entry k v False]) \<and>
    db_get k new = Inr (Response False ''Key does not exist'' None) \<and>
    mem_replayWal new = (Inr None, s'') \<and> db_get k s'' = Inr (Response True ''OK'' (Some v))"
proof -
  let ?s = "createDbWithConfig config w" and ?e = "Entry k v False"
  let ?base = "cfg_walDirectory config"
  let ?p = "w_fullPath (WAL (cfg_walId config) ?base)"
  let ?w = "set_file ?p (old_content ?p w @ wal_record (host_order w) ?e) (mkdir_all ?base w)"
  let ?new = "createDbWithConfig config ?w"
  have h: "healthy w" using assms(1) by (simp add: fresh_disk_def)
  have e: "entry_small ?e" using assms(8,9) by (simp add: entry_small_def)
  have fresh: "fresh_disk (cfg_sstableDirectory config) ?base ?w"
    using assms(1) by (auto simp: fresh_disk_def no_levels_on_disk_def lists_all_def)
  have log: "old_content ?p ?w = concat (map (wal_record (host_order ?w)) (es @ [?e]))" using assms(5) by (simp add: old_content_def)
  have small: "\<forall>e \<in> set (es @ [?e]). entry_small e" using assms(6) e by simp
  have "call_wal_append ?e ?s = (Inr None, ?s\<lparr>db_world := ?w\<rparr>)"
    using wal_append_healthy [OF h wal_entry_ok_fits [OF entry_small_wal [OF e]]]
    by (simp add: call_wal_append_def createDbWithConfig_def MemTableImpl_def)
  moreover have "mem_flush_if_full ?s = (Inr None, ?s)" "\<not> db_readOnly ?s"
    using assms(2) by (simp_all add: mem_flush_if_full_def skip_list_getLength_def createDbWithConfig_def MemTableImpl_def
        skip_list_empty_def int_of_size_small)
  ultimately have put: "db_put k v ?s = (Inr (Response True ''OK'' None), set_entry ?e (?s\<lparr>db_world := ?w\<rparr>))"
    by (simp add: db_put_def mem_put_def mem_isReadOnly_def sx_simps)
  have new: "db_world ?new = ?w" "db_wal ?new = WAL (cfg_walId config) ?base"
    by (simp_all add: createDbWithConfig_def MemTableImpl_def)
  have inv: "db_inv False 0 [] ?new"
    unfolding createDbWithConfig_def Let_def using fresh assms(2-4) by (intro db_inv_new) simp_all
  have ok: "\<forall>e \<in> set (es @ [?e]). wal_entry_ok e" using small entry_small_wal by blast
  have "healthy ?w" using fresh by (simp add: fresh_disk_def)
  from wal_getEntries_records [OF this log ok]
  have entries: "wal_getEntries (db_wal ?new) (db_world ?new) = Some (map wal_normal es @ [?e])"
    unfolding new by (simp add: wal_normal_def wal_value_def)
  have view: "db_view ?new = (\<lambda>_. None)" using db_new_ok(2) [OF fresh assms(2-4), of 0] by simp
  then have none: "db_get k ?new = Inr (Response False ''Key does not exist'' None)"
    using db_get_inv [OF inv] by (simp add: get_response_def)
  have "?new\<lparr>db_readOnly := False\<rparr> = ?new" by (simp add: createDbWithConfig_def MemTableImpl_def)
  then obtain s'' n ts where s'': "mem_replayWal ?new = (Inr None, s'')" "db_inv True n ts s''"
      "db_view s'' = apply_entries (es @ [?e]) (db_view ?new)"
    using mem_replayWal_ok [of False 0 "[]" ?new "es @ [?e]"] inv small log assms(7) unfolding new by auto
  then have "db_get k s'' = Inr (Response True ''OK'' (Some v))"
    using db_get_inv [OF db_inv_weaken [OF s''(2)]] by (simp add: apply_entries_def entry_view_def get_response_def)
  moreover have "db_world (set_entry ?e (?s\<lparr>db_world := ?w\<rparr>)) = ?w" by (simp add: set_entry_def)
  ultimately show ?thesis using put entries none s''(1) by metis
qed

theorem restart_forgets_acknowledged_write_witness:
  "\<exists>s' s''. db_put ''k'' ''v'' (createDefaultDb fresh_world) = (Inr (Response True ''OK'' None), s') \<and>
    db_get ''k'' (createDefaultDb (db_world s')) = Inr (Response False ''Key does not exist'' None) \<and>
    mem_replayWal (createDefaultDb (db_world s')) = (Inr None, s'') \<and> db_get ''k'' s'' = Inr (Response True ''OK'' (Some ''v''))"
  using restart_forgets_acknowledged_write [of DbFactoryConfig fresh_world "[]" "''k''" "''v''"]
  by (auto simp: createDefaultDb_def DbFactoryConfig_def fresh_disk_fresh_world old_content_def)

text \<open>
  C27: a log found at the start is lost.  Whatever an earlier process left in the log file, after
  one write and one flush the file is gone and the store shows only the new write.
\<close>

theorem old_log_is_discarded:
  assumes "fresh_disk (cfg_sstableDirectory config) (cfg_walDirectory config) w"
    and "1 \<le> cfg_memtableCapacity config" and "cfg_memtableCapacity config \<le> 2 ^ 20" and "0 \<le> cfg_maxLevels config"
    and "content w (w_fullPath (WAL (cfg_walId config) (cfg_walDirectory config))) = Some old"
    and "length k \<le> 2 ^ 30" and "length v \<le> 2 ^ 30"
  shows "\<exists>s1 s2. db_put k v (createDbWithConfig config w) = (Inr (Response True ''OK'' None), s1) \<and>
    db_forceFlushForTests s1 = (Inr (Response True ''OK'' None), s2) \<and>
    content (db_world s2) (w_fullPath (db_wal s2)) = None \<and> db_view s2 = [k \<mapsto> v]"
proof -
  have ok: "db_ok (Suc (Suc 0)) (createDbWithConfig config w)" and v0: "db_view (createDbWithConfig config w) = (\<lambda>_. None)"
    using db_new_ok [OF assms(1-4), of "Suc (Suc 0)"] assms(2) by simp_all
  obtain s1 where s1: "db_put k v (createDbWithConfig config w) = (Inr (Response True ''OK'' None), s1)" "db_ok (Suc 0) s1"
      "db_view s1 = (db_view (createDbWithConfig config w))(k \<mapsto> v)"
    using db_put_ok [OF ok assms(6,7)] by blast
  have "m_map (db_skiplist s1) \<noteq> []" by (rule db_put_nonempty [OF s1(1)])
  then obtain s2 where "db_forceFlushForTests s1 = (Inr (Response True ''OK'' None), s2)" "db_view s2 = db_view s1"
      "content (db_world s2) (w_fullPath (db_wal s2)) = None"
    using db_flush_ok [OF s1(2)] by blast
  then show ?thesis using s1(1,3) v0 by auto
qed

theorem old_log_is_discarded_witness:
  "\<exists>s1 s2. db_put ''k'' ''v'' (createDefaultDb (set_file (w_fullPath (WAL 0 ''./wal'')) ''old records'' fresh_world)) =
      (Inr (Response True ''OK'' None), s1) \<and>
    db_forceFlushForTests s1 = (Inr (Response True ''OK'' None), s2) \<and>
    content (db_world s2) (w_fullPath (db_wal s2)) = None"
proof -
  have "fresh_disk ''./sstables'' ''./wal'' (set_file p d fresh_world)" for p d
    using fresh_disk_fresh_world by (simp add: fresh_disk_def no_levels_on_disk_def lists_all_def)
  then show ?thesis
    using old_log_is_discarded [of DbFactoryConfig "set_file (w_fullPath (WAL 0 ''./wal'')) ''old records'' fresh_world"
        "''old records''" "''k''" "''v''"]
    by (auto simp: createDefaultDb_def DbFactoryConfig_def)
qed

end
