(* ===== verification/Command_Handler.thy ===== *)
theory Command_Handler
  imports Db
begin

text \<open>
  \<open>CommandHandler::execute\<close> (\<open>src/api/command_handler.cpp\<close>) and the contract of the store as a
  service: an abstract map that answers a sequence of requests.
\<close>

section \<open>The dispatcher\<close>

definition handler_execute :: "command \<Rightarrow> string list \<Rightarrow> (db, response) sx" where
  "handler_execute cmd args =
     (case cmd of
        GET \<Rightarrow> (case args of
            [] \<Rightarrow> sx_return (Response False ''Usage: GET <key>'' None)
          | key # _ \<Rightarrow> (\<lambda>s. (db_get key s, s)))
      | PUT \<Rightarrow> (case args of
            key # val # _ \<Rightarrow> db_put key val
          | _ \<Rightarrow> sx_return (Response False ''Usage: PUT <key> <value>'' None))
      | DEL \<Rightarrow> (case args of
            [] \<Rightarrow> sx_return (Response False ''Usage: DEL <key>'' None)
          | key # _ \<Rightarrow> db_del key)
      | FLUSH_CMD \<Rightarrow> db_forceFlushForTests
      | EXIT \<Rightarrow> sx_return (Response True ''Bye'' None)
      | UNKNOWN \<Rightarrow> sx_return (Response False ''Unknown command'' None))"

text \<open>Requests served one after the other; the first exception ends the run.\<close>

fun serve_all :: "(command \<Rightarrow> string list \<Rightarrow> ('s, response) sx) \<Rightarrow> request list \<Rightarrow> ('s, response list) sx" where
  "serve_all execute [] = sx_return []"
| "serve_all execute (q # qs) =
     sx_bind (execute (req_command q) (req_args q)) (\<lambda>r.
       sx_bind (serve_all execute qs) (\<lambda>rs. sx_return (r # rs)))"

section \<open>The abstract store\<close>

text \<open>
  What a client may observe: a map from keys to values.  The answer to a \<open>DEL\<close> of a key that is not
  there is left open, because it depends on whether an older tombstone is still in the memtable.
\<close>

inductive spec_step :: "(string \<rightharpoonup> string) \<Rightarrow> request \<Rightarrow> response \<Rightarrow> (string \<rightharpoonup> string) \<Rightarrow> bool" where
  spec_get: "spec_step m \<lparr>req_command = GET, req_args = k # xs\<rparr> (get_response (m k)) m"
| spec_get_usage: "spec_step m \<lparr>req_command = GET, req_args = []\<rparr> (Response False ''Usage: GET <key>'' None) m"
| spec_put: "spec_step m \<lparr>req_command = PUT, req_args = k # v # xs\<rparr> (Response True ''OK'' None) (m(k \<mapsto> v))"
| spec_put_usage: "length xs < 2 \<Longrightarrow>
    spec_step m \<lparr>req_command = PUT, req_args = xs\<rparr> (Response False ''Usage: PUT <key> <value>'' None) m"
| spec_del: "spec_step m \<lparr>req_command = DEL, req_args = k # xs\<rparr> (Response True ''OK'' None) (m(k := None))"
| spec_del_missing: "m k = None \<Longrightarrow> spec_step m \<lparr>req_command = DEL, req_args = k # xs\<rparr> del_missing m"
| spec_del_usage: "spec_step m \<lparr>req_command = DEL, req_args = []\<rparr> (Response False ''Usage: DEL <key>'' None) m"
| spec_exit: "spec_step m \<lparr>req_command = EXIT, req_args = xs\<rparr> (Response True ''Bye'' None) m"
| spec_unknown: "spec_step m \<lparr>req_command = UNKNOWN, req_args = xs\<rparr> (Response False ''Unknown command'' None) m"

inductive_simps spec_get_simps [simp]: "spec_step m \<lparr>req_command = GET, req_args = k # xs\<rparr> r m'"
inductive_simps spec_put_simps [simp]: "spec_step m \<lparr>req_command = PUT, req_args = k # v # xs\<rparr> r m'"
inductive_simps spec_del_simps: "spec_step m \<lparr>req_command = DEL, req_args = k # xs\<rparr> r m'"

inductive spec_run :: "(string \<rightharpoonup> string) \<Rightarrow> request list \<Rightarrow> response list \<Rightarrow> (string \<rightharpoonup> string) \<Rightarrow> bool" where
  spec_run_Nil: "spec_run m [] [] m"
| spec_run_Cons: "spec_step m q r m1 \<Longrightarrow> spec_run m1 qs rs m2 \<Longrightarrow> spec_run m (q # qs) (r # rs) m2"

inductive_simps spec_run_Nil_iff [simp]: "spec_run m [] rs m'"
inductive_simps spec_run_Cons_iff [simp]: "spec_run m (q # qs) rs m'"

lemma spec_run_length: "spec_run m qs rs m' \<Longrightarrow> length rs = length qs"
  by (induction rule: spec_run.induct) simp_all

lemma spec_run_append:
  "spec_run m (ps @ qs) rs m' \<longleftrightarrow> (\<exists>rs1 rs2 m1. rs = rs1 @ rs2 \<and> spec_run m ps rs1 m1 \<and> spec_run m1 qs rs2 m')"
proof (induction ps arbitrary: m rs)
  case (Cons p ps)
  show ?case by (simp add: Cons.IH) (metis append_Cons)
qed simp

lemma spec_run_snoc: "spec_run m qs rs m1 \<Longrightarrow> spec_step m1 q r m2 \<Longrightarrow> spec_run m (qs @ [q]) (rs @ [r]) m2"
  by (induction rule: spec_run.induct) auto

text \<open>Requests the contract covers: arguments of a bounded size, and no forced flush.\<close>

definition admissible :: "request \<Rightarrow> bool" where
  "admissible q \<longleftrightarrow> req_command q \<noteq> FLUSH_CMD \<and> (\<forall>a \<in> set (req_args q). length a \<le> 2 ^ 30)"

text \<open>Requests that may write; the others leave the store as it is.\<close>

definition is_write :: "request \<Rightarrow> bool" where
  "is_write q \<longleftrightarrow> req_command q = PUT \<or> req_command q = DEL"

definition writes :: "request list \<Rightarrow> nat" where
  "writes qs = length (filter is_write qs)"

lemma writes_simps [simp]: "writes [] = 0" "writes (q # qs) = (if is_write q then Suc (writes qs) else writes qs)"
    "writes (qs @ ps) = writes qs + writes ps"
  by (simp_all add: writes_def)

lemma writes_le: "writes qs \<le> length qs"
  by (simp add: writes_def)

section \<open>A service and its clients\<close>

text \<open>
  The interface between the store and what talks to it: a state that is good for a number of
  writes, the abstract content of the state, and a step that keeps both related.
\<close>

locale kv_service =
  fixes execute :: "command \<Rightarrow> string list \<Rightarrow> ('s, response) sx"
    and good :: "nat \<Rightarrow> 's \<Rightarrow> bool"
    and view :: "'s \<Rightarrow> string \<Rightarrow> string option"
  assumes serve: "good (if is_write q then Suc b else b) s \<Longrightarrow> admissible q \<Longrightarrow>
      \<exists>r s'. execute (req_command q) (req_args q) s = (Inr r, s') \<and> good b s' \<and> spec_step (view s) q r (view s')"
    and spare: "good (Suc b) s \<Longrightarrow> good b s"
begin

lemma serve_one:
  assumes "good (Suc b) s" and "admissible q"
  shows "\<exists>r s'. execute (req_command q) (req_args q) s = (Inr r, s') \<and> good b s' \<and> spec_step (view s) q r (view s')"
  using serve [of q b s] spare [OF assms(1)] assms by simp

lemma serve_all_refines:
  assumes "good (writes qs + b) s" and "\<forall>q \<in> set qs. admissible q"
  shows "\<exists>rs s'. serve_all execute qs s = (Inr rs, s') \<and> good b s' \<and> spec_run (view s) qs rs (view s')"
  using assms
proof (induction qs arbitrary: s)
  case (Cons q qs)
  then obtain r s1 where 1: "execute (req_command q) (req_args q) s = (Inr r, s1)" "good (writes qs + b) s1"
      "spec_step (view s) q r (view s1)"
    using serve [of q "writes qs + b" s] by (auto split: if_splits)
  then obtain rs s2 where "serve_all execute qs s1 = (Inr rs, s2)" "good b s2" "spec_run (view s1) qs rs (view s2)"
    using Cons by fastforce
  with 1 show ?case by (auto simp: sx_simps)
qed (simp add: sx_simps)

end

lemma handler_execute_spec:
  assumes "db_ok (if is_write q then Suc b else b) s" and "admissible q"
  shows "\<exists>r s'. handler_execute (req_command q) (req_args q) s = (Inr r, s') \<and> db_ok b s' \<and>
    spec_step (db_view s) q r (db_view s')"
proof -
  obtain c xs where q: "q = \<lparr>req_command = c, req_args = xs\<rparr>" by (cases q) simp
  have ok: "db_ok b s" using assms(1) by (rule db_ok_mono) simp
  have more: "db_ok (Suc b) s" if "c = PUT \<or> c = DEL" using assms(1) that by (auto simp: q is_write_def)
  have small: "\<forall>a \<in> set xs. length a \<le> 2 ^ 30" and "c \<noteq> FLUSH_CMD" using assms(2) by (simp_all add: admissible_def q)
  show ?thesis
  proof (cases c)
    case PUT
    consider "length xs < 2" | k v ys where "xs = k # v # ys" by (cases xs rule: remdups_adj.cases) auto
    then show ?thesis
    proof cases
      case 1
      then have "handler_execute PUT xs s = (Inr (Response False ''Usage: PUT <key> <value>'' None), s)"
        by (cases xs rule: remdups_adj.cases) (simp_all add: handler_execute_def sx_simps)
      then show ?thesis using 1 ok PUT by (auto simp: q intro: spec_step.intros)
    next
      case 2
      then show ?thesis using db_put_ok [OF more, of k v] small PUT by (auto simp: q handler_execute_def)
    qed
  next
    case GET
    then show ?thesis
      using ok db_get_ok [OF ok] by (cases xs) (auto simp: q handler_execute_def sx_simps intro: spec_step.intros)
  next
    case DEL
    then show ?thesis
    proof (cases xs)
      case (Cons k ys)
      obtain r s' where d: "db_del k s = (Inr r, s')" "db_ok b s'" "db_view s' = (db_view s)(k := None)"
          "r = Response True ''OK'' None \<or> r = del_missing \<and> s' = s \<and> db_view s k = None"
        using db_del_ok [OF more, of k] small Cons DEL by auto
      then have "spec_step (db_view s) q r (db_view s')"
        using DEL Cons by (auto simp: q spec_del_simps)
      then show ?thesis using d DEL Cons by (simp add: q handler_execute_def)
    qed (use ok in \<open>auto simp: q handler_execute_def sx_simps intro: spec_step.intros\<close>)
  qed (use ok \<open>c \<noteq> FLUSH_CMD\<close> in \<open>auto simp: q handler_execute_def sx_simps intro: spec_step.intros\<close>)
qed

interpretation handler: kv_service handler_execute db_ok db_view
  by unfold_locales (simp_all add: handler_execute_spec db_ok_mono)

lemma handler_flush_empty:
  assumes "db_ok b s" and "m_map (db_skiplist s) = []"
  shows "\<exists>msg s'. handler_execute FLUSH_CMD xs s = (Inl (Runtime_error msg), s') \<and> db_readOnly s' \<and> db_skiplist s' = db_skiplist s"
proof -
  obtain n ts where n: "db_inv False n ts s" using assms(1) by (rule db_okE)
  have "it_items (Skip_it (skip_list_NewIterator (db_skiplist s))) = []"
    using assms(2) by (simp add: skip_list_NewIterator_def skip_iter_items_def)
  then obtain msg st c w where
    "storage_write (Skip_it (skip_list_NewIterator (db_skiplist s))) (db_storage s, db_next_file s, db_world s) =
      (Inl (Runtime_error msg), (st, c, w))"
    using storage_write_empty n unfolding db_inv_def by (metis prod.collapse)
  then have "mem_flushToDisk s =
      (Inl (Runtime_error msg), s\<lparr>db_readOnly := True, db_storage := st, db_next_file := c, db_world := w\<rparr>)"
    by (simp add: mem_flushToDisk_def Let_def sx_bind_def call_storage_def)
  then show ?thesis by (simp add: handler_execute_def db_forceFlushForTests_def sx_simps)
qed

section \<open>The shape of the memtable\<close>

text \<open>
  Facts that hold without any assumption on the file system: every call keeps the capacity and the
  order of the skip list, also when it fails.
\<close>

definition memtable_shape :: "db \<Rightarrow> bool" where
  "memtable_shape s \<longleftrightarrow>
     1 \<le> db_size s \<and> db_size s \<le> 2 ^ 20 \<and> skip_list_inv (db_skiplist s) \<and> int (length (m_map (db_skiplist s))) \<le> db_size s"

definition keeps_shape :: "(db, 'a) sx \<Rightarrow> bool" where
  "keeps_shape m \<longleftrightarrow> (\<forall>s. memtable_shape s \<longrightarrow> memtable_shape (snd (m s)) \<and> db_size (snd (m s)) = db_size s)"

lemma keeps_shapeI:
  "(\<And>s. memtable_shape s \<Longrightarrow> memtable_shape (snd (m s)) \<and> db_size (snd (m s)) = db_size s) \<Longrightarrow> keeps_shape m"
  by (simp add: keeps_shape_def)

lemma keeps_shapeD: "keeps_shape m \<Longrightarrow> memtable_shape s \<Longrightarrow> memtable_shape (snd (m s)) \<and> db_size (snd (m s)) = db_size s"
  by (simp add: keeps_shape_def)

lemma keeps_shape_return: "keeps_shape (sx_return x)"
  by (simp add: keeps_shape_def sx_return_def)

lemma keeps_shape_bind: "keeps_shape m \<Longrightarrow> (\<And>x. keeps_shape (f x)) \<Longrightarrow> keeps_shape (sx_bind m f)"
  by (auto simp: keeps_shape_def sx_bind_def split: prod.splits sum.splits)

lemma memtable_shape_frame:
  "db_size s' = db_size s \<Longrightarrow> db_skiplist s' = db_skiplist s \<Longrightarrow> memtable_shape s' = memtable_shape s"
  by (simp add: memtable_shape_def)

lemma component_calls_frame:
  "db_size (snd (call_storage m s)) = db_size s" "db_skiplist (snd (call_storage m s)) = db_skiplist s"
  "db_size (snd (call_wal_append e s)) = db_size s" "db_skiplist (snd (call_wal_append e s)) = db_skiplist s"
  "db_size (snd (call_wal_remove s)) = db_size s" "db_skiplist (snd (call_wal_remove s)) = db_skiplist s"
  by (simp_all add: call_storage_def call_wal_append_def call_wal_remove_def split: prod.splits)

lemma mem_flushToDisk_skiplist:
  "mem_flushToDisk s = (r, s') \<Longrightarrow> db_size s' = db_size s \<and> (db_skiplist s' = db_skiplist s \<or> m_map (db_skiplist s') = []) \<and>
    (r = Inr None \<longrightarrow> m_map (db_skiplist s') = [])"
  by (auto simp: mem_flushToDisk_def sx_bind_def sx_return_def call_storage_def call_wal_remove_def skip_list_clear_def Let_def
      split: prod.splits sum.splits if_splits)

lemma mem_flush_shape:
  assumes "memtable_shape s" and "mem_flushToDisk s = (r, s')"
  shows "memtable_shape s' \<and> db_size s' = db_size s"
  using mem_flushToDisk_skiplist [OF assms(2)] assms(1) by (auto simp: memtable_shape_def skip_list_inv_def)

text \<open>After the guard there is room for one more entry.\<close>

lemma mem_flush_if_full_shape:
  assumes "memtable_shape s" and "mem_flush_if_full s = (r, s')"
  shows "memtable_shape s' \<and> db_size s' = db_size s \<and> (r = Inr None \<longrightarrow> int (length (m_map (db_skiplist s'))) < db_size s')"
proof (cases "skip_list_getLength (db_skiplist s) = Some (db_size s)")
  case True
  have "memtable_shape (s\<lparr>db_readOnly := True\<rparr>)" using assms(1) by (simp add: memtable_shape_def)
  moreover have f: "mem_flushToDisk (s\<lparr>db_readOnly := True\<rparr>) = (r, s')" using assms(2) True by (simp add: mem_flush_if_full_def)
  ultimately have "memtable_shape s'" "db_size s' = db_size s" 
    using mem_flush_shape [of "s\<lparr>db_readOnly := True\<rparr>" r s'] by simp_all
  then show ?thesis using mem_flushToDisk_skiplist [OF f] by (auto simp: memtable_shape_def)
next
  case False
  have "int_of_size (int (length (m_map (db_skiplist s)))) = int (length (m_map (db_skiplist s)))"
    using assms(1) by (intro int_of_size_small) (auto simp: memtable_shape_def)
  then show ?thesis using False assms by (auto simp: mem_flush_if_full_def skip_list_getLength_def memtable_shape_def)
qed

lemma set_entry_shape:
  assumes "memtable_shape s" and "int (length (m_map (db_skiplist s))) < db_size s"
  shows "memtable_shape (set_entry e s) \<and> db_size (set_entry e s) = db_size s"
  using assms length_map_assign [of "e_key e" e "m_map (db_skiplist s)"] sorted_map_assign [of "m_map (db_skiplist s)" "e_key e" e]
    keys_map_assign [of "m_map (db_skiplist s)" e "e_key e"]
  by (auto simp: memtable_shape_def set_entry_def skip_list_set_def skip_list_inv_def)

text \<open>The common part of \<open>put\<close> and \<open>del\<close>: the guard, the log, the skip list.\<close>

lemma keeps_shape_write:
  assumes "\<And>s. \<exists>r. after s = (r, set_entry e s)"
  shows "keeps_shape (sx_bind mem_flush_if_full (\<lambda>err. if err \<noteq> None then sx_return a
      else sx_bind (call_wal_append e) (\<lambda>err. if err \<noteq> None then sx_return b else after)))"
proof (rule keeps_shapeI)
  fix s assume s: "memtable_shape s"
  obtain r s1 where f: "mem_flush_if_full s = (r, s1)" by fastforce
  note g = mem_flush_if_full_shape [OF s f]
  let ?s2 = "snd (call_wal_append e s1)"
  have s2: "memtable_shape ?s2" "db_size ?s2 = db_size s" using g component_calls_frame(3,4) memtable_shape_frame by metis+
  have "memtable_shape (set_entry e ?s2) \<and> db_size (set_entry e ?s2) = db_size s" if "r = Inr None"
    using set_entry_shape [OF s2(1), of e] g that component_calls_frame(3,4) [of e s1] s2(2) by simp
  then show "memtable_shape (snd (sx_bind mem_flush_if_full (\<lambda>err. if err \<noteq> None then sx_return a
      else sx_bind (call_wal_append e) (\<lambda>err. if err \<noteq> None then sx_return b else after)) s)) \<and>
    db_size (snd (sx_bind mem_flush_if_full (\<lambda>err. if err \<noteq> None then sx_return a
      else sx_bind (call_wal_append e) (\<lambda>err. if err \<noteq> None then sx_return b else after)) s)) = db_size s"
    using f g s2 assms [of ?s2] by (auto simp: sx_bind_def sx_return_def split: prod.splits sum.splits)
qed

lemma keeps_shape_put: "keeps_shape (db_put k v)"
proof -
  have "keeps_shape (mem_put k v)"
    using keeps_shape_write [of "\<lambda>s. (Inr None, set_entry (Entry k v False) s)" "Entry k v False"]
    by (auto simp: keeps_shape_def mem_put_def)
  then show ?thesis unfolding db_put_def by (rule keeps_shape_bind) (simp add: keeps_shape_return split: option.split)
qed

lemma keeps_shape_del: "keeps_shape (db_del k)"
proof -
  let ?e = "Entry k ''val'' True"
  let ?after = "\<lambda>s. let s' = set_entry ?e s in if skip_list_getLength (db_skiplist s') = None
      then (Inr (Some (Error ''Failed to DELETE'')), s') else (Inr None, s')"
  have "keeps_shape (mem_del k)"
    using keeps_shape_write [of ?after ?e]
    by (auto simp: keeps_shape_def mem_del_def Let_def split: sum.splits bool.splits)
  then show ?thesis unfolding db_del_def by (rule keeps_shape_bind) (simp add: keeps_shape_return split: option.split)
qed

lemma keeps_shape_flush: "keeps_shape db_forceFlushForTests"
proof -
  have "keeps_shape mem_flushToDisk" by (rule keeps_shapeI) (metis mem_flush_shape prod.collapse)
  then show ?thesis unfolding db_forceFlushForTests_def by (rule keeps_shape_bind) (rule keeps_shape_return)
qed

lemma handler_keeps_shape: "keeps_shape (handler_execute c args)"
proof -
  have "keeps_shape (\<lambda>s. (db_get k s, s))" for k by (simp add: keeps_shape_def)
  then show ?thesis
    by (simp add: handler_execute_def keeps_shape_put keeps_shape_del keeps_shape_flush keeps_shape_return split: command.split list.split)
qed

lemma serve_all_keeps_shape: "keeps_shape (serve_all handler_execute qs)"
  by (induction qs) (auto intro!: keeps_shape_bind keeps_shape_return handler_keeps_shape)

section \<open>Properties\<close>

text \<open>
  C1: the store implements the abstract map.  A store created on a system without tables answers
  any sequence of requests (\<open>PUT\<close>, \<open>GET\<close>, \<open>DEL\<close>, \<open>EXIT\<close>, unknown ones, with too few or too many
  arguments) without an exception, and with the answers of a map, for both table formats and whatever
  flushes the capacity of the memtable causes on the way.  The number of writes is limited to what
  \<open>2 ^ 16\<close> full memtables hold, the number of other requests is not limited.
\<close>

theorem handler_refines_map:
  assumes "fresh_disk (cfg_sstableDirectory config) (cfg_walDirectory config) w"
    and "1 \<le> cfg_memtableCapacity config" and "cfg_memtableCapacity config \<le> 2 ^ 20" and "0 \<le> cfg_maxLevels config"
    and "writes qs \<le> nat (cfg_memtableCapacity config) * 2 ^ 16" and "\<forall>q \<in> set qs. admissible q"
  shows "\<exists>rs s. serve_all handler_execute qs (createDbWithConfig config w) = (Inr rs, s) \<and> spec_run Map.empty qs rs (db_view s)"
proof -
  have ok: "db_ok (writes qs + 0) (createDbWithConfig config w)" using db_new_ok [OF assms(1-4)] assms(5) by simp
  have v: "db_view (createDbWithConfig config w) = Map.empty" using db_new_ok(2) [OF assms(1-4), of 0] by simp
  show ?thesis
    using handler.serve_all_refines [OF ok assms(6)] by (auto simp: v)
qed

theorem handler_refines_map_witness:
  "\<exists>rs s. serve_all handler_execute [\<lparr>req_command = PUT, req_args = [''k'', ''v'']\<rparr>, \<lparr>req_command = DEL, req_args = [''k'']\<rparr>,
       \<lparr>req_command = GET, req_args = [''k'']\<rparr>] (createBlockBasedDb fresh_world) = (Inr rs, s) \<and>
     rs ! 2 = Response False ''Key does not exist'' None"
proof -
  let ?qs = "[\<lparr>req_command = PUT, req_args = [''k'', ''v'']\<rparr>, \<lparr>req_command = DEL, req_args = [''k'']\<rparr>,
    \<lparr>req_command = GET, req_args = [''k'']\<rparr>]"
  have "\<forall>q \<in> set ?qs. admissible q" "writes ?qs \<le> 3 * 2 ^ 16" by (simp_all add: admissible_def is_write_def)
  then obtain rs s where "serve_all handler_execute ?qs (createBlockBasedDb fresh_world) = (Inr rs, s)" "spec_run Map.empty ?qs rs (db_view s)"
    using handler_refines_map [of "DbFactoryConfig\<lparr>cfg_tableFormat := BlockBased\<rparr>" fresh_world ?qs]
    by (auto simp: createBlockBasedDb_def DbFactoryConfig_def fresh_disk_fresh_world simp del: serve_all.simps spec_run_Cons_iff)
  then show ?thesis by (auto simp: spec_del_simps get_response_def simp del: serve_all.simps)
qed

text \<open>
  \<open>_FLUSH\<close> while the memtable is empty throws out of the handler, and it leaves the memtable in
  read-only mode, so that every later \<open>PUT\<close> is refused.
\<close>

theorem flush_of_empty_memtable_throws:
  assumes "db_ok b s" and "m_map (db_skiplist s) = []"
  shows "\<exists>msg s'. handler_execute FLUSH_CMD xs s = (Inl (Runtime_error msg), s') \<and>
    handler_execute PUT (k # v # ys) s' =
      (Inr (Response False ''[MemTableImpl.put()] Cannot PUT: memtable in read-only mode'' None), s')"
proof -
  obtain msg s' where "handler_execute FLUSH_CMD xs s = (Inl (Runtime_error msg), s')" "db_readOnly s'"
    using handler_flush_empty [OF assms] by blast
  then show ?thesis
    by (auto simp: db_put_def mem_put_def mem_isReadOnly_def sx_bind_def sx_return_def handler_execute_def)
qed

theorem flush_of_empty_memtable_throws_witness:
  "\<exists>msg s'. handler_execute FLUSH_CMD [] (createDefaultDb fresh_world) = (Inl (Runtime_error msg), s') \<and>
    handler_execute PUT [''k'', ''v''] s' =
      (Inr (Response False ''[MemTableImpl.put()] Cannot PUT: memtable in read-only mode'' None), s')"
proof -
  have "m_map (db_skiplist (createDefaultDb fresh_world)) = []"
    by (simp add: createDefaultDb_def createDbWithConfig_def MemTableImpl_def skip_list_empty_def)
  then show ?thesis
    using flush_of_empty_memtable_throws [OF default_db_ok [of 0], of "[]" "''k''" "''v''" "[]"] by simp
qed

text \<open>
  C32: the memtable is well formed in every state of the store.  Whatever the file system does, its
  faults included, and whatever requests are executed, also ones that fail or throw, the skip list
  is strictly sorted, every entry stands under its own key, and there are never more entries than the
  configured capacity.
\<close>

theorem memtable_always_well_formed:
  assumes "1 \<le> cfg_memtableCapacity config" and "cfg_memtableCapacity config \<le> 2 ^ 20"
    and "s = snd (serve_all handler_execute qs (createDbWithConfig config w))"
  shows "skip_list_inv (db_skiplist s) \<and> int (length (m_map (db_skiplist s))) \<le> cfg_memtableCapacity config"
proof -
  let ?s0 = "createDbWithConfig config w"
  have "memtable_shape ?s0" "db_size ?s0 = cfg_memtableCapacity config"
    using assms(1,2) by (simp_all add: memtable_shape_def createDbWithConfig_def MemTableImpl_def skip_list_empty_def skip_list_inv_def)
  then show ?thesis
    using keeps_shapeD [OF serve_all_keeps_shape, of ?s0 qs] assms(3) by (simp add: memtable_shape_def)
qed

theorem memtable_always_well_formed_witness:
  "int (length (m_map (db_skiplist (snd (serve_all handler_execute [\<lparr>req_command = PUT, req_args = [''k'', ''v'']\<rparr>]
      (createDbWithConfig DbFactoryConfig (fresh_world\<lparr>fs_openable := \<lambda>_. False\<rparr>))))))) \<le> 3"
  using memtable_always_well_formed [of DbFactoryConfig _ "[\<lparr>req_command = PUT, req_args = [''k'', ''v'']\<rparr>]" "fresh_world\<lparr>fs_openable := \<lambda>_. False\<rparr>"]
  by (simp add: DbFactoryConfig_def del: serve_all.simps)

end
