(* ===== verification/Codec.thy ===== *)
theory Codec
  imports Message Decimal
begin

text \<open>
  The wire protocol, \<open>src/api/codec.cpp\<close>: requests are lines of tokens, responses are lines of
  length-prefixed fields.  Character classes are those of the \<open>C\<close> locale.
\<close>

section \<open>Strings\<close>

definition newline :: char where
  "newline = CHR 0x0A"

text \<open>\<open>std::isspace\<close> and \<open>std::toupper\<close>.\<close>

definition isspace_char :: "char \<Rightarrow> bool" where
  "isspace_char c \<longleftrightarrow> c \<in> {CHR '' '', CHR 0x09, CHR 0x0A, CHR 0x0B, CHR 0x0C, CHR 0x0D}"

definition toupper :: "char \<Rightarrow> char" where
  "toupper c =
     (if 97 \<le> (of_char c :: nat) \<and> (of_char c :: nat) \<le> 122 then char_of ((of_char c :: nat) - 32) else c)"

text \<open>\<open>operator>>\<close> from a string stream into a string: white space is skipped, then a token is read.\<close>

definition read_token :: "string \<Rightarrow> (string \<times> string) option" where
  "read_token s =
     (let t = dropWhile isspace_char s
      in if t = [] then None
         else Some (takeWhile (\<lambda>c. \<not> isspace_char c) t, dropWhile (\<lambda>c. \<not> isspace_char c) t))"

lemma read_token_SomeE:
  assumes "read_token s = Some (t, s')"
  obtains c u where "dropWhile isspace_char s = c # u" and "\<not> isspace_char c"
    and "t = c # takeWhile (\<lambda>c. \<not> isspace_char c) u" and "s' = dropWhile (\<lambda>c. \<not> isspace_char c) u"
proof (cases "dropWhile isspace_char s")
  case Nil
  then show ?thesis using assms by (simp add: read_token_def)
next
  case (Cons c u)
  then have "\<not> isspace_char c" using hd_dropWhile [of isspace_char s] by simp
  then show ?thesis using that [OF Cons] assms Cons by (auto simp: read_token_def)
qed

lemma read_token_shorter: "read_token s = Some (t, s') \<Longrightarrow> length s' < length s"
proof (erule read_token_SomeE)
  fix c u assume u: "dropWhile isspace_char s = c # u" and s': "s' = dropWhile (\<lambda>c. \<not> isspace_char c) u"
  have "length s' \<le> length u" by (simp add: s' length_dropWhile_le)
  also have "length u < length s" using length_dropWhile_le [of isspace_char s] u by simp
  finally show "length s' < length s" .
qed

text \<open>The loop \<open>while (iss >> token)\<close>.\<close>

function read_tokens :: "string \<Rightarrow> string list" where
  "read_tokens s = (case read_token s of None \<Rightarrow> [] | Some (t, s') \<Rightarrow> t # read_tokens s')"
  by pat_completeness auto
termination
  by (relation "measure length") (auto dest: read_token_shorter)

declare read_tokens.simps [simp del]

text \<open>\<open>std::string::substr\<close>, which throws when it starts past the end.\<close>

definition str_substr :: "string \<Rightarrow> nat \<Rightarrow> nat \<Rightarrow> exn + string" where
  "str_substr s pos n =
     (if length s < pos then Inl (Out_of_range ''basic_string::substr'') else Inr (take n (drop pos s)))"

text \<open>The scanning loops \<open>while (pos < line.size() && P(line[pos])) ++pos\<close>.\<close>

function scan :: "(char \<Rightarrow> bool) \<Rightarrow> string \<Rightarrow> nat \<Rightarrow> nat" where
  "scan P line pos = (if pos < length line \<and> P (line ! pos) then scan P line (Suc pos) else pos)"
  by pat_completeness auto
termination
  by (relation "measure (\<lambda>(P, line, pos). length line - pos)") auto

declare scan.simps [simp del]

section \<open>Requests\<close>

definition parseCommand :: "string \<Rightarrow> command" where
  "parseCommand s =
     (let cmd = map toupper s
      in if cmd = ''PUT'' then PUT
         else if cmd = ''GET'' then GET
         else if cmd = ''DEL'' then DEL
         else if cmd = ''EXIT'' then EXIT
         else if cmd = ''_FLUSH'' then FLUSH_CMD
         else UNKNOWN)"

fun command_name :: "command \<Rightarrow> string" where
  "command_name PUT = ''PUT''"
| "command_name GET = ''GET''"
| "command_name DEL = ''DEL''"
| "command_name EXIT = ''EXIT''"
| "command_name FLUSH_CMD = ''_FLUSH''"
| "command_name UNKNOWN = ''UNKNOWN''"

definition encodeRequest :: "request \<Rightarrow> string" where
  "encodeRequest req = command_name (req_command req) @ concat (map (\<lambda>arg. CHR '' '' # arg) (req_args req)) @ [newline]"

text \<open>\<open>Inl\<close> is the error message.\<close>

definition decodeLine :: "string \<Rightarrow> string + request" where
  "decodeLine line =
     (case read_token line of
        None \<Rightarrow> Inl ''empty command''
      | Some (cmdStr, iss) \<Rightarrow> Inr \<lparr>req_command = parseCommand cmdStr, req_args = read_tokens iss\<rparr>)"

section \<open>Responses\<close>

definition encodeResponse :: "response \<Rightarrow> string" where
  "encodeResponse resp =
     ''status='' @ (if res_ok resp then ''OK'' else ''ERR'') @
     '' message='' @ to_string (length (res_message resp)) @ '':'' @ res_message resp @
     '' data='' @ to_string (case res_data resp of None \<Rightarrow> 0 | Some d \<Rightarrow> length d) @ '':'' @
     (case res_data resp of None \<Rightarrow> [] | Some d \<Rightarrow> d) @ [newline]"

text \<open>\<open>compare\<close> throws when it starts past the end of the line.\<close>

definition consumeLiteral :: "string \<Rightarrow> nat \<Rightarrow> string \<Rightarrow> exn + nat option" where
  "consumeLiteral line pos literal =
     (if length line < pos then Inl (Out_of_range ''basic_string::compare'')
      else Inr (if take (length literal) (drop pos line) = literal then Some (pos + length literal) else None))"

definition parseLengthPrefixedField :: "string \<Rightarrow> nat \<Rightarrow> string \<Rightarrow> exn + (string + string \<times> nat)" where
  "parseLengthPrefixedField line pos fieldName =
     rbind (consumeLiteral line pos fieldName) (\<lambda>consumed.
       case consumed of
         None \<Rightarrow> Inr (Inl (''expected field '' @ fieldName))
       | Some lengthStart \<Rightarrow>
           let p = scan isdigit line lengthStart
           in if lengthStart = p then Inr (Inl (''expected length for field '' @ fieldName))
              else if length line \<le> p \<or> line ! p \<noteq> CHR '':''
              then Inr (Inl (''expected '' @ [CHR 0x27] @ '':'' @ [CHR 0x27] @ '' after length for field '' @ fieldName))
              else
                rbind (str_substr line lengthStart (p - lengthStart)) (\<lambda>digits.
                  case stoull digits of
                    Inl _ \<Rightarrow> Inr (Inl (''invalid length for field '' @ fieldName))
                  | Inr n \<Rightarrow>
                      if length line - Suc p < unat n
                      then Inr (Inl (''payload shorter than declared length for field '' @ fieldName))
                      else rbind (str_substr line (Suc p) (unat n)) (\<lambda>out. Inr (Inr (out, Suc p + unat n)))))"

text \<open>
  The result is the error message, if any, and the response object, which a failure leaves partly
  filled in.
\<close>

definition decode_data :: "string \<Rightarrow> nat \<Rightarrow> response \<Rightarrow> exn + string option \<times> response" where
  "decode_data line pos outRes =
     rbind (parseLengthPrefixedField line pos ''data='') (\<lambda>field.
       case field of
         Inl err \<Rightarrow> Inr (Some err, outRes)
       | Inr (d, p) \<Rightarrow>
           let res = (if d \<noteq> [] then outRes\<lparr>res_data := Some d\<rparr> else outRes);
               p' = (if p < length line \<and> line ! p = newline then Suc p else p)
           in if p' \<noteq> length line then Inr (Some ''unexpected trailing response bytes'', res) else Inr (None, res))"

definition decode_message :: "string \<Rightarrow> nat \<Rightarrow> response \<Rightarrow> exn + string option \<times> response" where
  "decode_message line pos outRes =
     rbind (parseLengthPrefixedField line pos ''message='') (\<lambda>field.
       case field of
         Inl err \<Rightarrow> Inr (Some err, outRes)
       | Inr (msg, p) \<Rightarrow>
           let res = outRes\<lparr>res_message := msg\<rparr>
           in rbind (consumeLiteral line p '' '') (\<lambda>consumed.
                case consumed of
                  None \<Rightarrow> Inr (Some ''expected space after message field'', res)
                | Some p' \<Rightarrow> decode_data line p' res))"

definition decodeResponseLine :: "string \<Rightarrow> exn + string option \<times> response" where
  "decodeResponseLine line =
     (let outRes = Response False [] None
      in rbind (consumeLiteral line 0 ''status='') (\<lambda>consumed.
           case consumed of
             None \<Rightarrow> Inr (Some ''expected status field'', outRes)
           | Some statusStart \<Rightarrow>
               let p = scan (\<lambda>c. c \<noteq> CHR '' '') line statusStart
               in rbind (str_substr line statusStart (p - statusStart)) (\<lambda>status.
                    if status \<noteq> ''OK'' \<and> status \<noteq> ''ERR'' then Inr (Some ''invalid response status'', outRes)
                    else
                      let res = outRes\<lparr>res_ok := (status = ''OK'')\<rparr>
                      in rbind (consumeLiteral line p '' '') (\<lambda>consumed'.
                           case consumed' of
                             None \<Rightarrow> Inr (Some ''expected space after status field'', res)
                           | Some p' \<Rightarrow> decode_message line p' res))))"

section \<open>Tokens\<close>

definition token :: "string \<Rightarrow> bool" where
  "token t \<longleftrightarrow> t \<noteq> [] \<and> (\<forall>c \<in> set t. \<not> isspace_char c)"

lemma read_token_token:
  assumes "token t" and "s = [] \<or> isspace_char (hd s)"
  shows "read_token (t @ s) = Some (t, s)"
proof -
  obtain c u where t: "t = c # u" "\<not> isspace_char c" using assms(1) by (cases t) (auto simp: token_def)
  have "takeWhile (\<lambda>c. \<not> isspace_char c) (t @ s) = t" "dropWhile (\<lambda>c. \<not> isspace_char c) (t @ s) = s"
    using assms by (cases s; auto simp: token_def takeWhile_append dropWhile_append)+
  then show ?thesis using t by (simp add: read_token_def)
qed

lemma read_token_space: "isspace_char c \<Longrightarrow> read_token (c # s) = read_token s"
  by (simp add: read_token_def)

lemma read_token_SomeD: "read_token s = Some (t, s') \<Longrightarrow> token t"
  by (erule read_token_SomeE) (auto simp: token_def dest: set_takeWhileD)

lemma read_tokens_are_tokens: "\<forall>t \<in> set (read_tokens s). token t"
proof (induction s rule: read_tokens.induct)
  case (1 s)
  show ?case
  proof (cases "read_token s")
    case (Some p)
    then show ?thesis using 1 read_token_SomeD by (subst read_tokens.simps) (cases p, fastforce)
  qed (simp add: read_tokens.simps)
qed

lemma isspace_simps [simp]: "isspace_char (CHR '' '')" "isspace_char newline"
  by (simp_all add: isspace_char_def newline_def)

lemma read_tokens_words:
  assumes "\<forall>t \<in> set ts. token t" and "e = [] \<or> e = [newline]"
  shows "read_tokens (concat (map (\<lambda>t. CHR '' '' # t) ts) @ e) = ts"
  using assms(1)
proof (induction ts)
  case Nil
  have "read_token e = None" using assms(2) by (auto simp: read_token_def)
  then show ?case by (subst read_tokens.simps) simp
next
  case (Cons t ts)
  let ?rest = "concat (map (\<lambda>t. CHR '' '' # t) ts) @ e"
  have "?rest = [] \<or> isspace_char (hd ?rest)" using assms(2) by (cases ts) auto
  then have "read_token (t @ ?rest) = Some (t, ?rest)" using Cons.prems by (intro read_token_token) simp_all
  then show ?case using Cons by (subst read_tokens.simps) (simp add: read_token_space)
qed

lemma token_command_name: "token (command_name c)"
  by (cases c) (simp_all add: token_def isspace_char_def)

lemma parse_command_name: "parseCommand (command_name c) = c"
  by (cases c) (simp_all add: parseCommand_def toupper_def)

text \<open>The line of a request, without its end.\<close>

definition request_line :: "request \<Rightarrow> string" where
  "request_line q = command_name (req_command q) @ concat (map (\<lambda>arg. CHR '' '' # arg) (req_args q))"

lemma encodeRequest_line: "encodeRequest q = request_line q @ [newline]"
  by (simp add: encodeRequest_def request_line_def)

lemma decode_request_line:
  assumes "\<forall>a \<in> set (req_args q). token a" and "e = [] \<or> e = [newline]"
  shows "decodeLine (request_line q @ e) = Inr q"
proof -
  let ?rest = "concat (map (\<lambda>t. CHR '' '' # t) (req_args q)) @ e"
  have "?rest = [] \<or> isspace_char (hd ?rest)" using assms(2) by (cases "req_args q") auto
  then have "read_token (command_name (req_command q) @ ?rest) = Some (command_name (req_command q), ?rest)"
    by (rule read_token_token [OF token_command_name])
  then show ?thesis
    using read_tokens_words [OF assms] by (simp add: decodeLine_def request_line_def parse_command_name)
qed

section \<open>Fields\<close>

lemma scan_drop: "pos \<le> length line \<Longrightarrow> scan P line pos = pos + length (takeWhile P (drop pos line))"
proof (induction P line pos rule: scan.induct)
  case (1 P line pos)
  show ?case
  proof (cases "pos < length line \<and> P (line ! pos)")
    case True
    then have "drop pos line = line ! pos # drop (Suc pos) line" by (simp add: Cons_nth_drop_Suc)
    then show ?thesis using 1 True by (subst scan.simps) simp
  next
    case False
    then have "takeWhile P (drop pos line) = []"
      by (cases "pos < length line") (simp_all add: Cons_nth_drop_Suc [symmetric])
    then show ?thesis using False by (subst scan.simps) auto
  qed
qed

lemma consumeLiteral_at: "consumeLiteral (pre @ lit @ post) (length pre) lit = Inr (Some (length pre + length lit))"
  by (simp add: consumeLiteral_def)

lemma parse_field_at:
  assumes "length d < 2 ^ 64"
  shows "parseLengthPrefixedField (pre @ name @ to_string (length d) @ CHR '':'' # d @ post) (length pre) name =
    Inr (Inr (d, length (pre @ name @ to_string (length d) @ CHR '':'' # d)))"
proof -
  let ?line = "pre @ name @ to_string (length d) @ CHR '':'' # d @ post"
  let ?start = "length pre + length name"
  let ?p = "?start + length (to_string (length d))"
  have "takeWhile isdigit (drop ?start ?line) = to_string (length d)"
    using to_string_digits [of "length d"] by (simp add: takeWhile_append_stop)
  then have p: "scan isdigit ?line ?start = ?p" by (subst scan_drop) simp_all
  have colon: "?line ! ?p = CHR '':''" by (simp add: nth_append)
  have n: "unat (of_nat (length d) :: u64) = length d" using assms by (simp add: unat_of_nat take_bit_nat_eq_self)
  have digits: "str_substr ?line ?start (?p - ?start) = Inr (to_string (length d))" by (simp add: str_substr_def)
  have payload: "str_substr ?line (Suc ?p) (length d) = Inr d" by (simp add: str_substr_def)
  show ?thesis
    unfolding parseLengthPrefixedField_def consumeLiteral_at rbind.simps option.case Let_def p digits colon
      stoull_to_string [OF assms] sum.case n payload
    by simp
qed

lemma consumeLiteral_total: "pos \<le> length line \<Longrightarrow> \<exists>c. consumeLiteral line pos lit = Inr c"
  by (simp add: consumeLiteral_def)

lemma consumeLiteral_sound:
  assumes "consumeLiteral line pos lit = Inr (Some p)"
  shows "drop pos line = lit @ drop p line" and "p \<le> length line"
proof -
  have t: "take (length lit) (drop pos line) = lit" and p: "p = pos + length lit" and "pos \<le> length line"
    using assms by (auto simp: consumeLiteral_def split: if_splits)
  from arg_cong [OF t, of length] show "p \<le> length line" using \<open>pos \<le> length line\<close> p by simp
  show "drop pos line = lit @ drop p line"
    using append_take_drop_id [of "length lit" "drop pos line"] t p by (simp add: add.commute)
qed

lemma str_substr_total: "pos \<le> length line \<Longrightarrow> str_substr line pos n = Inr (take n (drop pos line))"
  by (simp add: str_substr_def)

lemma scan_bounds:
  assumes "pos \<le> length line"
  shows "pos \<le> scan P line pos" and "scan P line pos \<le> length line"
  using assms length_takeWhile_le [of P "drop pos line"] by (auto simp: scan_drop)

lemma scan_split:
  assumes "pos \<le> length line"
  shows "drop pos line = takeWhile P (drop pos line) @ drop (scan P line pos) line"
proof -
  have "drop (scan P line pos) line = drop (length (takeWhile P (drop pos line))) (drop pos line)"
    by (simp add: scan_drop [OF assms] add.commute)
  then show ?thesis by (metis dropWhile_eq_drop takeWhile_dropWhile_id)
qed

lemma parse_field_total:
  assumes "pos \<le> length line"
  shows "\<exists>f. parseLengthPrefixedField line pos name = Inr f"
proof -
  obtain c where c: "consumeLiteral line pos name = Inr c" using consumeLiteral_total [OF assms] by blast
  show ?thesis
  proof (cases c)
    case (Some q)
    then have "q \<le> length line" using consumeLiteral_sound c by blast
    then show ?thesis
      using Some c by (auto simp: parseLengthPrefixedField_def Let_def str_substr_total split: sum.splits)
  qed (simp add: parseLengthPrefixedField_def c)
qed

text \<open>What an accepted field looks like.\<close>

definition field_text :: "string \<Rightarrow> string \<Rightarrow> string \<Rightarrow> string" where
  "field_text name ds d = name @ ds @ CHR '':'' # d"

lemma parse_field_sound:
  assumes "parseLengthPrefixedField line pos name = Inr (Inr (d, p))"
  obtains ds where "drop pos line = field_text name ds d @ drop p line" and "ds \<noteq> []" and "\<forall>c \<in> set ds. isdigit c"
    and "decimal_value ds = length d" and "p \<le> length line"
proof -
  obtain q where q: "consumeLiteral line pos name = Inr (Some q)"
    using assms by (auto simp: parseLengthPrefixedField_def rbind_eq_Inr split: option.splits)
  note qs = consumeLiteral_sound [OF q]
  define s where "s = scan isdigit line q"
  define ds where "ds = takeWhile isdigit (drop q line)"
  have sq: "s = q + length ds" by (simp add: s_def ds_def scan_drop [OF qs(2)])
  have sub: "str_substr line q (s - q) = Inr ds"
    using qs(2) takeWhile_eq_take [of isdigit "drop q line"] by (simp add: str_substr_total sq ds_def)
  obtain n where n: "stoull ds = Inr n" "q \<noteq> s" "s < length line" "line ! s = CHR '':''"
      "unat n \<le> length line - Suc s" "d = take (unat n) (drop (Suc s) line)" "p = Suc s + unat n"
  proof -
    have q_s: "q \<noteq> s" and colon: "\<not> (length line \<le> s \<or> line ! s \<noteq> CHR '':'')" and "stoull ds \<noteq> Inl x" for x
      using assms unfolding parseLengthPrefixedField_def q rbind.simps option.case Let_def s_def [symmetric] sub
      by (auto split: if_splits)
    then obtain n where n: "stoull ds = Inr n" by (cases "stoull ds") auto
    have "(if length line - Suc s < unat n then Inr (Inl (''payload shorter than declared length for field '' @ name))
        else Inr (Inr (take (unat n) (drop (Suc s) line), Suc s + unat n))) = (Inr (Inr (d, p)) :: exn + (string + string \<times> nat))"
      using assms q_s colon str_substr_total [of "Suc s" line]
      unfolding parseLengthPrefixedField_def q rbind.simps option.case Let_def s_def [symmetric] sub n sum.case
      by (simp split: if_splits)
    then show ?thesis using that [OF n q_s] colon by (auto split: if_splits)
  qed
  have "decimal_value ds < 2 ^ 64" "n = of_nat (decimal_value ds)" using n(1) by (auto simp: stoull_def split: if_splits)
  then have nv: "unat n = decimal_value ds" by (simp add: unat_of_nat take_bit_nat_eq_self)
  show ?thesis
  proof
    have "drop q line = ds @ drop s line" using scan_split [OF qs(2), of isdigit] by (simp add: ds_def s_def)
    also have "drop s line = CHR '':'' # drop (Suc s) line" using n(3,4) by (simp add: Cons_nth_drop_Suc [symmetric])
    also have "drop (Suc s) line = d @ drop p line"
      using append_take_drop_id [of "unat n" "drop (Suc s) line"] n(6,7) by (simp add: add.commute)
    finally show "drop pos line = field_text name ds d @ drop p line" using qs(1) by (simp add: field_text_def)
    show "ds \<noteq> []" using n(2) sq by auto
    show "\<forall>c \<in> set ds. isdigit c" by (auto simp: ds_def dest: set_takeWhileD)
    show "decimal_value ds = length d" "p \<le> length line" using n(3,5,6,7) nv by auto
  qed
qed

section \<open>Responses on the wire\<close>

definition wire_data :: "string option \<Rightarrow> string option" where
  "wire_data d = (if d = Some [] then None else d)"

definition response_line :: "response \<Rightarrow> string" where
  "response_line r =
     ''status='' @ (if res_ok r then ''OK'' else ''ERR'') @ '' '' @
     ''message='' @ to_string (length (res_message r)) @ CHR '':'' # res_message r @ '' '' @
     (let d = (case res_data r of None \<Rightarrow> [] | Some d \<Rightarrow> d) in ''data='' @ to_string (length d) @ CHR '':'' # d)"

lemma encodeResponse_line: "encodeResponse r = response_line r @ [newline]"
  by (simp add: encodeResponse_def response_line_def Let_def split: option.splits)

definition response_fits :: "response \<Rightarrow> bool" where
  "response_fits r \<longleftrightarrow> length (res_message r) < 2 ^ 64 \<and> (case res_data r of None \<Rightarrow> True | Some d \<Rightarrow> length d < 2 ^ 64)"

lemma decode_data_at:
  assumes "length d < 2 ^ 64" and "e = [] \<or> e = [newline]"
  shows "decode_data (pre @ ''data='' @ to_string (length d) @ CHR '':'' # d @ e) (length pre) res =
    Inr (None, if d = [] then res else res\<lparr>res_data := Some d\<rparr>)"
proof -
  let ?line = "pre @ ''data='' @ to_string (length d) @ CHR '':'' # d @ e"
  let ?p = "length (pre @ ''data='' @ to_string (length d) @ CHR '':'' # d)"
  have f: "parseLengthPrefixedField ?line (length pre) ''data='' = Inr (Inr (d, ?p))"
    by (rule parse_field_at [OF assms(1)])
  have l: "?line = (pre @ ''data='' @ to_string (length d) @ CHR '':'' # d) @ e" by simp
  have "(if ?p < length ?line \<and> ?line ! ?p = newline then Suc ?p else ?p) = length ?line"
    unfolding l nth_append using assms(2) by auto
  then show ?thesis unfolding decode_data_def f rbind.simps sum.case prod.case Let_def by simp
qed

lemma decode_message_at:
  assumes "length msg < 2 ^ 64" and "length d < 2 ^ 64" and "e = [] \<or> e = [newline]"
  shows "decode_message (pre @ ''message='' @ to_string (length msg) @ CHR '':'' # msg @ '' '' @
      ''data='' @ to_string (length d) @ CHR '':'' # d @ e) (length pre) res =
    Inr (None, (if d = [] then res else res\<lparr>res_data := Some d\<rparr>)\<lparr>res_message := msg\<rparr>)"
proof -
  let ?post = "''data='' @ to_string (length d) @ CHR '':'' # d @ e"
  let ?pre = "pre @ ''message='' @ to_string (length msg) @ CHR '':'' # msg"
  let ?line = "pre @ ''message='' @ to_string (length msg) @ CHR '':'' # msg @ '' '' @ ?post"
  have f: "parseLengthPrefixedField ?line (length pre) ''message='' = Inr (Inr (msg, length ?pre))"
    by (rule parse_field_at [OF assms(1)])
  have l: "?line = ?pre @ '' '' @ ?post" by simp
  have c: "consumeLiteral ?line (length ?pre) '' '' = Inr (Some (length (?pre @ '' '')))"
    unfolding l consumeLiteral_at by simp
  have "?line = (?pre @ '' '') @ ?post" by simp
  then have "decode_data ?line (length (?pre @ '' '')) (res\<lparr>res_message := msg\<rparr>) =
      Inr (None, if d = [] then res\<lparr>res_message := msg\<rparr> else res\<lparr>res_message := msg, res_data := Some d\<rparr>)"
    using decode_data_at [OF assms(2,3), of "?pre @ '' ''"] by (simp only:)
  then show ?thesis unfolding decode_message_def f rbind.simps sum.case prod.case Let_def c option.case by simp
qed

lemma decode_response_line:
  assumes "response_fits r" and "e = [] \<or> e = [newline]"
  shows "decodeResponseLine (response_line r @ e) = Inr (None, r\<lparr>res_data := wire_data (res_data r)\<rparr>)"
proof -
  define d where "d = (case res_data r of None \<Rightarrow> [] | Some d \<Rightarrow> d)"
  define status where "status = (if res_ok r then ''OK'' else ''ERR'')"
  let ?msg = "res_message r"
  let ?post = "''message='' @ to_string (length ?msg) @ CHR '':'' # ?msg @ '' '' @ ''data='' @ to_string (length d) @ CHR '':'' # d @ e"
  let ?line = "''status='' @ status @ '' '' @ ?post"
  have line: "response_line r @ e = ?line"
    by (simp add: response_line_def status_def d_def Let_def)
  have fits: "length ?msg < 2 ^ 64" "length d < 2 ^ 64"
    using assms(1) by (auto simp: response_fits_def d_def split: option.splits)
  have c1: "consumeLiteral ?line 0 ''status='' = Inr (Some (length ''status=''))"
    by (simp add: consumeLiteral_def)
  have "takeWhile (\<lambda>c. c \<noteq> CHR '' '') (drop (length ''status='') ?line) = status"
    by (simp add: status_def)
  then have sc: "scan (\<lambda>c. c \<noteq> CHR '' '') ?line (length ''status='') = length (''status='' @ status)"
    by (subst scan_drop) simp_all
  have sub: "str_substr ?line (length ''status='') (length (''status='' @ status) - length ''status='') = Inr status"
    by (simp add: str_substr_def)
  have c2: "consumeLiteral ?line (length (''status='' @ status)) '' '' = Inr (Some (length (''status='' @ status @ '' '')))"
    using consumeLiteral_at [of "''status='' @ status" "'' ''" ?post] by simp
  have msg: "decode_message ?line (length (''status='' @ status @ '' '')) res =
      Inr (None, (if d = [] then res else res\<lparr>res_data := Some d\<rparr>)\<lparr>res_message := ?msg\<rparr>)" for res
    using decode_message_at [OF fits assms(2), of "''status='' @ status @ '' ''" res] by simp
  have st: "\<not> (status \<noteq> ''OK'' \<and> status \<noteq> ''ERR'')" "(status = ''OK'') = res_ok r" by (simp_all add: status_def)
  show ?thesis
    unfolding line decodeResponseLine_def Let_def c1 rbind.simps option.case sc sub if_not_P [OF st(1)] c2 msg
    unfolding st(2)
    by (cases r; cases "res_data r") (auto simp: d_def wire_data_def Response_def)
qed

lemma decode_data_total: "pos \<le> length line \<Longrightarrow> \<exists>x. decode_data line pos res = Inr x"
  using parse_field_total [of pos line "''data=''"] by (auto simp: decode_data_def Let_def split: sum.splits)

lemma decode_message_total:
  assumes "pos \<le> length line"
  shows "\<exists>x. decode_message line pos res = Inr x"
proof -
  obtain f where f: "parseLengthPrefixedField line pos ''message='' = Inr f" using parse_field_total [OF assms] by blast
  show ?thesis
  proof (cases f)
    case (Inr dp)
    obtain d p where dp: "dp = (d, p)" by (cases dp)
    have "p \<le> length line" using f Inr dp parse_field_sound by blast
    then obtain c where c: "consumeLiteral line p '' '' = Inr c" using consumeLiteral_total by blast
    then show ?thesis
      using f Inr dp decode_data_total consumeLiteral_sound(2) by (cases c) (auto simp: decode_message_def Let_def)
  qed (simp add: decode_message_def f)
qed

lemma decodeResponseLine_total: "\<exists>x. decodeResponseLine line = Inr x"
proof -
  obtain c where c: "consumeLiteral line 0 ''status='' = Inr c" using consumeLiteral_total by blast
  show ?thesis
  proof (cases c)
    case (Some q)
    then have q: "q \<le> length line" using consumeLiteral_sound(2) c by blast
    define s where "s = scan (\<lambda>c. c \<noteq> CHR '' '') line q"
    have "s \<le> length line" using scan_bounds(2) [OF q] by (simp add: s_def)
    then obtain c' where c': "consumeLiteral line s '' '' = Inr c'" using consumeLiteral_total by blast
    then have "p \<le> length line" if "c' = Some p" for p using consumeLiteral_sound(2) that by blast
    then show ?thesis
      using decode_message_total c c' Some
      by (cases c') (auto simp: decodeResponseLine_def Let_def str_substr_total [OF q] s_def [symmetric])
  qed (simp add: decodeResponseLine_def Let_def c)
qed

lemma decode_data_sound:
  assumes "decode_data line pos res = Inr (None, r)"
  obtains ds d e where "drop pos line = field_text ''data='' ds d @ e" and "decimal_value ds = length d"
    and "r = (if d = [] then res else res\<lparr>res_data := Some d\<rparr>)" and "e = [] \<or> e = [newline]"
proof -
  obtain d p where f: "parseLengthPrefixedField line pos ''data='' = Inr (Inr (d, p))"
    using assms
    by (cases "parseLengthPrefixedField line pos ''data=''") (auto simp: decode_data_def split: sum.split_asm)
  obtain ds where ds: "drop pos line = field_text ''data='' ds d @ drop p line" "decimal_value ds = length d" "p \<le> length line"
    using parse_field_sound [OF f] by metis
  have r: "r = (if d = [] then res else res\<lparr>res_data := Some d\<rparr>)"
    and e: "(if p < length line \<and> line ! p = newline then Suc p else p) = length line"
    using assms by (auto simp: decode_data_def f Let_def split: if_splits)
  have "drop p line = [] \<or> drop p line = [newline]"
    using e ds(3) by (auto simp: Cons_nth_drop_Suc [symmetric] split: if_splits)
  then show ?thesis using that ds r by blast
qed

lemma decode_message_sound:
  assumes "decode_message line pos res = Inr (None, r)"
  obtains ds msg p where "drop pos line = field_text ''message='' ds msg @ '' '' @ drop p line" and "decimal_value ds = length msg"
    and "decode_data line p (res\<lparr>res_message := msg\<rparr>) = Inr (None, r)"
proof -
  obtain msg p where f: "parseLengthPrefixedField line pos ''message='' = Inr (Inr (msg, p))"
    using assms
    by (cases "parseLengthPrefixedField line pos ''message=''") (auto simp: decode_message_def split: sum.split_asm)
  obtain ds where ds: "drop pos line = field_text ''message='' ds msg @ drop p line" "decimal_value ds = length msg"
    using parse_field_sound [OF f] by metis
  obtain p' where c: "consumeLiteral line p '' '' = Inr (Some p')"
      "decode_data line p' (res\<lparr>res_message := msg\<rparr>) = Inr (None, r)"
    using assms by (auto simp: decode_message_def f Let_def rbind_eq_Inr split: option.splits)
  show ?thesis using that [of ds msg p'] ds c consumeLiteral_sound(1) [OF c(1)] by simp
qed

lemma decodeResponseLine_sound:
  assumes "decodeResponseLine line = Inr (None, r)"
  obtains status p where "line = ''status='' @ status @ '' '' @ drop p line" and "status = ''OK'' \<or> status = ''ERR''"
    and "decode_message line p (Response (status = ''OK'') [] None) = Inr (None, r)"
proof -
  obtain q where q: "consumeLiteral line 0 ''status='' = Inr (Some q)"
    using assms by (auto simp: decodeResponseLine_def Let_def rbind_eq_Inr split: option.splits)
  note qs = consumeLiteral_sound [OF q]
  define s where "s = scan (\<lambda>c. c \<noteq> CHR '' '') line q"
  define status where "status = takeWhile (\<lambda>c. c \<noteq> CHR '' '') (drop q line)"
  have "s = q + length status" by (simp add: s_def status_def scan_drop [OF qs(2)])
  then have sub: "str_substr line q (s - q) = Inr status"
    using qs(2) takeWhile_eq_take [of "\<lambda>c. c \<noteq> CHR '' ''" "drop q line"] by (simp add: str_substr_total status_def)
  have okst: "status = ''OK'' \<or> status = ''ERR''"
    using assms unfolding decodeResponseLine_def Let_def q rbind.simps option.case s_def [symmetric] sub
    by (auto split: if_splits)
  obtain p where c: "consumeLiteral line s '' '' = Inr (Some p)"
      "decode_message line p (Response (status = ''OK'') [] None) = Inr (None, r)"
    using assms okst unfolding decodeResponseLine_def Let_def q rbind.simps option.case s_def [symmetric] sub
    by (auto simp: rbind_eq_Inr Response_def split: option.splits)
  have "line = ''status='' @ drop q line" using qs(1) by simp
  also have "drop q line = status @ drop s line"
    using scan_split [OF qs(2), of "\<lambda>c. c \<noteq> CHR '' ''"] by (simp add: status_def s_def)
  also have "drop s line = '' '' @ drop p line" using consumeLiteral_sound(1) [OF c(1)] .
  finally have "line = ''status='' @ status @ '' '' @ drop p line" .
  then show ?thesis using that okst c(2) by blast
qed

section \<open>Properties\<close>

text \<open>
  C16: requests survive the wire.  Whatever line was decoded into a request, encoding that request
  and decoding it again gives the same request, with and without the end of the line; this is what
  the client relies on when it decodes, re-encodes and sends what the user typed.
\<close>

theorem request_wire_roundtrip:
  assumes "decodeLine line = Inr q"
  shows "decodeLine (encodeRequest q) = Inr q \<and> decodeLine (butlast (encodeRequest q)) = Inr q \<and>
    newline \<notin> set (butlast (encodeRequest q))"
proof -
  have t: "\<forall>a \<in> set (req_args q). token a"
    using assms read_tokens_are_tokens by (auto simp: decodeLine_def split: option.splits)
  have "newline \<notin> set (request_line q)"
    using t token_command_name [of "req_command q"] isspace_simps(2)
    by (auto simp: request_line_def token_def newline_def)
  then show ?thesis using decode_request_line [OF t] decode_request_line [OF t, of "[]"] by (simp add: encodeRequest_line)
qed

theorem request_wire_roundtrip_witness:
  "decodeLine (encodeRequest \<lparr>req_command = PUT, req_args = [''a'', ''b'']\<rparr>) =
     Inr \<lparr>req_command = PUT, req_args = [''a'', ''b'']\<rparr>"
proof -
  have "decodeLine ''  put a  b '' = Inr \<lparr>req_command = PUT, req_args = [''a'', ''b'']\<rparr>"
    by code_simp
  then show ?thesis using request_wire_roundtrip by blast
qed

text \<open>
  C15: responses survive the wire, also when the message or the data contain the separators of the
  format or line ends; an empty value arrives as no value.
\<close>

theorem response_wire_roundtrip:
  assumes "response_fits r"
  shows "decodeResponseLine (encodeResponse r) = Inr (None, r\<lparr>res_data := wire_data (res_data r)\<rparr>) \<and>
    decodeResponseLine (butlast (encodeResponse r)) = Inr (None, r\<lparr>res_data := wire_data (res_data r)\<rparr>)"
  using decode_response_line [OF assms] decode_response_line [OF assms, of "[]"] by (simp add: encodeResponse_line)

theorem response_wire_roundtrip_witness:
  "decodeResponseLine (encodeResponse (Response True ''OK'' (Some ''a data=3:b''))) = Inr (None, Response True ''OK'' (Some ''a data=3:b'')) \<and>
   decodeResponseLine (encodeResponse (Response True ''OK'' (Some ''''))) = Inr (None, Response True ''OK'' None)"
  using response_wire_roundtrip [of "Response True ''OK'' (Some ''a data=3:b'')"]
    response_wire_roundtrip [of "Response True ''OK'' (Some '''')"]
  by (simp add: response_fits_def wire_data_def Response_def)

text \<open>
  C17: decoding a response is total and sound.  On every line, however malformed, no exception
  leaves \<open>decodeResponseLine\<close>; and a line it accepts consists of exactly the fields it reports, each
  with its own length in front.
\<close>

theorem decode_response_total_and_sound:
  "\<exists>err r. decodeResponseLine line = Inr (err, r) \<and>
     (err = None \<longrightarrow> (\<exists>ds1 ds2 d e. line = ''status='' @ (if res_ok r then ''OK'' else ''ERR'') @ '' '' @
        field_text ''message='' ds1 (res_message r) @ '' '' @ field_text ''data='' ds2 d @ e \<and>
        decimal_value ds1 = length (res_message r) \<and> decimal_value ds2 = length d \<and>
        res_data r = (if d = [] then None else Some d) \<and> (e = [] \<or> e = [newline])))"
proof -
  obtain err r where d: "decodeResponseLine line = Inr (err, r)" using decodeResponseLine_total by fastforce
  {
    assume "err = None"
    then have "decodeResponseLine line = Inr (None, r)" using d by simp
    then obtain status p where 1: "line = ''status='' @ status @ '' '' @ drop p line" "status = ''OK'' \<or> status = ''ERR''"
        "decode_message line p (Response (status = ''OK'') [] None) = Inr (None, r)"
      by (rule decodeResponseLine_sound)
    from 1(3) obtain ds1 msg p' where 2: "drop p line = field_text ''message='' ds1 msg @ '' '' @ drop p' line"
        "decimal_value ds1 = length msg" "decode_data line p' ((Response (status = ''OK'') [] None)\<lparr>res_message := msg\<rparr>) = Inr (None, r)"
      by (rule decode_message_sound)
    from 2(3) obtain ds2 x e where 3: "drop p' line = field_text ''data='' ds2 x @ e" "decimal_value ds2 = length x"
        "r = (if x = [] then (Response (status = ''OK'') [] None)\<lparr>res_message := msg\<rparr>
              else (Response (status = ''OK'') [] None)\<lparr>res_message := msg, res_data := Some x\<rparr>)" "e = [] \<or> e = [newline]"
      by (rule decode_data_sound)
    have r: "res_message r = msg" "res_data r = (if x = [] then None else Some x)" "status = (if res_ok r then ''OK'' else ''ERR'')"
      using 3(3) 1(2) by (auto simp: Response_def)
    have "line = ''status='' @ status @ '' '' @ field_text ''message='' ds1 msg @ '' '' @ field_text ''data='' ds2 x @ e"
      using 1(1) 2(1) 3(1) by simp
    then have "\<exists>ds1 ds2 d e. line = ''status='' @ (if res_ok r then ''OK'' else ''ERR'') @ '' '' @
        field_text ''message='' ds1 (res_message r) @ '' '' @ field_text ''data='' ds2 d @ e \<and>
        decimal_value ds1 = length (res_message r) \<and> decimal_value ds2 = length d \<and>
        res_data r = (if d = [] then None else Some d) \<and> (e = [] \<or> e = [newline])"
      using 2(2) 3(2,4) r by (intro exI [of _ ds1] exI [of _ ds2] exI [of _ x] exI [of _ e]) simp
  }
  then show ?thesis using d by blast
qed

theorem decode_response_total_and_sound_witness:
  "\<exists>ds1 ds2 d e. response_line (Response True ''OK'' (Some ''v'')) = ''status='' @ ''OK'' @ '' '' @
     field_text ''message='' ds1 ''OK'' @ '' '' @ field_text ''data='' ds2 d @ e \<and> d = ''v''"
proof -
  let ?r = "Response True ''OK'' (Some ''v'')"
  have "decodeResponseLine (response_line ?r) = Inr (None, ?r)"
    using decode_response_line [of ?r "[]"] by (simp add: response_fits_def wire_data_def Response_def)
  then show ?thesis
    using decode_response_total_and_sound [of "response_line ?r"] by (force split: if_splits)
qed

end
