(* ===== verification/Connection.thy ===== *)
theory Connection
  imports Codec
begin

text \<open>
  \<open>FdConnection\<close> (\<open>src/net/fd_connection.cpp\<close>) over the socket calls \<open>recv\<close>, \<open>send\<close>, \<open>shutdown\<close>
  and \<open>close\<close>, and the contract of the interface \<open>Connection\<close> (\<open>src/net/connection.h\<close>).
\<close>

section \<open>The socket\<close>

text \<open>
  The system's side of a connection: the chunks that have been sent by the peer and will be
  delivered, in this order (an empty chunk is a call that returns zero or an error, and so is every
  call after the last chunk), how many bytes each successive \<open>send\<close> accepts at most (when the list
  is used up, everything), and the bytes that were sent.  The first two fields are the object's own.
\<close>

record fd_connection =
  conn_fd :: int
  conn_buffer :: string
  net_in :: "bytes list"
  net_send :: "nat list"
  net_out :: bytes

definition FdConnection :: "int \<Rightarrow> bytes list \<Rightarrow> nat list \<Rightarrow> fd_connection" where
  "FdConnection fd chunks limits =
     \<lparr>conn_fd = fd, conn_buffer = [], net_in = chunks, net_send = limits, net_out = []\<rparr>"

text \<open>\<open>recv\<close> into a buffer of \<open>n\<close> bytes; \<open>None\<close> is a result of at most zero.\<close>

definition sock_recv :: "nat \<Rightarrow> fd_connection \<Rightarrow> bytes option \<times> fd_connection" where
  "sock_recv n c =
     (if conn_fd c < 0 then (None, c)
      else case net_in c of
        [] \<Rightarrow> (None, c)
      | x # xs \<Rightarrow>
          if x = [] then (None, c\<lparr>net_in := xs\<rparr>)
          else (Some (take n x), c\<lparr>net_in := (if drop n x = [] then xs else drop n x # xs)\<rparr>))"

definition sock_send :: "bytes \<Rightarrow> fd_connection \<Rightarrow> nat \<times> fd_connection" where
  "sock_send d c =
     (if conn_fd c < 0 then (0, c)
      else case net_send c of
        [] \<Rightarrow> (length d, c\<lparr>net_out := net_out c @ d\<rparr>)
      | l # ls \<Rightarrow> (min l (length d), c\<lparr>net_send := ls, net_out := net_out c @ take l d\<rparr>))"

section \<open>Operations\<close>

fun find_char :: "char \<Rightarrow> string \<Rightarrow> nat option" where
  "find_char x [] = None"
| "find_char x (y # ys) = (if x = y then Some 0 else map_option Suc (find_char x ys))"

definition net_pending :: "fd_connection \<Rightarrow> nat" where
  "net_pending c = length (concat (net_in c)) + length (net_in c)"

lemma sock_recv_pending:
  assumes "sock_recv 1024 c = (Some chunk, c')"
  shows "net_pending c' < net_pending c"
proof -
  obtain x xs where x: "net_in c = x # xs" "x \<noteq> []" "net_in c' = (if drop 1024 x = [] then xs else drop 1024 x # xs)"
    using assms by (auto simp: sock_recv_def split: if_splits list.splits)
  then show ?thesis by (cases x) (auto simp: net_pending_def)
qed

function fd_readLine :: "fd_connection \<Rightarrow> string option \<times> fd_connection" where
  "fd_readLine c =
     (case find_char newline (conn_buffer c) of
        Some newLinePos \<Rightarrow>
          (Some (take newLinePos (conn_buffer c)), c\<lparr>conn_buffer := drop (newLinePos + 1) (conn_buffer c)\<rparr>)
      | None \<Rightarrow>
          (case sock_recv 1024 c of
             (None, c') \<Rightarrow> (None, c')
           | (Some chunk, c') \<Rightarrow> fd_readLine (c'\<lparr>conn_buffer := conn_buffer c' @ chunk\<rparr>)))"
  by pat_completeness auto
termination
  by (relation "measure net_pending") (auto dest!: sock_recv_pending [OF sym] simp: net_pending_def)

declare fd_readLine.simps [simp del]

function fd_send_loop :: "bytes \<Rightarrow> nat \<Rightarrow> fd_connection \<Rightarrow> bool \<times> fd_connection" where
  "fd_send_loop d sent c =
     (if sent < length d then
        (case sock_send (drop sent d) c of
           (n, c') \<Rightarrow> if n = 0 then (False, c') else fd_send_loop d (sent + n) c')
      else (True, c))"
  by pat_completeness auto
termination
  by (relation "measure (\<lambda>(d, sent, c). length d - sent)") auto

declare fd_send_loop.simps [simp del]

definition fd_writeAll :: "string \<Rightarrow> fd_connection \<Rightarrow> bool \<times> fd_connection" where
  "fd_writeAll d c = fd_send_loop d 0 c"

definition fd_close :: "fd_connection \<Rightarrow> fd_connection" where
  "fd_close c = (if conn_fd c \<ge> 0 then c\<lparr>conn_fd := - 1\<rparr> else c)"

section \<open>The contract of a connection\<close>

fun read_lines :: "('c \<Rightarrow> string option \<times> 'c) \<Rightarrow> nat \<Rightarrow> 'c \<Rightarrow> string option list \<times> 'c" where
  "read_lines readLine 0 c = ([], c)"
| "read_lines readLine (Suc n) c = (case readLine c of (l, c') \<Rightarrow> case read_lines readLine n c' of (ls, c'') \<Rightarrow> (l # ls, c''))"

text \<open>
  A connection that is up has an input, the bytes still to be read, and an output.  Reading takes
  lines from the front of the input, whatever pieces the network delivers it in; writing appends to
  the output, whatever pieces the network accepts.
\<close>

locale connection =
  fixes readLine :: "'c \<Rightarrow> string option \<times> 'c"
    and writeAll :: "string \<Rightarrow> 'c \<Rightarrow> bool \<times> 'c"
    and close :: "'c \<Rightarrow> 'c"
    and up :: "'c \<Rightarrow> bool"
    and unread :: "'c \<Rightarrow> bytes"
    and written :: "'c \<Rightarrow> bytes"
  assumes read_line: "up c \<Longrightarrow> unread c = l @ newline # rest \<Longrightarrow> newline \<notin> set l \<Longrightarrow>
      \<exists>c'. readLine c = (Some l, c') \<and> up c' \<and> unread c' = rest \<and> written c' = written c"
    and read_end: "up c \<Longrightarrow> newline \<notin> set (unread c) \<Longrightarrow>
      \<exists>c'. readLine c = (None, c') \<and> up c' \<and> written c' = written c"
    and write_all: "up c \<Longrightarrow> \<exists>c'. writeAll d c = (True, c') \<and> up c' \<and> unread c' = unread c \<and> written c' = written c @ d"
    and close_written: "written (close c) = written c"
begin

lemma read_lines_all:
  assumes "up c" and "unread c = concat (map (\<lambda>l. l @ [newline]) ls) @ rest" and "\<forall>l \<in> set ls. newline \<notin> set l"
  shows "\<exists>c'. read_lines readLine (length ls) c = (map Some ls, c') \<and> up c' \<and> unread c' = rest"
  using assms
proof (induction ls arbitrary: c)
  case (Cons l ls)
  then obtain c1 where 1: "readLine c = (Some l, c1)" "up c1" "unread c1 = concat (map (\<lambda>l. l @ [newline]) ls) @ rest"
    using read_line [of c l "concat (map (\<lambda>l. l @ [newline]) ls) @ rest"] by auto
  then show ?case using Cons.IH [of c1] Cons.prems(3) by auto
qed simp

end

section \<open>The connection meets its contract\<close>

definition conn_up :: "fd_connection \<Rightarrow> bool" where
  "conn_up c \<longleftrightarrow> conn_fd c \<ge> 0 \<and> [] \<notin> set (net_in c) \<and> 0 \<notin> set (net_send c)"

definition conn_input :: "fd_connection \<Rightarrow> bytes" where
  "conn_input c = conn_buffer c @ concat (net_in c)"

lemma find_char_None: "find_char x ys = None \<longleftrightarrow> x \<notin> set ys"
  by (induction ys) auto

lemma find_char_Some: "find_char x ys = Some i \<Longrightarrow> \<exists>u zs. ys = u @ x # zs \<and> i = length u \<and> x \<notin> set u"
proof (induction ys arbitrary: i)
  case (Cons y ys)
  show ?case
  proof (cases "x = y")
    case False
    then obtain j where "find_char x ys = Some j" "i = Suc j" using Cons.prems by auto
    moreover from this obtain u zs where "ys = u @ x # zs \<and> j = length u \<and> x \<notin> set u" using Cons.IH by blast
    ultimately show ?thesis using False by (intro exI [of _ "y # u"] exI [of _ zs]) simp
  qed (use Cons.prems in \<open>auto intro: exI [of _ "[]"]\<close>)
qed simp

lemma split_at_first:
  assumes "l @ x # rest = l' @ x # rest'" and "x \<notin> set l" and "x \<notin> set l'"
  shows "l = l' \<and> rest = rest'"
proof -
  have "takeWhile (\<lambda>y. y \<noteq> x) (l @ x # rest) = takeWhile (\<lambda>y. y \<noteq> x) (l' @ x # rest')" using assms(1) by simp
  moreover have "takeWhile (\<lambda>y. y \<noteq> x) (l @ x # rest) = l" by (rule takeWhile_append_stop) (use assms(2) in auto)
  moreover have "takeWhile (\<lambda>y. y \<noteq> x) (l' @ x # rest') = l'" by (rule takeWhile_append_stop) (use assms(3) in auto)
  ultimately show ?thesis using assms(1) by simp
qed

lemma sock_recv_up:
  assumes "conn_up c" and "net_in c \<noteq> []"
  obtains chunk c' where "sock_recv 1024 c = (Some chunk, c')" and "conn_up c'" and "chunk @ concat (net_in c') = concat (net_in c)"
    and "conn_buffer c' = conn_buffer c" and "net_out c' = net_out c"
proof -
  obtain x xs where x: "net_in c = x # xs" "x \<noteq> []" using assms by (cases "net_in c") (auto simp: conn_up_def)
  show ?thesis
    using that [of "take 1024 x" "c\<lparr>net_in := (if drop 1024 x = [] then xs else drop 1024 x # xs)\<rparr>"] assms(1) x
    by (auto simp: sock_recv_def conn_up_def)
qed

lemma fd_read_line:
  assumes "conn_up c" and "conn_input c = l @ newline # rest" and "newline \<notin> set l"
  shows "\<exists>c'. fd_readLine c = (Some l, c') \<and> conn_up c' \<and> conn_input c' = rest \<and> net_out c' = net_out c"
  using assms
proof (induction c rule: fd_readLine.induct)
  case (1 c)
  show ?case
  proof (cases "find_char newline (conn_buffer c)")
    case (Some i)
    obtain u zs where z: "conn_buffer c = u @ newline # zs" "i = length u" "newline \<notin> set u"
      using find_char_Some [OF Some] by blast
    have "u @ newline # (zs @ concat (net_in c)) = l @ newline # rest"
      using 1(3) z(1) by (simp add: conn_input_def)
    from split_at_first [OF this z(3) 1(4)] have "u = l" "zs @ concat (net_in c) = rest" by simp_all
    then show ?thesis using Some z 1(2) by (subst fd_readLine.simps) (simp add: conn_up_def conn_input_def)
  next
    case None
    then have "newline \<notin> set (conn_buffer c)" by (simp add: find_char_None)
    then have "net_in c \<noteq> []" using 1(3) by (auto simp: conn_input_def)
    then obtain chunk c' where r: "sock_recv 1024 c = (Some chunk, c')" "conn_up c'" "chunk @ concat (net_in c') = concat (net_in c)"
        "conn_buffer c' = conn_buffer c" "net_out c' = net_out c"
      by (rule sock_recv_up [OF 1(2)])
    let ?c = "c'\<lparr>conn_buffer := conn_buffer c' @ chunk\<rparr>"
    have "conn_up ?c" "conn_input ?c = l @ newline # rest" "net_out ?c = net_out c"
      using r 1(3) by (simp_all add: conn_up_def conn_input_def)
    then show ?thesis
      using 1(1) [OF None r(1) [symmetric] refl] 1(4) None r(1) by (subst fd_readLine.simps) simp
  qed
qed

lemma fd_read_end:
  assumes "conn_up c" and "newline \<notin> set (conn_input c)"
  shows "\<exists>c'. fd_readLine c = (None, c') \<and> conn_up c' \<and> net_out c' = net_out c"
  using assms
proof (induction c rule: fd_readLine.induct)
  case (1 c)
  then have None: "find_char newline (conn_buffer c) = None" by (simp add: find_char_None conn_input_def)
  show ?case
  proof (cases "net_in c = []")
    case True
    then show ?thesis using None 1(2) by (subst fd_readLine.simps) (simp add: sock_recv_def)
  next
    case False
    then obtain chunk c' where r: "sock_recv 1024 c = (Some chunk, c')" "conn_up c'" "chunk @ concat (net_in c') = concat (net_in c)"
        "conn_buffer c' = conn_buffer c" "net_out c' = net_out c"
      by (rule sock_recv_up [OF 1(2)])
    let ?c = "c'\<lparr>conn_buffer := conn_buffer c' @ chunk\<rparr>"
    have "conn_up ?c" "newline \<notin> set (conn_input ?c)" "net_out ?c = net_out c"
      using r 1(3) by (auto simp: conn_up_def conn_input_def)
    then show ?thesis
      using 1(1) [OF None r(1) [symmetric] refl] None r(1) by (subst fd_readLine.simps) simp
  qed
qed

lemma fd_send_loop_up:
  assumes "conn_up c" and "sent \<le> length d"
  shows "\<exists>c'. fd_send_loop d sent c = (True, c') \<and> conn_up c' \<and> conn_input c' = conn_input c \<and> net_out c' = net_out c @ drop sent d"
  using assms
proof (induction d sent c rule: fd_send_loop.induct)
  case (1 d sent c)
  show ?case
  proof (cases "sent < length d")
    case True
    obtain n c' where s: "sock_send (drop sent d) c = (n, c')" by fastforce
    then have n: "0 < n" "sent + n \<le> length d" "conn_up c'" "conn_input c' = conn_input c"
        "net_out c' = net_out c @ take n (drop sent d)"
      using True 1(2) by (auto simp: sock_send_def conn_up_def conn_input_def min_def split: if_splits list.splits)
    then have "net_out c' @ drop (sent + n) d = net_out c @ drop sent d"
      by (metis append.assoc append_take_drop_id drop_drop add.commute)
    then show ?thesis
      using 1(1) [OF True s [symmetric]] n True s by (subst fd_send_loop.simps) auto
  qed (use 1 in \<open>simp add: fd_send_loop.simps\<close>)
qed

interpretation fdc: connection fd_readLine fd_writeAll fd_close conn_up conn_input net_out
proof
  fix c d assume "conn_up c"
  then show "\<exists>c'. fd_writeAll d c = (True, c') \<and> conn_up c' \<and> conn_input c' = conn_input c \<and> net_out c' = net_out c @ d"
    using fd_send_loop_up [of c 0 d] by (simp add: fd_writeAll_def)
qed (simp_all add: fd_read_line fd_read_end fd_close_def)

lemma sock_send_amount:
  assumes "sock_send d c = (n, c')"
  shows "n \<le> length d" and "net_out c' = net_out c @ take n d"
  using assms by (auto simp: sock_send_def min_def split: if_splits list.splits)

lemma fd_send_loop_amount:
  assumes "fd_send_loop d sent c = (b, c')" and "sent \<le> length d"
  shows "\<exists>n. sent \<le> n \<and> n \<le> length d \<and> net_out c' = net_out c @ take (n - sent) (drop sent d) \<and> (b \<longleftrightarrow> n = length d)"
  using assms
proof (induction d sent c rule: fd_send_loop.induct)
  case (1 d sent c)
  show ?case
  proof (cases "sent < length d")
    case True
    obtain n c1 where s: "sock_send (drop sent d) c = (n, c1)" by fastforce
    note a = sock_send_amount [OF s]
    show ?thesis
    proof (cases "n = 0")
      case True
      then have "b = False" "c' = c1" using 1(2) \<open>sent < length d\<close> s by (simp_all add: fd_send_loop.simps [of d sent])
      then show ?thesis using a True \<open>sent < length d\<close> by (intro exI [of _ sent]) simp
    next
      case False
      then have "fd_send_loop d (sent + n) c1 = (b, c')" using 1(2) True s by (simp add: fd_send_loop.simps [of d sent])
      moreover have "sent + n \<le> length d" using a(1) True by simp
      ultimately obtain m where m: "sent + n \<le> m" "m \<le> length d"
          "net_out c' = net_out c1 @ take (m - (sent + n)) (drop (sent + n) d)" "b \<longleftrightarrow> m = length d"
        using 1(1) [OF True s [symmetric] False] by blast
      have "take n (drop sent d) @ take (m - (sent + n)) (drop (sent + n) d) = take (m - sent) (drop sent d)"
        using m(1) take_add [of n "m - (sent + n)" "drop sent d"] by (simp add: add.commute)
      then show ?thesis using m a(2) by (intro exI [of _ m]) simp
    qed
  next
    case False
    then have "b = True" "c' = c" "sent = length d" using 1(2,3) by (simp_all add: fd_send_loop.simps [of d _ c])
    then show ?thesis by (intro exI [of _ "length d"]) simp
  qed
qed

section \<open>Properties\<close>

text \<open>
  C19: \<open>readLine\<close> returns the lines of the byte stream, however the network cuts the stream into
  chunks: a line may arrive in many pieces, and a piece may hold many lines.  After the last
  complete line it reports the end.
\<close>

theorem readLine_ignores_chunking:
  assumes "0 \<le> fd" and "[] \<notin> set chunks" and "0 \<notin> set limits"
    and "concat chunks = concat (map (\<lambda>l. l @ [newline]) ls) @ rest" and "\<forall>l \<in> set ls. newline \<notin> set l"
    and "newline \<notin> set rest"
  shows "\<exists>c. read_lines fd_readLine (length ls) (FdConnection fd chunks limits) = (map Some ls, c) \<and> fst (fd_readLine c) = None"
proof -
  have "conn_up (FdConnection fd chunks limits)" "conn_input (FdConnection fd chunks limits) = concat (map (\<lambda>l. l @ [newline]) ls) @ rest"
    using assms by (simp_all add: conn_up_def conn_input_def FdConnection_def)
  then obtain c where c: "read_lines fd_readLine (length ls) (FdConnection fd chunks limits) = (map Some ls, c)" "conn_up c" "conn_input c = rest"
    using fdc.read_lines_all assms(5) by blast
  then show ?thesis using fdc.read_end [of c] assms(6) by auto
qed

theorem readLine_ignores_chunking_witness:
  "\<exists>c. read_lines fd_readLine 2 (FdConnection 3 [''GE'', ''T a'' @ [newline] @ ''EX'', ''IT'' @ [newline] @ ''x''] []) = ([Some ''GET a'', Some ''EXIT''], c) \<and>
    fst (fd_readLine c) = None"
  using readLine_ignores_chunking [of 3 "[''GE'', ''T a'' @ [newline] @ ''EX'', ''IT'' @ [newline] @ ''x'']" "[]" "[''GET a'', ''EXIT'']" "''x''"]
  by (simp add: newline_def numeral_2_eq_2)

text \<open>
  C20: \<open>writeAll\<close> tells the truth.  Whatever each \<open>send\<close> accepts, the peer has been sent a prefix of
  the data, and the result is true exactly when it is all of it.
\<close>

theorem writeAll_reports_all_sent:
  assumes "fd_writeAll d c = (b, c')"
  shows "\<exists>n \<le> length d. net_out c' = net_out c @ take n d \<and> (b \<longleftrightarrow> n = length d)"
  using fd_send_loop_amount [of d 0 c b c'] assms by (auto simp: fd_writeAll_def)

theorem writeAll_reports_all_sent_witness:
  "\<exists>n \<le> length ''hello''. net_out (snd (fd_writeAll ''hello'' (FdConnection 3 [] [2, 0]))) = take n ''hello'' \<and>
    (fst (fd_writeAll ''hello'' (FdConnection 3 [] [2, 0])) \<longleftrightarrow> n = length ''hello'')"
  using writeAll_reports_all_sent [of "''hello''" "FdConnection 3 [] [2, 0]"]
  by (simp add: FdConnection_def)

end
