(* ===== verification/Session.thy ===== *)
theory Session
  imports Command_Handler Connection
begin

text \<open>
  \<open>Session\<close> (\<open>src/net/session.cpp\<close>): the loop that serves one client.  The connection is an object
  of the abstract class \<open>Connection\<close>, so its operations are arguments of the loop, and so is the
  handler's \<open>execute\<close>.  The loop may not end; \<open>None\<close> is a run that does not return.
\<close>

section \<open>The loop\<close>

partial_function (option) session_loop ::
  "('c \<Rightarrow> string option \<times> 'c) \<Rightarrow> (string \<Rightarrow> 'c \<Rightarrow> bool \<times> 'c) \<Rightarrow> (command \<Rightarrow> string list \<Rightarrow> ('s, response) sx) \<Rightarrow>
    'c \<Rightarrow> 's \<Rightarrow> ((exn + unit) \<times> 'c \<times> 's) option" where
  "session_loop readLine writeAll execute c s =
     (case readLine c of
        (None, c1) \<Rightarrow> Some (Inr (), c1, s)
      | (Some line, c1) \<Rightarrow>
          (case decodeLine line of
             Inl parseErr \<Rightarrow>
               session_loop readLine writeAll execute (snd (writeAll (encodeResponse (Response False parseErr None)) c1)) s
           | Inr req \<Rightarrow>
               (case execute (req_command req) (req_args req) s of
                  (Inl ex, s1) \<Rightarrow> Some (Inl ex, c1, s1)
                | (Inr res, s1) \<Rightarrow>
                    if req_command req = EXIT then Some (Inr (), snd (writeAll (encodeResponse res) c1), s1)
                    else session_loop readLine writeAll execute (snd (writeAll (encodeResponse res) c1)) s1)))"

text \<open>\<open>run\<close> closes the connection after the loop; an exception passes by that.\<close>

definition session_run ::
  "('c \<Rightarrow> string option \<times> 'c) \<Rightarrow> (string \<Rightarrow> 'c \<Rightarrow> bool \<times> 'c) \<Rightarrow> ('c \<Rightarrow> 'c) \<Rightarrow>
    (command \<Rightarrow> string list \<Rightarrow> ('s, response) sx) \<Rightarrow> 'c \<Rightarrow> 's \<Rightarrow> ((exn + unit) \<times> 'c \<times> 's) option" where
  "session_run readLine writeAll close execute c s =
     (case session_loop readLine writeAll execute c s of
        None \<Rightarrow> None
      | Some (Inl ex, c', s') \<Rightarrow> Some (Inl ex, c', s')
      | Some (Inr _, c', s') \<Rightarrow> Some (Inr (), close c', s'))"

section \<open>What a session answers\<close>

text \<open>
  The transcript of a session on the abstract store: one response per line, an error for a line
  without a command, and nothing after \<open>EXIT\<close>.
\<close>

inductive transcript :: "(string \<rightharpoonup> string) \<Rightarrow> string list \<Rightarrow> response list \<Rightarrow> (string \<rightharpoonup> string) \<Rightarrow> bool" where
  transcript_end: "transcript m [] [] m"
| transcript_bad: "decodeLine l = Inl err \<Longrightarrow> transcript m ls rs m' \<Longrightarrow> transcript m (l # ls) (Response False err None # rs) m'"
| transcript_exit: "decodeLine l = Inr q \<Longrightarrow> req_command q = EXIT \<Longrightarrow> spec_step m q r m' \<Longrightarrow> transcript m (l # ls) [r] m'"
| transcript_step: "decodeLine l = Inr q \<Longrightarrow> req_command q \<noteq> EXIT \<Longrightarrow> spec_step m q r m1 \<Longrightarrow> transcript m1 ls rs m' \<Longrightarrow>
    transcript m (l # ls) (r # rs) m'"

inductive_simps transcript_Nil_iff [simp]: "transcript m [] rs m'"
inductive_simps transcript_Cons_iff: "transcript m (l # ls) rs m'"

definition admissible_line :: "string \<Rightarrow> bool" where
  "admissible_line l \<longleftrightarrow> newline \<notin> set l \<and> (case decodeLine l of Inl _ \<Rightarrow> True | Inr q \<Rightarrow> admissible q)"

text \<open>The lines that ask for a write.\<close>

definition line_writes :: "string list \<Rightarrow> nat" where
  "line_writes ls = length (filter (\<lambda>l. case decodeLine l of Inl _ \<Rightarrow> False | Inr q \<Rightarrow> is_write q) ls)"

lemma line_writes_simps [simp]:
  "line_writes [] = 0"
  "line_writes (l # ls) = (case decodeLine l of Inl _ \<Rightarrow> line_writes ls | Inr q \<Rightarrow> if is_write q then Suc (line_writes ls) else line_writes ls)"
  by (simp_all add: line_writes_def split: sum.split)

lemma line_writes_le: "line_writes ls \<le> length ls"
  by (simp add: line_writes_def)

text \<open>A connection served by a store: the client of both interfaces.\<close>

locale server_session = connection readLine writeAll close up unread written + kv_service execute good view
  for readLine :: "'c \<Rightarrow> string option \<times> 'c" and writeAll close up unread written
    and execute :: "command \<Rightarrow> string list \<Rightarrow> ('s, response) sx" and good view
begin

lemma session_loop_serves:
  assumes "up c" and "good (line_writes ls) s" and "unread c = concat (map (\<lambda>l. l @ [newline]) ls) @ rest"
    and "\<forall>l \<in> set ls. admissible_line l" and "newline \<notin> set rest"
  shows "\<exists>c' s' rs. session_loop readLine writeAll execute c s = Some (Inr (), c', s') \<and> up c' \<and>
    written c' = written c @ concat (map encodeResponse rs) \<and> transcript (view s) ls rs (view s')"
  using assms
proof (induction ls arbitrary: c s)
  case Nil
  then obtain c' where "readLine c = (None, c')" "up c'" "written c' = written c" using read_end [of c] by auto
  then have "session_loop readLine writeAll execute c s = Some (Inr (), c', s)" "up c'" "written c' = written c @ concat (map encodeResponse [])"
    by (simp_all add: session_loop.simps [of _ _ _ c])
  then show ?case by (metis transcript_end)
next
  case (Cons l ls)
  let ?rest = "concat (map (\<lambda>l. l @ [newline]) ls) @ rest"
  have "newline \<notin> set l" "unread c = l @ newline # ?rest" using Cons.prems by (simp_all add: admissible_line_def)
  then obtain c1 where c1: "readLine c = (Some l, c1)" "up c1" "unread c1 = ?rest" "written c1 = written c"
    using read_line [OF Cons.prems(1)] by blast
  have wr: "\<exists>c2. writeAll d c1 = (True, c2) \<and> up c2 \<and> unread c2 = ?rest \<and> written c2 = written c @ d" for d
    using write_all [OF c1(2), of d] c1(3,4) by simp
  have adm: "\<forall>l \<in> set ls. admissible_line l" using Cons.prems by simp
  show ?case
  proof (cases "decodeLine l")
    case (Inl err)
    obtain c2 where c2: "writeAll (encodeResponse (Response False err None)) c1 = (True, c2)" "up c2" "unread c2 = ?rest"
        "written c2 = written c @ encodeResponse (Response False err None)"
      using wr by blast
    have "good (line_writes ls) s" using Cons.prems(2) Inl by simp
    then obtain c' s' rs where ih: "session_loop readLine writeAll execute c2 s = Some (Inr (), c', s')" "up c'"
        "written c' = written c2 @ concat (map encodeResponse rs)" "transcript (view s) ls rs (view s')"
      using Cons.IH [OF c2(2) _ c2(3) adm Cons.prems(5)] by blast
    have "session_loop readLine writeAll execute c s = Some (Inr (), c', s')"
      using ih(1) c1(1) Inl c2(1) by (simp add: session_loop.simps [of _ _ _ c])
    moreover have "written c' = written c @ concat (map encodeResponse (Response False err None # rs))" using ih(3) c2(4) by simp
    ultimately show ?thesis using ih(2) transcript_bad [OF Inl ih(4)] by blast
  next
    case (Inr q)
    then have "admissible q" using Cons.prems(4) by (simp add: admissible_line_def)
    moreover have "good (if is_write q then Suc (line_writes ls) else line_writes ls) s" using Cons.prems(2) Inr by simp
    ultimately obtain r s1 where r: "execute (req_command q) (req_args q) s = (Inr r, s1)" "good (line_writes ls) s1" "spec_step (view s) q r (view s1)"
      using serve by blast
    obtain c2 where c2: "writeAll (encodeResponse r) c1 = (True, c2)" "up c2" "unread c2 = ?rest" "written c2 = written c @ encodeResponse r"
      using wr by blast
    show ?thesis
    proof (cases "req_command q = EXIT")
      case True
      then have "session_loop readLine writeAll execute c s = Some (Inr (), c2, s1)"
        using c1(1) Inr r(1) c2(1) by (simp add: session_loop.simps [of _ _ _ c])
      moreover have "written c2 = written c @ concat (map encodeResponse [r])" using c2(4) by simp
      ultimately show ?thesis using c2(2) transcript_exit [OF Inr True r(3)] by blast
    next
      case False
      obtain c' s' rs where ih: "session_loop readLine writeAll execute c2 s1 = Some (Inr (), c', s')" "up c'"
          "written c' = written c2 @ concat (map encodeResponse rs)" "transcript (view s1) ls rs (view s')"
        using Cons.IH [OF c2(2) r(2) c2(3) adm Cons.prems(5)] by blast
      have "session_loop readLine writeAll execute c s = Some (Inr (), c', s')"
        using ih(1) c1(1) Inr r(1) c2(1) False by (simp add: session_loop.simps [of _ _ _ c])
      moreover have "written c' = written c @ concat (map encodeResponse (r # rs))" using ih(3) c2(4) by simp
      ultimately show ?thesis using ih(2) transcript_step [OF Inr False r(3) ih(4)] by blast
    qed
  qed
qed

lemma session_run_serves:
  assumes "up c" and "good (line_writes ls) s" and "unread c = concat (map (\<lambda>l. l @ [newline]) ls) @ rest"
    and "\<forall>l \<in> set ls. admissible_line l" and "newline \<notin> set rest"
  shows "\<exists>c' s' rs. session_run readLine writeAll close execute c s = Some (Inr (), close c', s') \<and> up c' \<and>
    written (close c') = written c @ concat (map encodeResponse rs) \<and> transcript (view s) ls rs (view s')"
proof -
  obtain c' s' rs where "session_loop readLine writeAll execute c s = Some (Inr (), c', s')" "up c'"
      "written c' = written c @ concat (map encodeResponse rs)" "transcript (view s) ls rs (view s')"
    using session_loop_serves [OF assms] by blast
  then show ?thesis by (intro exI [of _ c'] exI [of _ s'] exI [of _ rs]) (simp add: session_run_def close_written)
qed

end

interpretation srv: server_session fd_readLine fd_writeAll fd_close conn_up conn_input net_out handler_execute db_ok db_view
  by unfold_locales

section \<open>Properties\<close>

text \<open>
  C18: a client that sends complete lines is served.  Whatever chunks its bytes arrive in and
  whatever pieces the answers are sent in, the session returns, the bytes sent back are exactly the
  encoded answers that the abstract store gives to the lines, in order and up to the first \<open>EXIT\<close>,
  and the connection is closed.
\<close>

theorem session_serves_client:
  assumes "0 \<le> fd" and "[] \<notin> set chunks" and "0 \<notin> set limits"
    and "concat chunks = concat (map (\<lambda>l. l @ [newline]) ls) @ rest" and "newline \<notin> set rest"
    and "\<forall>l \<in> set ls. admissible_line l" and "db_ok (line_writes ls) s"
  shows "\<exists>c s' rs. session_run fd_readLine fd_writeAll fd_close handler_execute (FdConnection fd chunks limits) s = Some (Inr (), c, s') \<and>
    net_out c = concat (map encodeResponse rs) \<and> transcript (db_view s) ls rs (db_view s') \<and> conn_fd c = -1"
proof -
  let ?c = "FdConnection fd chunks limits"
  have "conn_up ?c" "conn_input ?c = concat (map (\<lambda>l. l @ [newline]) ls) @ rest" "net_out ?c = []"
    using assms by (simp_all add: conn_up_def conn_input_def FdConnection_def)
  then obtain c' s' rs where
    "session_run fd_readLine fd_writeAll fd_close handler_execute ?c s = Some (Inr (), fd_close c', s')" "conn_up c'"
    "net_out (fd_close c') = concat (map encodeResponse rs)" "transcript (db_view s) ls rs (db_view s')"
    using srv.session_run_serves [OF _ assms(7) _ assms(6,5), of ?c] by auto
  moreover from this have "conn_fd (fd_close c') = -1" by (simp add: conn_up_def fd_close_def)
  ultimately show ?thesis by blast
qed

lemma example_lines:
  "decodeLine ''put k v'' = Inr \<lparr>req_command = PUT, req_args = [''k'', ''v'']\<rparr>"
  "decodeLine ''GET k'' = Inr \<lparr>req_command = GET, req_args = [''k'']\<rparr>"
  "decodeLine ''_FLUSH'' = Inr \<lparr>req_command = FLUSH_CMD, req_args = []\<rparr>"
  by code_simp+

theorem session_serves_client_witness:
  "\<exists>c s'. session_run fd_readLine fd_writeAll fd_close handler_execute
      (FdConnection 4 [''put k '', ''v'' @ [newline] @ ''GET'', '' k'' @ [newline]] [7, 1]) (createDefaultDb fresh_world) = Some (Inr (), c, s') \<and>
    net_out c = encodeResponse (Response True ''OK'' None) @ encodeResponse (Response True ''OK'' (Some ''v''))"
proof -
  let ?chunks = "[''put k '', ''v'' @ [newline] @ ''GET'', '' k'' @ [newline]]"
  let ?ls = "[''put k v'', ''GET k'']"
  have adm: "\<forall>l \<in> set ?ls. admissible_line l"
    by (simp add: admissible_line_def example_lines admissible_def newline_def)
  have "concat ?chunks = concat (map (\<lambda>l. l @ [newline]) ?ls) @ []" by simp
  moreover have "db_ok (line_writes ?ls) (createDefaultDb fresh_world)"
    by (rule default_db_ok) (simp add: example_lines is_write_def)
  ultimately obtain c s' rs where r:
    "session_run fd_readLine fd_writeAll fd_close handler_execute (FdConnection 4 ?chunks [7, 1]) (createDefaultDb fresh_world) = Some (Inr (), c, s')"
    "net_out c = concat (map encodeResponse rs)" "transcript (db_view (createDefaultDb fresh_world)) ?ls rs (db_view s')"
    using session_serves_client [of 4 ?chunks "[7, 1]" ?ls "[]" "createDefaultDb fresh_world"] adm by auto
  from r(3) have "rs = [Response True ''OK'' None, Response True ''OK'' (Some ''v'')]"
    by (auto simp: transcript_Cons_iff example_lines get_response_def)
  then show ?thesis using r(1,2) by auto
qed

text \<open>
  C29: any client can make a session throw.  On a store whose memtable is empty the line \<open>_FLUSH\<close>
  ends \<open>Session::run\<close> with an exception: no answer is sent, the connection is not closed, and nothing
  between \<open>run\<close> and the thread that called it catches the exception.
\<close>

theorem session_flush_throws:
  assumes "0 \<le> fd" and "[] \<notin> set chunks" and "concat chunks = ''_FLUSH'' @ newline # rest"
    and "db_ok b s" and "m_map (db_skiplist s) = []"
  shows "\<exists>msg c s'. session_run fd_readLine fd_writeAll fd_close handler_execute (FdConnection fd chunks []) s =
      Some (Inl (Runtime_error msg), c, s') \<and> net_out c = [] \<and> conn_fd c \<ge> 0 \<and> db_readOnly s'"
proof -
  let ?c = "FdConnection fd chunks []"
  have "conn_up ?c" "conn_input ?c = ''_FLUSH'' @ newline # rest" "newline \<notin> set ''_FLUSH''" "net_out ?c = []"
    using assms by (simp_all add: conn_up_def conn_input_def FdConnection_def newline_def)
  then obtain c where c: "fd_readLine ?c = (Some ''_FLUSH'', c)" "conn_up c" "net_out c = []"
    using fdc.read_line by metis
  obtain msg s' where "handler_execute FLUSH_CMD [] s = (Inl (Runtime_error msg), s')" "db_readOnly s'"
    using handler_flush_empty [OF assms(4,5)] by blast
  then have "session_loop fd_readLine fd_writeAll handler_execute ?c s = Some (Inl (Runtime_error msg), c, s')" "db_readOnly s'"
    using c(1) by (simp_all add: session_loop.simps [of _ _ _ ?c] example_lines)
  then show ?thesis using c by (auto simp: session_run_def conn_up_def)
qed

theorem session_flush_throws_witness:
  "\<exists>msg c s'. session_run fd_readLine fd_writeAll fd_close handler_execute (FdConnection 4 [''_FLUSH'' @ [newline]] []) (createDefaultDb fresh_world) =
      Some (Inl (Runtime_error msg), c, s') \<and> db_readOnly s'"
proof -
  have "m_map (db_skiplist (createDefaultDb fresh_world)) = []"
    by (simp add: createDefaultDb_def createDbWithConfig_def MemTableImpl_def skip_list_empty_def)
  then show ?thesis
    using session_flush_throws [OF _ _ _ default_db_ok [of 0], of 4 "[''_FLUSH'' @ [newline]]" "[]"] by auto
qed

end
