(* ===== verification/Ports.thy ===== *)
theory Ports
  imports Codec
begin

text \<open>
  The port a program uses: \<open>readPortFromEnv\<close>, which \<open>src/server_main.cpp\<close> and \<open>src/cli_main.cpp\<close>
  both define, over \<open>std::strtoul\<close>.
\<close>

text \<open>
  \<open>strtoul\<close> in base 10: white space, a sign, digits.  The result is the value (negated modulo
  \<open>2 ^ 64\<close> after a minus sign), the position where the conversion stopped (the start when there are
  no digits) and whether \<open>errno\<close> was set.
\<close>

definition split_sign :: "string \<Rightarrow> bool \<times> string" where
  "split_sign s =
     (case s of
        [] \<Rightarrow> (False, s)
      | c # cs \<Rightarrow> if c = CHR ''-'' then (True, cs) else if c = CHR ''+'' then (False, cs) else (False, s))"

definition strtoul :: "string \<Rightarrow> u64 \<times> nat \<times> bool" where
  "strtoul s =
     (case split_sign (dropWhile isspace_char s) of
        (negative, t) \<Rightarrow>
          let ds = takeWhile isdigit t; v = decimal_value ds
          in if ds = [] then (0, 0, False)
             else if 2 ^ 64 \<le> v then (- 1, length s - length (dropWhile isdigit t), True)
             else (if negative then - of_nat v else of_nat v, length s - length (dropWhile isdigit t), False))"

definition readPortFromEnv :: "string option \<Rightarrow> 16 word option" where
  "readPortFromEnv raw =
     (case raw of
        None \<Rightarrow> None
      | Some s \<Rightarrow>
          if s = [] then None
          else case strtoul s of
            (parsed, stop, failed) \<Rightarrow>
              if failed \<or> stop = 0 \<or> stop \<noteq> length s \<or> parsed > ucast (- 1 :: 16 word) then None else Some (ucast parsed))"

text \<open>The function of the same name in \<open>src/cli_main.cpp\<close>, which compares with the literal \<open>65535\<close>.\<close>

definition cli_readPortFromEnv :: "string option \<Rightarrow> 16 word option" where
  "cli_readPortFromEnv env =
     (case env of
        None \<Rightarrow> None
      | Some raw \<Rightarrow>
          if raw = [] then None
          else case strtoul raw of
            (parsed, stop, failed) \<Rightarrow>
              if failed \<or> stop = 0 \<or> stop \<noteq> length raw \<or> parsed > 65535 then None else Some (ucast parsed))"

definition kDefaultPort :: "16 word" where
  "kDefaultPort = 6379"

definition chosen_port :: "string option \<Rightarrow> 16 word" where
  "chosen_port raw = (case readPortFromEnv raw of None \<Rightarrow> kDefaultPort | Some p \<Rightarrow> p)"

section \<open>Lemmas\<close>

lemma isdigit_not_space [simp]: "isdigit c \<Longrightarrow> \<not> isspace_char c"
  by (auto simp: isdigit_def isspace_char_def)

lemma isdigit_not_sign: "isdigit c \<Longrightarrow> c \<noteq> CHR ''-'' \<and> c \<noteq> CHR ''+''"
  by (auto simp: isdigit_def)

lemma strtoul_digits:
  assumes "ds \<noteq> []" and "\<forall>c \<in> set ds. isdigit c" and "decimal_value ds < 2 ^ 64"
  shows "strtoul ds = (of_nat (decimal_value ds), length ds, False)"
    and "strtoul (CHR ''-'' # ds) = (- of_nat (decimal_value ds), Suc (length ds), False)"
proof -
  obtain c cs where c: "ds = c # cs" using assms(1) by (cases ds) auto
  have all: "takeWhile isdigit ds = ds" "dropWhile isdigit ds = []" using assms(2) by (simp_all add: takeWhile_eq_all_conv)
  have "split_sign (dropWhile isspace_char ds) = (False, ds)"
    using assms(2) isdigit_not_sign by (simp add: c split_sign_def)
  then show "strtoul ds = (of_nat (decimal_value ds), length ds, False)"
    using assms(1,3) by (simp add: strtoul_def Let_def all)
  have "split_sign (dropWhile isspace_char (CHR ''-'' # ds)) = (True, ds)"
    by (simp add: split_sign_def isspace_char_def)
  then show "strtoul (CHR ''-'' # ds) = (- of_nat (decimal_value ds), Suc (length ds), False)"
    using assms(1,3) by (simp add: strtoul_def Let_def all)
qed

lemma ucast_port: "(ucast (of_nat n :: u64) :: 16 word) = of_nat n"
  by (rule bit_word_eqI) (simp add: bit_simps)

lemma port_limit [simp]: "ucast (- 1 :: 16 word) = (65535 :: u64)"
  by (simp add: unsigned_minus_1_eq_mask mask_eq_exp_minus_1)

text \<open>Client and server read the variable alike, so they agree on the port.\<close>

lemma client_and_server_ports_agree: "cli_readPortFromEnv = readPortFromEnv"
  unfolding fun_eq_iff cli_readPortFromEnv_def readPortFromEnv_def port_limit by (rule allI) (rule refl)

text \<open>Every port number is accepted in its decimal form, and every larger number is refused.\<close>

lemma port_of_numeral:
  assumes "n < 2 ^ 64"
  shows "readPortFromEnv (Some (to_string n)) = (if n \<le> 65535 then Some (of_nat n) else None)"
proof -
  have s: "strtoul (to_string n) = (of_nat n, length (to_string n), False)"
    using strtoul_digits(1) [of "to_string n"] to_string_digits assms by simp
  have "(of_nat n :: u64) > 65535 \<longleftrightarrow> n > 65535"
    using assms by (simp add: word_less_nat_alt unat_of_nat take_bit_nat_eq_self)
  moreover have "(ucast (of_nat n :: u64) :: 16 word) = of_nat n"
    by (rule ucast_port)
  ultimately show ?thesis
    by (simp add: readPortFromEnv_def s)
qed

text \<open>A negative number just above \<open>- 2 ^ 64\<close> wraps around to a port.\<close>

lemma port_of_negative:
  assumes "0 < n" and "n \<le> 65535"
  shows "readPortFromEnv (Some (CHR ''-'' # to_string (2 ^ 64 - n))) = Some (of_nat n)"
proof -
  let ?ds = "to_string (2 ^ 64 - n)"
  have "strtoul (CHR ''-'' # ?ds) = (- of_nat (2 ^ 64 - n), Suc (length ?ds), False)"
    using strtoul_digits(2) [of ?ds] to_string_digits assms by simp
  moreover have "- of_nat (2 ^ 64 - n) = (of_nat n :: u64)"
    using assms(2) by (simp add: of_nat_diff)
  ultimately have s: "strtoul (CHR ''-'' # ?ds) = (of_nat n, Suc (length ?ds), False)" by simp
  have "\<not> (of_nat n :: u64) > 65535"
    using assms(2) by (simp add: word_less_nat_alt unat_of_nat take_bit_nat_eq_self)
  moreover have "(ucast (of_nat n :: u64) :: 16 word) = of_nat n"
    by (rule ucast_port)
  ultimately show ?thesis by (simp add: readPortFromEnv_def s [simplified])
qed

end
