(* ===== verification/Server.thy ===== *)
theory Server
  imports Session Ports
begin

text \<open>
  The server program, \<open>src/server_main.cpp\<close>: it accepts clients and gives each a detached thread that
  runs a session on the one shared store.  There is no lock anywhere between the sessions and the
  store.  The relation below interleaves the threads at the points where they touch something shared:
  a thread reads a line from its own socket and enters \<open>execute\<close>; it comes out of \<open>execute\<close>; it sends
  the answer.  Between the first two any number of other threads may be inside \<open>execute\<close> too.  When
  two of them are and one may write what the other accesses, the program has a data race, which the
  language gives no meaning: the flag \<open>sv_race\<close> is set and the run stops there.
\<close>

section \<open>Threads\<close>

datatype access = No_access | Reads | Writes

text \<open>
  What executing a request may do to the store.  Only \<open>GET\<close> reads without writing: it calls \<open>const\<close>
  functions all the way down.  Requests that are answered by a usage message do not reach the store.
\<close>

fun request_access :: "command \<Rightarrow> string list \<Rightarrow> access" where
  "request_access PUT (_ # _ # _) = Writes"
| "request_access GET (_ # _) = Reads"
| "request_access DEL (_ # _) = Writes"
| "request_access FLUSH_CMD _ = Writes"
| "request_access _ _ = No_access"

definition conflict :: "request \<Rightarrow> request \<Rightarrow> bool" where
  "conflict q q' \<longleftrightarrow>
     (let a = request_access (req_command q) (req_args q); a' = request_access (req_command q') (req_args q')
      in a = Writes \<and> a' \<noteq> No_access \<or> a' = Writes \<and> a \<noteq> No_access)"

text \<open>
  A thread is before reading a line, inside \<open>execute\<close>, before sending an answer, or over.
\<close>

datatype session_thread =
    Reading fd_connection
  | Executing fd_connection request
  | Answering fd_connection request response
  | Returned fd_connection

fun conflicts_with :: "request \<Rightarrow> session_thread \<Rightarrow> bool" where
  "conflicts_with q (Executing _ q') = conflict q q'"
| "conflicts_with q _ = False"

record server =
  sv_db :: db
  sv_threads :: "session_thread list"
  sv_terminated :: bool
  sv_race :: bool

definition server_start :: "world \<Rightarrow> server" where
  "server_start w = \<lparr>sv_db = createDefaultDb w, sv_threads = [], sv_terminated = False, sv_race = False\<rparr>"

definition alive :: "server \<Rightarrow> bool" where
  "alive v \<longleftrightarrow> \<not> sv_terminated v \<and> \<not> sv_race v"

section \<open>Steps\<close>

text \<open>The events of a run; those of a thread carry its number.\<close>

datatype server_event =
    Accepted "bytes list"
  | Begun nat request
  | Served nat request response
  | Answered nat request response

text \<open>
  An exception that leaves the function of a thread ends the whole process (\<open>std::terminate\<close>).
\<close>

inductive server_step :: "server \<Rightarrow> server_event list \<Rightarrow> server \<Rightarrow> bool" where
  accept_failed: "alive v \<Longrightarrow> server_step v [] v"
| accepted: "alive v \<Longrightarrow> 0 \<le> fd \<Longrightarrow>
    server_step v [Accepted chunks] (v\<lparr>sv_threads := sv_threads v @ [Reading (FdConnection fd chunks limits)]\<rparr>)"
| closed: "alive v \<Longrightarrow> i < length (sv_threads v) \<Longrightarrow> sv_threads v ! i = Reading c \<Longrightarrow> fd_readLine c = (None, c1) \<Longrightarrow>
    server_step v [] (v\<lparr>sv_threads := (sv_threads v)[i := Returned (fd_close c1)]\<rparr>)"
| rejected: "alive v \<Longrightarrow> i < length (sv_threads v) \<Longrightarrow> sv_threads v ! i = Reading c \<Longrightarrow> fd_readLine c = (Some line, c1) \<Longrightarrow>
    decodeLine line = Inl parseErr \<Longrightarrow>
    server_step v [] (v\<lparr>sv_threads := (sv_threads v)[i := Reading (snd (fd_writeAll (encodeResponse (Response False parseErr None)) c1))]\<rparr>)"
| begun: "alive v \<Longrightarrow> i < length (sv_threads v) \<Longrightarrow> sv_threads v ! i = Reading c \<Longrightarrow> fd_readLine c = (Some line, c1) \<Longrightarrow>
    decodeLine line = Inr q \<Longrightarrow>
    server_step v [Begun i q]
      (v\<lparr>sv_threads := (sv_threads v)[i := Executing c1 q], sv_race := list_ex (conflicts_with q) (sv_threads v)\<rparr>)"
| served: "alive v \<Longrightarrow> i < length (sv_threads v) \<Longrightarrow> sv_threads v ! i = Executing c q \<Longrightarrow>
    handler_execute (req_command q) (req_args q) (sv_db v) = (Inr r, s') \<Longrightarrow>
    server_step v [Served i q r] (v\<lparr>sv_db := s', sv_threads := (sv_threads v)[i := Answering c q r]\<rparr>)"
| throws: "alive v \<Longrightarrow> i < length (sv_threads v) \<Longrightarrow> sv_threads v ! i = Executing c q \<Longrightarrow>
    handler_execute (req_command q) (req_args q) (sv_db v) = (Inl ex, s') \<Longrightarrow>
    server_step v [] (v\<lparr>sv_db := s', sv_terminated := True\<rparr>)"
| answered: "alive v \<Longrightarrow> i < length (sv_threads v) \<Longrightarrow> sv_threads v ! i = Answering c q r \<Longrightarrow>
    snd (fd_writeAll (encodeResponse r) c) = c1 \<Longrightarrow>
    server_step v [Answered i q r]
      (v\<lparr>sv_threads := (sv_threads v)[i := if req_command q = EXIT then Returned (fd_close c1) else Reading c1]\<rparr>)"

inductive server_run :: "server \<Rightarrow> server_event list \<Rightarrow> server \<Rightarrow> bool" where
  server_run_refl: "server_run v [] v"
| server_run_step: "server_run v tr v1 \<Longrightarrow> server_step v1 tr1 v2 \<Longrightarrow> server_run v (tr @ tr1) v2"

lemma server_run_trans: "server_run v1 tr2 v2 \<Longrightarrow> server_run v tr1 v1 \<Longrightarrow> server_run v (tr1 @ tr2) v2"
proof (induction arbitrary: tr1 rule: server_run.induct)
  case (server_run_step v0 tr v1 tr2 v2)
  from server_run.server_run_step [OF server_run_step.IH [OF server_run_step.prems] server_run_step.hyps(2)] show ?case by simp
qed simp

text \<open>
  What the clients send: a connection is polite when every line still to be read from it is
  admissible.
\<close>

fun lines_of :: "string \<Rightarrow> bytes \<Rightarrow> string list" where
  "lines_of begun [] = []"
| "lines_of begun (c # cs) = (if c = newline then begun # lines_of [] cs else lines_of (begun @ [c]) cs)"

definition polite_bytes :: "bytes \<Rightarrow> bool" where
  "polite_bytes d \<longleftrightarrow> list_all admissible_line (lines_of [] d)"

lemma lines_of_line: "newline \<notin> set l \<Longrightarrow> lines_of begun (l @ newline # ys) = (begun @ l) # lines_of [] ys"
  by (induction l arbitrary: begun) auto

lemma polite_bytes_line: "newline \<notin> set l \<Longrightarrow> polite_bytes (l @ newline # ys) \<longleftrightarrow> admissible_line l \<and> polite_bytes ys"
  by (simp add: polite_bytes_def lines_of_line)

section \<open>Connections\<close>

lemma fd_readLine_splits: "fd_readLine c = (Some l, c') \<Longrightarrow> conn_input c = l @ newline # conn_input c' \<and> newline \<notin> set l"
proof (induction c rule: fd_readLine.induct)
  case (1 c)
  show ?case
  proof (cases "find_char newline (conn_buffer c)")
    case (Some i)
    obtain u zs where z: "conn_buffer c = u @ newline # zs" "i = length u" "newline \<notin> set u"
      using find_char_Some [OF Some] by blast
    have "l = u" "c' = c\<lparr>conn_buffer := zs\<rparr>" using 1(2) Some z by (simp_all add: fd_readLine.simps [of c])
    then show ?thesis using z by (simp add: conn_input_def)
  next
    case None
    obtain chunk c1 where r: "sock_recv 1024 c = (Some chunk, c1)"
      using 1(2) None by (auto simp: fd_readLine.simps [of c] split: prod.splits option.splits)
    then have "chunk @ concat (net_in c1) = concat (net_in c)" "conn_buffer c1 = conn_buffer c"
      by (auto simp: sock_recv_def split: if_splits list.splits)
    then have "conn_input (c1\<lparr>conn_buffer := conn_buffer c1 @ chunk\<rparr>) = conn_input c" by (simp add: conn_input_def)
    moreover have "fd_readLine (c1\<lparr>conn_buffer := conn_buffer c1 @ chunk\<rparr>) = (Some l, c')"
      using 1(2) None r by (simp add: fd_readLine.simps [of c])
    ultimately show ?thesis using 1(1) [OF None r [symmetric] refl] by simp
  qed
qed

lemma fd_send_loop_input: "conn_input (snd (fd_send_loop d sent c)) = conn_input c"
proof (induction d sent c rule: fd_send_loop.induct)
  case (1 d sent c)
  obtain n c' where s: "sock_send (drop sent d) c = (n, c')" by fastforce
  then have "conn_input c' = conn_input c" by (auto simp: sock_send_def conn_input_def split: if_splits list.splits)
  then show ?case using 1 [OF _ s [symmetric]] s by (subst fd_send_loop.simps) auto
qed

lemma fd_writeAll_input [simp]: "conn_input (snd (fd_writeAll d c)) = conn_input c"
  by (simp add: fd_writeAll_def fd_send_loop_input)

section \<open>What was served, and when\<close>

fun served_of :: "server_event list \<Rightarrow> (request \<times> response) list" where
  "served_of [] = []"
| "served_of (Served _ q r # es) = (q, r) # served_of es"
| "served_of (_ # es) = served_of es"

lemma served_of_append [simp]: "served_of (es @ fs) = served_of es @ served_of fs"
  by (induction es rule: served_of.induct) simp_all

text \<open>
  The events of one thread, and the phase they lead to: a request is begun, then served, then
  answered with the response it was served with, and only then the next one is begun.
\<close>

fun event_of :: "nat \<Rightarrow> server_event \<Rightarrow> bool" where
  "event_of i (Accepted _) = False"
| "event_of i (Begun j _) = (i = j)"
| "event_of i (Served j _ _) = (i = j)"
| "event_of i (Answered j _ _) = (i = j)"

datatype phase = Idle | Busy request | Done request response

fun next_phase :: "server_event \<Rightarrow> phase \<Rightarrow> phase option" where
  "next_phase (Begun _ q) Idle = Some (Busy q)"
| "next_phase (Served _ q r) (Busy q') = (if q = q' then Some (Done q r) else None)"
| "next_phase (Answered _ q r) (Done q' r') = (if q = q' \<and> r = r' then Some Idle else None)"
| "next_phase _ _ = None"

fun phase_after :: "server_event list \<Rightarrow> phase \<Rightarrow> phase option" where
  "phase_after [] p = Some p"
| "phase_after (e # es) p = Option.bind (next_phase e p) (phase_after es)"

lemma phase_after_append: "phase_after (es @ fs) p = Option.bind (phase_after es p) (phase_after fs)"
proof (induction es arbitrary: p)
  case (Cons e es)
  then show ?case by (cases "next_phase e p") simp_all
qed simp

definition in_turn :: "nat \<Rightarrow> server_event list \<Rightarrow> bool" where
  "in_turn i tr \<longleftrightarrow> phase_after (filter (event_of i) tr) Idle \<noteq> None"

fun phase_of :: "session_thread \<Rightarrow> phase" where
  "phase_of (Executing _ q) = Busy q"
| "phase_of (Answering _ q r) = Done q r"
| "phase_of _ = Idle"

section \<open>The invariant\<close>

fun thread_ok :: "session_thread \<Rightarrow> bool" where
  "thread_ok (Reading c) = polite_bytes (conn_input c)"
| "thread_ok (Executing c q) = (polite_bytes (conn_input c) \<and> admissible q)"
| "thread_ok (Answering c q r) = polite_bytes (conn_input c)"
| "thread_ok (Returned c) = True"

definition turns :: "server_event list \<Rightarrow> session_thread list \<Rightarrow> bool" where
  "turns tr ts \<longleftrightarrow> (\<forall>i. phase_after (filter (event_of i) tr) Idle = Some (if i < length ts then phase_of (ts ! i) else Idle))"

definition server_inv :: "nat \<Rightarrow> server_event list \<Rightarrow> server \<Rightarrow> bool" where
  "server_inv b tr v \<longleftrightarrow>
     \<not> sv_terminated v \<and> db_ok b (sv_db v) \<and>
     spec_run Map.empty (map fst (served_of tr)) (map snd (served_of tr)) (db_view (sv_db v)) \<and>
     list_all thread_ok (sv_threads v) \<and> turns tr (sv_threads v)"

lemma turns_new: "turns tr ts \<Longrightarrow> phase_of t = Idle \<Longrightarrow> turns (tr @ [Accepted chunks]) (ts @ [t])"
  by (auto simp: turns_def nth_append less_Suc_eq)

lemma turns_silent:
  assumes "turns tr ts" and "phase_of t = phase_of (ts ! i)"
  shows "turns tr (ts[i := t])"
proof -
  have "phase_of (ts[i := t] ! j) = phase_of (ts ! j)" if "j < length ts" for j
    using that assms(2) by (cases "i = j") simp_all
  then show ?thesis using assms(1) by (simp add: turns_def)
qed

lemma turns_event:
  assumes "turns tr ts" and "i < length ts" and "next_phase e (phase_of (ts ! i)) = Some (phase_of t)" and "\<And>j. event_of j e = (j = i)"
  shows "turns (tr @ [e]) (ts[i := t])"
  using assms by (auto simp: turns_def nth_list_update phase_after_append)

lemma list_all_update: "list_all P xs \<Longrightarrow> P x \<Longrightarrow> list_all P (xs[i := x])"
  by (auto simp: list_all_iff dest: set_update_subset_insert [THEN subsetD])

lemma thread_reads:
  assumes "thread_ok (Reading c)" and "fd_readLine c = (Some l, c1)"
  shows "admissible_line l \<and> polite_bytes (conn_input c1)"
  using fd_readLine_splits [OF assms(2)] polite_bytes_line assms(1) by simp

lemma server_step_inv:
  assumes "server_step v tr1 v'" and inv: "server_inv (Suc (writes (map fst (served_of tr1)) + b)) tr v"
    and "\<forall>ch. Accepted ch \<in> set tr1 \<longrightarrow> polite_bytes (concat ch)"
  shows "server_inv (Suc b) (tr @ tr1) v'"
proof -
  have ok: "thread_ok (sv_threads v ! i)" if "i < length (sv_threads v)" for i
    using inv that by (simp add: server_inv_def list_all_length)
  from assms(1) show ?thesis
  proof cases
    case (accepted fd chunks limits)
    then show ?thesis
      using assms(2,3) by (auto simp: server_inv_def conn_input_def FdConnection_def intro!: turns_new)
  next
    case (closed i c c1)
    then show ?thesis using inv by (auto simp: server_inv_def intro!: list_all_update turns_silent)
  next
    case (rejected i c line c1 parseErr)
    then show ?thesis
      using inv thread_reads [of c line c1] ok [of i] by (auto simp: server_inv_def intro!: list_all_update turns_silent)
  next
    case (begun i c line c1 q)
    have "admissible q" "polite_bytes (conn_input c1)"
      using thread_reads [OF _ begun(6)] ok [OF begun(4)] begun(5,7) by (simp_all add: admissible_line_def)
    then show ?thesis using inv begun by (auto simp: server_inv_def intro!: list_all_update turns_event)
  next
    case (served i c q r s')
    have q: "admissible q" "polite_bytes (conn_input c)" using ok [OF served(4)] served(5) by simp_all
    have "db_ok (if is_write q then Suc (Suc b) else Suc b) (sv_db v)" using inv served(1) by (auto simp: server_inv_def split: if_splits)
    then have "db_ok (Suc b) s'" "spec_step (db_view (sv_db v)) q r (db_view s')"
      using handler_execute_spec [OF _ q(1)] served(6) by fastforce+
    then show ?thesis using inv served q(2) by (auto simp: server_inv_def intro!: list_all_update turns_event spec_run_snoc)
  next
    case (throws i c q ex s')
    have "admissible q" using ok [OF throws(4)] throws(5) by simp
    then show ?thesis using inv throws(1,6) handler.serve_one [of b "sv_db v" q] by (auto simp: server_inv_def)
  next
    case (answered i c q r c1)
    have "polite_bytes (conn_input c1)" using ok [OF answered(4)] answered(5,6) by auto
    then show ?thesis using inv answered by (auto simp: server_inv_def intro!: list_all_update turns_event)
  qed (use inv in simp)
qed

lemma server_run_inv:
  assumes "server_run v tr v'" and "server_inv (Suc (writes (map fst (served_of tr)) + b)) [] v"
    and "\<forall>ch. Accepted ch \<in> set tr \<longrightarrow> polite_bytes (concat ch)"
  shows "server_inv (Suc b) tr v'"
  using assms
proof (induction arbitrary: b rule: server_run.induct)
  case (server_run_step v tr v1 tr1 v2)
  have "server_inv (Suc (writes (map fst (served_of tr1)) + b)) tr v1"
    using server_run_step.prems by (intro server_run_step.IH) (auto simp: ac_simps)
  from server_step_inv [OF server_run_step.hyps(2) this] server_run_step.prems(2) show ?case by simp
qed simp

section \<open>A thread is a session\<close>

text \<open>\<open>Session::run\<close>, one round at a time.\<close>

lemma session_run_round:
  "session_run fd_readLine fd_writeAll fd_close execute c s =
     (case fd_readLine c of
        (None, c1) \<Rightarrow> Some (Inr (), fd_close c1, s)
      | (Some line, c1) \<Rightarrow>
          (case decodeLine line of
             Inl parseErr \<Rightarrow>
               session_run fd_readLine fd_writeAll fd_close execute (snd (fd_writeAll (encodeResponse (Response False parseErr None)) c1)) s
           | Inr q \<Rightarrow>
               (case execute (req_command q) (req_args q) s of
                  (Inl ex, s1) \<Rightarrow> Some (Inl ex, c1, s1)
                | (Inr r, s1) \<Rightarrow>
                    let c2 = snd (fd_writeAll (encodeResponse r) c1)
                    in if req_command q = EXIT then Some (Inr (), fd_close c2, s1)
                       else session_run fd_readLine fd_writeAll fd_close execute c2 s1)))"
  unfolding session_run_def
  by (subst session_loop.simps) (auto simp: Let_def split: prod.splits option.splits sum.splits)

text \<open>How \<open>Session::run\<close> will end for a thread when it runs alone from here on.\<close>

definition answer_result :: "fd_connection \<Rightarrow> request \<Rightarrow> response \<Rightarrow> db \<Rightarrow> ((exn + unit) \<times> fd_connection \<times> db) option" where
  "answer_result c q r s =
     (let c1 = snd (fd_writeAll (encodeResponse r) c)
      in if req_command q = EXIT then Some (Inr (), fd_close c1, s)
         else session_run fd_readLine fd_writeAll fd_close handler_execute c1 s)"

fun thread_result :: "session_thread \<Rightarrow> db \<Rightarrow> ((exn + unit) \<times> fd_connection \<times> db) option" where
  "thread_result (Reading c) s = session_run fd_readLine fd_writeAll fd_close handler_execute c s"
| "thread_result (Executing c q) s =
     (case handler_execute (req_command q) (req_args q) s of
        (Inl ex, s1) \<Rightarrow> Some (Inl ex, c, s1)
      | (Inr r, s1) \<Rightarrow> answer_result c q r s1)"
| "thread_result (Answering c q r) s = answer_result c q r s"
| "thread_result (Returned c) s = Some (Inr (), c, s)"

text \<open>
  A server with one client: whatever step it takes, as long as it accepts no other, the way the session
  will end stays the same, and there is no race.
\<close>

definition only_thread :: "((exn + unit) \<times> fd_connection \<times> db) option \<Rightarrow> server \<Rightarrow> bool" where
  "only_thread res v \<longleftrightarrow> \<not> sv_race v \<and>
     (if sv_terminated v then \<exists>ex c q. sv_threads v = [Executing c q] \<and> res = Some (Inl ex, c, sv_db v)
      else \<exists>t. sv_threads v = [t] \<and> thread_result t (sv_db v) = res)"

lemma only_thread_step:
  assumes "server_step v tr v'" and "only_thread res v" and "\<forall>ch. Accepted ch \<notin> set tr"
  shows "only_thread res v'"
proof -
  have "\<not> sv_terminated v" using assms(1) by (cases rule: server_step.cases) (simp_all add: alive_def)
  then obtain t where t: "sv_threads v = [t]" "thread_result t (sv_db v) = res" "\<not> sv_race v" "\<not> sv_terminated v"
    using assms(2) by (auto simp: only_thread_def)
  from assms(1) show ?thesis
  proof cases
    case (begun i c line c1 q)
    then show ?thesis using t by (auto simp: only_thread_def session_run_round [of _ c] answer_result_def alive_def split: prod.splits sum.splits)
  next
    case (closed i c c1)
    then show ?thesis using t by (auto simp: only_thread_def session_run_round [of _ c])
  next
    case (rejected i c line c1 parseErr)
    then show ?thesis using t by (auto simp: only_thread_def session_run_round [of _ c])
  next
    case (answered i c q r c1)
    then show ?thesis using t by (auto simp: only_thread_def answer_result_def Let_def)
  qed (use t assms(3) in \<open>auto simp: only_thread_def alive_def\<close>)
qed

lemma only_thread_run:
  assumes "server_run v tr v'" and "only_thread res v" and "\<forall>ch. Accepted ch \<notin> set tr"
  shows "only_thread res v'"
  using assms by (induction rule: server_run.induct) (auto intro: only_thread_step)

lemma server_runI: "server_step v tr v1 \<Longrightarrow> server_run v1 tr' v2 \<Longrightarrow> server_run v (tr @ tr') v2"
  using server_run_trans [of v1 tr' v2 v tr] server_run_step [OF server_run_refl, of v tr v1] by simp

text \<open>Left alone, a thread runs to its end or to the exception that ends the process.\<close>

lemma only_thread_ends:
  assumes "alive v" and "sv_threads v = [Reading c]"
  shows "\<exists>tr v'. server_run v tr v' \<and> (\<forall>ch. Accepted ch \<notin> set tr) \<and> (sv_terminated v' \<or> (\<exists>c'. sv_threads v' = [Returned c']))"
    (is "?ends v")
  using assms
proof (induction "length (conn_input c)" arbitrary: c v rule: less_induct)
  case less
  have next_round: "?ends v" if "server_run v tr v1" "\<forall>ch. Accepted ch \<notin> set tr" "?ends v1" for tr v1
    using that server_run_trans by (metis Un_iff set_append)
  have one: "?ends v" if "server_step v tr v1" "\<forall>ch. Accepted ch \<notin> set tr" "?ends v1" for tr v1
    using that next_round [of tr v1] server_run_step [OF server_run_refl that(1)] by simp
  have at: "0 < length (sv_threads v)" "sv_threads v ! 0 = Reading c" using less.prems by simp_all
  have stop: "?ends w" if "sv_terminated w \<or> (\<exists>c'. sv_threads w = [Returned c'])" for w
    using that server_run_refl [of w] by (intro exI [of _ "[]"] exI [of _ w]) simp
  obtain l c1 where r: "fd_readLine c = (l, c1)" by fastforce
  show ?case
  proof (cases l)
    case None
    then show ?thesis using one [OF closed [OF less.prems(1) at]] r stop less.prems(2) by fastforce
  next
    case (Some line)
    have short: "length (conn_input (snd (fd_writeAll d c1))) < length (conn_input c)" for d
      using fd_readLine_splits [of c line c1] r Some by simp
    show ?thesis
    proof (cases "decodeLine line")
      case (Inl err)
      let ?v = "v\<lparr>sv_threads := (sv_threads v)[0 := Reading (snd (fd_writeAll (encodeResponse (Response False err None)) c1))]\<rparr>"
      have "?ends ?v" by (rule less.hyps [OF short]) (use less.prems in \<open>simp_all add: alive_def\<close>)
      then show ?thesis using one [OF rejected [OF less.prems(1) at r [unfolded Some] Inl]] by simp
    next
      case (Inr q)
      let ?v = "v\<lparr>sv_threads := [Executing c1 q], sv_race := False\<rparr>"
      have b: "server_step v [Begun 0 q] ?v" using begun [OF less.prems(1) at r [unfolded Some] Inr] less.prems(2) by simp
      have v: "alive ?v" "0 < length (sv_threads ?v)" "sv_threads ?v ! 0 = Executing c1 q" using less.prems by (simp_all add: alive_def)
      obtain x s1 where x: "handler_execute (req_command q) (req_args q) (sv_db ?v) = (x, s1)" by fastforce
      show ?thesis
      proof (cases x)
        case (Inl ex)
        from server_runI [OF b server_run_step [OF server_run_refl throws [OF v x [unfolded Inl]]]] show ?thesis
          by (intro exI [of _ "[Begun 0 q]"] exI [of _ "?v\<lparr>sv_db := s1, sv_terminated := True\<rparr>"]) simp
      next
        case (Inr res)
        let ?v2 = "?v\<lparr>sv_db := s1, sv_threads := [Answering c1 q res]\<rparr>" and ?c2 = "snd (fd_writeAll (encodeResponse res) c1)"
        let ?v3 = "?v2\<lparr>sv_threads := [if req_command q = EXIT then Returned (fd_close ?c2) else Reading ?c2]\<rparr>"
        have s: "server_step ?v [Served 0 q res] ?v2" using Server.served [OF v x [unfolded Inr]] by simp
        have "alive ?v2" "0 < length (sv_threads ?v2)" "sv_threads ?v2 ! 0 = Answering c1 q res" using less.prems by (simp_all add: alive_def)
        then have "server_step ?v2 [Answered 0 q res] ?v3" using answered [of ?v2 0 c1 q res] by simp
        then have run: "server_run v ([Begun 0 q] @ [Served 0 q res] @ ([] @ [Answered 0 q res])) ?v3"
          by (intro server_runI [OF b] server_runI [OF s] server_run_step [OF server_run_refl])
        have "?ends ?v3"
        proof (cases "req_command q = EXIT")
          case False
          show ?thesis by (rule less.hyps [OF short]) (use less.prems False in \<open>simp_all add: alive_def\<close>)
        qed (use stop [of ?v3] in simp)
        then show ?thesis by (rule next_round [OF run, rotated]) simp
      qed
    qed
  qed
qed

text \<open>
  The only client of a server is served by \<open>Session::run\<close>: a run in which its thread comes to its end
  has the connection and the store that \<open>run\<close> leaves, and there is such a run.
\<close>

lemma only_client_served:
  assumes "alive v" and "sv_threads v = [Reading c]"
  shows "server_run v tr v' \<Longrightarrow> \<forall>ch. Accepted ch \<notin> set tr \<Longrightarrow> sv_threads v' = [Returned c'] \<Longrightarrow>
      session_run fd_readLine fd_writeAll fd_close handler_execute c (sv_db v) = Some (Inr (), c', sv_db v')"
    and "session_run fd_readLine fd_writeAll fd_close handler_execute c (sv_db v) = Some (Inr (), c', s') \<Longrightarrow>
      \<exists>tr v'. server_run v tr v' \<and> (\<forall>ch. Accepted ch \<notin> set tr) \<and> \<not> sv_terminated v' \<and> sv_threads v' = [Returned c'] \<and> sv_db v' = s'"
proof -
  let ?res = "session_run fd_readLine fd_writeAll fd_close handler_execute c (sv_db v)"
  have start: "only_thread ?res v" using assms by (simp add: only_thread_def alive_def)
  note inv = only_thread_run [OF _ start]
  show "?res = Some (Inr (), c', sv_db v')" if "server_run v tr v'" "\<forall>ch. Accepted ch \<notin> set tr" "sv_threads v' = [Returned c']"
    using inv [OF that(1,2)] that(3) by (simp add: only_thread_def split: if_splits)
  assume res: "?res = Some (Inr (), c', s')"
  obtain tr v' where run: "server_run v tr v'" "\<forall>ch. Accepted ch \<notin> set tr" "sv_terminated v' \<or> (\<exists>c'. sv_threads v' = [Returned c'])"
    using only_thread_ends [OF assms] by blast
  then show "\<exists>tr v'. server_run v tr v' \<and> (\<forall>ch. Accepted ch \<notin> set tr) \<and> \<not> sv_terminated v' \<and> sv_threads v' = [Returned c'] \<and> sv_db v' = s'"
    using inv [OF run(1,2)] res by (intro exI [of _ tr] exI [of _ v']) (auto simp: only_thread_def split: if_splits)
qed

section \<open>Properties\<close>


text \<open>The first steps of a server with two clients, and the first request of either.\<close>

lemma two_clients_begin:
  assumes "decodeLine l0 = Inr q0" and "decodeLine l1 = Inr q1" and "newline \<notin> set l0" and "newline \<notin> set l1"
  shows "\<exists>v. server_run (server_start w) [Accepted [l0 @ [newline]], Accepted [l1 @ [newline]], Begun 0 q0, Begun 1 q1] v \<and>
    sv_race v = conflict q1 q0 \<and> sv_db v = createDefaultDb w \<and>
    (\<exists>c0 c1. sv_threads v = [Executing c0 q0, Executing c1 q1] \<and> conn_input c0 = [] \<and> conn_input c1 = [])"
proof -
  have rd: "\<exists>c. fd_readLine (FdConnection 5 [l @ [newline]] []) = (Some l, c) \<and> conn_input c = []" if "newline \<notin> set l" for l
  proof -
    have "conn_up (FdConnection 5 [l @ [newline]] [])" "conn_input (FdConnection 5 [l @ [newline]] []) = l @ newline # []"
      by (simp_all add: conn_up_def conn_input_def FdConnection_def)
    then show ?thesis using fdc.read_line [OF _ _ that] by blast
  qed
  obtain c0 c1 where r: "fd_readLine (FdConnection 5 [l0 @ [newline]] []) = (Some l0, c0)" "conn_input c0 = []"
      "fd_readLine (FdConnection 5 [l1 @ [newline]] []) = (Some l1, c1)" "conn_input c1 = []"
    using rd assms(3,4) by metis
  let ?v0 = "server_start w" and ?r0 = "Reading (FdConnection 5 [l0 @ [newline]] [])" and ?r1 = "Reading (FdConnection 5 [l1 @ [newline]] [])"
  let ?v1 = "?v0\<lparr>sv_threads := [?r0]\<rparr>" and ?v2 = "?v0\<lparr>sv_threads := [?r0, ?r1]\<rparr>"
  let ?v3 = "?v0\<lparr>sv_threads := [Executing c0 q0, ?r1]\<rparr>"
  let ?v4 = "?v0\<lparr>sv_threads := [Executing c0 q0, Executing c1 q1], sv_race := conflict q1 q0\<rparr>"
  have al: "alive ?v0" "alive ?v1" "alive ?v2" "alive ?v3" by (simp_all add: alive_def server_start_def)
  have "server_step ?v0 [Accepted [l0 @ [newline]]] ?v1" using accepted [OF al(1), of 5 "[l0 @ [newline]]" "[]"] by (simp add: server_start_def)
  moreover have "server_step ?v1 [Accepted [l1 @ [newline]]] ?v2" using accepted [OF al(2), of 5 "[l1 @ [newline]]" "[]"] by simp
  moreover have "server_step ?v2 [Begun 0 q0] ?v3"
    using begun [OF al(3), of 0, OF _ _ r(1) assms(1)] by (simp add: server_start_def)
  moreover have "server_step ?v3 [Begun 1 q1] ?v4"
    using begun [OF al(4), of 1, OF _ _ r(3) assms(2)] by simp
  ultimately have "server_run ?v0 ((([] @ [Accepted [l0 @ [newline]]]) @ [Accepted [l1 @ [newline]]]) @ [Begun 0 q0] @ ([] @ [Begun 1 q1])) ?v4"
    by (meson server_run_refl server_run_step server_run_trans server_runI)
  then show ?thesis using r(2,4) by (intro exI [of _ ?v4]) (simp add: server_start_def)
qed




text \<open>
  C33: every session ends.  Whatever finite input the network delivers, in whatever chunks, and
  whatever the handler does, the loop of \<open>Session::run\<close> returns or throws; it cannot spin.
\<close>

theorem session_terminates: "session_run fd_readLine fd_writeAll fd_close execute c s \<noteq> None"
proof (induction "length (conn_input c)" arbitrary: c s rule: less_induct)
  case less
  obtain l c1 where r: "fd_readLine c = (l, c1)" by fastforce
  have "session_run fd_readLine fd_writeAll fd_close execute (snd (fd_writeAll d c1)) s' \<noteq> None" if "l = Some line" for d s' line
  proof (rule less)
    show "length (conn_input (snd (fd_writeAll d c1))) < length (conn_input c)" using fd_readLine_splits [of c line c1] r that by simp
  qed
  then show ?case using r by (subst session_run_round) (auto simp: Let_def split: option.splits sum.splits prod.splits)
qed

end
