(* ===== verification/Repl.thy ===== *)
theory Repl
  imports Server
begin

text \<open>
  The client program: \<open>runRepl\<close> (\<open>src/cli/repl.cpp\<close>), over an abstract \<open>Connection\<close>, and its
  composition with a session of the server: each side has its own \<open>FdConnection\<close>, and what one side
  receives is what the other has sent, cut into any chunks.
\<close>

section \<open>The loop\<close>

record terminal =
  tm_cout :: string
  tm_cerr :: string

definition say :: "string \<Rightarrow> terminal \<Rightarrow> terminal" where
  "say x t = t\<lparr>tm_cout := tm_cout t @ x\<rparr>"

definition complain :: "string \<Rightarrow> terminal \<Rightarrow> terminal" where
  "complain x t = t\<lparr>tm_cerr := tm_cerr t @ x\<rparr>"

definition prompt :: string where
  "prompt = ''tinykv>> ''"

definition shown :: "response \<Rightarrow> string" where
  "shown res =
     (if res_ok res then (case res_data res of Some d \<Rightarrow> d @ [newline] | None \<Rightarrow> ''OK'' @ [newline])
      else ''ERR: '' @ res_message res @ [newline])"

text \<open>The lines of standard input are the first list argument; \<open>getline\<close> fails when they are used up.\<close>

fun runRepl ::
  "('c \<Rightarrow> string option \<times> 'c) \<Rightarrow> (string \<Rightarrow> 'c \<Rightarrow> bool \<times> 'c) \<Rightarrow> string list \<Rightarrow> terminal \<Rightarrow> 'c \<Rightarrow> (exn + int) \<times> terminal \<times> 'c" where
  "runRepl readLine writeAll [] t conn = (Inr 0, say [newline] (say prompt t), conn)"
| "runRepl readLine writeAll (line # stdin) t0 conn =
     (let t = say prompt t0
      in if line = [] then runRepl readLine writeAll stdin t conn
         else case decodeLine line of
           Inl parseErr \<Rightarrow> runRepl readLine writeAll stdin (complain (''ERR: '' @ parseErr @ [newline]) t) conn
         | Inr req \<Rightarrow>
             (case writeAll (encodeRequest req) conn of
                (False, conn1) \<Rightarrow> (Inr 1, complain (''ERR: failed to send request to server'' @ [newline]) t, conn1)
              | (True, conn1) \<Rightarrow>
                  (case readLine conn1 of
                     (None, conn2) \<Rightarrow> (Inr 1, complain (''ERR: Server disconnected'' @ [newline]) t, conn2)
                   | (Some rawRes, conn2) \<Rightarrow>
                       (case decodeResponseLine rawRes of
                          Inl ex \<Rightarrow> (Inl ex, t, conn2)
                        | Inr (Some err, _) \<Rightarrow>
                            (Inr 1, complain (''ERR: failed to decode server response: '' @ err @ [newline]) t, conn2)
                        | Inr (None, res) \<Rightarrow>
                            if req_command req = EXIT then (Inr 0, say (shown res) t, conn2)
                            else runRepl readLine writeAll stdin (say (shown res) t) conn2))))"

section \<open>What the user sees\<close>

inductive dialogue :: "(string \<rightharpoonup> string) \<Rightarrow> string list \<Rightarrow> string \<Rightarrow> string \<Rightarrow> (string \<rightharpoonup> string) \<Rightarrow> bool" where
  dialogue_end: "dialogue m [] (prompt @ [newline]) [] m"
| dialogue_empty: "dialogue m ls os es m' \<Longrightarrow> dialogue m ([] # ls) (prompt @ os) es m'"
| dialogue_bad: "l \<noteq> [] \<Longrightarrow> decodeLine l = Inl err \<Longrightarrow> dialogue m ls os es m' \<Longrightarrow>
    dialogue m (l # ls) (prompt @ os) ((''ERR: '' @ err @ [newline]) @ es) m'"
| dialogue_exit: "decodeLine l = Inr q \<Longrightarrow> req_command q = EXIT \<Longrightarrow> spec_step m q r m' \<Longrightarrow>
    dialogue m (l # ls) (prompt @ shown (r\<lparr>res_data := wire_data (res_data r)\<rparr>)) [] m'"
| dialogue_step: "decodeLine l = Inr q \<Longrightarrow> req_command q \<noteq> EXIT \<Longrightarrow> spec_step m q r m1 \<Longrightarrow> dialogue m1 ls os es m' \<Longrightarrow>
    dialogue m (l # ls) (prompt @ shown (r\<lparr>res_data := wire_data (res_data r)\<rparr>) @ os) es m'"

inductive_simps dialogue_Nil_iff [simp]: "dialogue m [] os es m'"
inductive_simps dialogue_Cons_iff: "dialogue m (l # ls) os es m'"

section \<open>The requests of a user\<close>

text \<open>The requests the client sends for the lines typed, up to the first \<open>EXIT\<close>.\<close>

fun requests :: "string list \<Rightarrow> request list" where
  "requests [] = []"
| "requests (l # ls) =
     (case decodeLine l of
        Inl _ \<Rightarrow> requests ls
      | Inr q \<Rightarrow> if req_command q = EXIT then [q] else q # requests ls)"

definition sendable :: "request \<Rightarrow> bool" where
  "sendable q \<longleftrightarrow> admissible q \<and> (\<forall>a \<in> set (req_args q). token a)"

lemma decodeLine_Nil: "\<exists>err. decodeLine [] = Inl err"
  by (simp add: decodeLine_def read_token_def)

lemma decoded_sendable: "admissible_line l \<Longrightarrow> decodeLine l = Inr q \<Longrightarrow> sendable q"
  using read_tokens_are_tokens by (auto simp: sendable_def admissible_line_def decodeLine_def split: option.splits)

lemma requests_sendable: "\<forall>l \<in> set ls. admissible_line l \<Longrightarrow> \<forall>q \<in> set (requests ls). sendable q"
  by (induction ls) (auto dest: decoded_sendable split: sum.splits)

lemma requests_exit_last: "\<forall>q \<in> set (butlast (requests ls)). req_command q \<noteq> EXIT"
  by (induction ls) (auto split: sum.splits)

lemma writes_requests: "writes (requests ls) \<le> line_writes ls"
  by (induction ls) (auto split: sum.splits)

text \<open>Values that came in over the protocol are free of line ends and of bounded size.\<close>

definition clean :: "(string \<rightharpoonup> string) \<Rightarrow> bool" where
  "clean m \<longleftrightarrow> (\<forall>v \<in> ran m. newline \<notin> set v \<and> length v \<le> 2 ^ 30)"

lemma newline_not_digit: "newline \<notin> set (to_string n)"
  using to_string_digits [of n] not_isdigit_simps(4) by (auto simp: newline_def)

lemma response_line_clean:
  "newline \<notin> set (response_line r) \<longleftrightarrow>
    newline \<notin> set (res_message r) \<and> (case res_data r of None \<Rightarrow> True | Some d \<Rightarrow> newline \<notin> set d)"
  using newline_not_digit
  by (auto simp: response_line_def Let_def newline_def split: option.splits)

lemma clean_update: "clean m \<Longrightarrow> newline \<notin> set v \<Longrightarrow> length v \<le> 2 ^ 30 \<Longrightarrow> clean (m(k \<mapsto> v))"
  by (auto simp: clean_def ran_def)

lemma clean_delete: "clean m \<Longrightarrow> clean (m(k := None))"
  by (auto simp: clean_def ran_def split: if_splits)

lemma token_no_newline: "token a \<Longrightarrow> newline \<notin> set a"
  using isspace_simps(2) by (auto simp: token_def)

lemma spec_step_clean:
  assumes "spec_step m q r m'" and "clean m" and "admissible q" and "\<forall>a \<in> set (req_args q). token a"
  shows "clean m' \<and> newline \<notin> set (response_line r) \<and> response_fits r"
  using assms
proof cases
  case (spec_get k xs)
  then show ?thesis
    using assms(2) by (auto simp: get_response_def response_line_clean [unfolded newline_def] response_fits_def clean_def newline_def ran_def split: option.splits)
next
  case (spec_put k v xs)
  then show ?thesis
    using assms clean_update [unfolded newline_def] token_no_newline [unfolded newline_def]
    by (auto simp: response_line_clean [unfolded newline_def] response_fits_def admissible_def newline_def)
qed (use assms(2) clean_delete in \<open>auto simp: response_line_clean [unfolded newline_def] response_fits_def newline_def del_missing_def\<close>)

lemma request_line_clean: "sendable q \<Longrightarrow> newline \<notin> set (request_line q)"
  using token_no_newline [OF token_command_name]
  by (auto simp: sendable_def request_line_def newline_def dest: token_no_newline [unfolded newline_def])

lemma request_line_decodes: "sendable q \<Longrightarrow> decodeLine (request_line q) = Inr q"
  using decode_request_line [of q "[]"] by (simp add: sendable_def)

definition readable :: "response \<Rightarrow> bool" where
  "readable r \<longleftrightarrow> response_fits r \<and> newline \<notin> set (response_line r)"

lemma spec_run_readable:
  assumes "spec_run m qs rs m'" and "clean m" and "\<forall>q \<in> set qs. sendable q"
  shows "\<forall>r \<in> set rs. readable r"
  using assms
proof (induction rule: spec_run.induct)
  case (spec_run_Cons m q r m1 qs rs m2)
  then have "clean m1" "readable r" using spec_step_clean [OF spec_run_Cons.hyps(1)] by (auto simp: sendable_def readable_def)
  then show ?case using spec_run_Cons by simp
qed simp

text \<open>A session that gets these requests, or the first of them, answers them as the abstract map does.\<close>

lemma transcript_requests:
  assumes "transcript m (map request_line qs) rs m'" and "\<forall>q \<in> set qs. sendable q" and "\<forall>q \<in> set (butlast qs). req_command q \<noteq> EXIT"
  shows "spec_run m qs rs m'"
  using assms
proof (induction qs arbitrary: m rs)
  case (Cons q qs)
  have d: "decodeLine (request_line q) = Inr q" using Cons.prems(2) by (simp add: request_line_decodes)
  show ?case
  proof (cases "qs = []")
    case True
    then show ?thesis using Cons.prems(1) d by (auto simp: transcript_Cons_iff)
  next
    case False
    then have "req_command q \<noteq> EXIT" "\<forall>q \<in> set (butlast qs). req_command q \<noteq> EXIT" using Cons.prems(3) by simp_all
    then show ?thesis using Cons.prems(1,2) d Cons.IH by (auto simp: transcript_Cons_iff) blast
  qed
qed simp

lemma line_writes_requests: "\<forall>q \<in> set qs. sendable q \<Longrightarrow> line_writes (map request_line qs) = writes qs"
  by (induction qs) (simp_all add: request_line_decodes)

lemma writes_take: "writes (take n qs) \<le> writes qs"
proof -
  have "writes qs = writes (take n qs) + writes (drop n qs)"
    by (metis append_take_drop_id filter_append length_append writes_def)
  then show ?thesis by simp
qed

section \<open>The client over a connection\<close>

context connection
begin

lemma read_some:
  assumes "up c"
  shows "\<exists>l c'. readLine c = (l, c') \<and> up c' \<and> written c' = written c"
proof (cases "newline \<in> set (unread c)")
  case True
  then obtain u rest where "unread c = u @ newline # rest" "newline \<notin> set u" by (meson split_list_first)
  then show ?thesis using read_line [OF assms] by blast
next
  case False
  then show ?thesis using read_end [OF assms] by blast
qed

text \<open>Whatever comes back, what the client sends are the first requests of the user.\<close>

lemma repl_sends_requests:
  assumes "up c"
  shows "\<exists>r t' c' n. runRepl readLine writeAll ls t c = (r, t', c') \<and> n \<le> length (requests ls) \<and>
    written c' = written c @ concat (map encodeRequest (take n (requests ls)))"
  using assms
proof (induction ls arbitrary: c t)
  case (Cons l ls)
  show ?case
  proof (cases "decodeLine l")
    case (Inl err)
    then show ?thesis using Cons.IH [OF Cons.prems] by (auto simp: Let_def)
  next
    case (Inr q)
    then have l: "l \<noteq> []" using decodeLine_Nil by auto
    obtain c1 where c1: "writeAll (encodeRequest q) c = (True, c1)" "up c1" "written c1 = written c @ encodeRequest q"
      using write_all [OF Cons.prems] by blast
    obtain x c2 where c2: "readLine c1 = (x, c2)" "up c2" "written c2 = written c1" using read_some [OF c1(2)] by blast
    have now: "\<exists>n \<le> length (requests (l # ls)). written c2 = written c @ concat (map encodeRequest (take n (requests (l # ls))))"
      using c1(3) c2(3) Inr by (intro exI [of _ 1]) simp
    consider (stop) r t' where "runRepl readLine writeAll (l # ls) t c = (r, t', c2)"
      | (more) t' where "req_command q \<noteq> EXIT" "runRepl readLine writeAll (l # ls) t c = runRepl readLine writeAll ls t' c2"
      using l Inr c1(1) c2(1) by (fastforce simp: Let_def split: option.splits sum.splits if_splits)
    then show ?thesis
    proof cases
      case stop
      then show ?thesis using now by blast
    next
      case more
      obtain r t'' c' n where "runRepl readLine writeAll ls t' c2 = (r, t'', c')" "n \<le> length (requests ls)"
          "written c' = written c2 @ concat (map encodeRequest (take n (requests ls)))"
        using Cons.IH [OF c2(2)] by blast
      then show ?thesis
        using more Inr c1(3) c2(3) by (intro exI [of _ r] exI [of _ t''] exI [of _ c'] exI [of _ "Suc n"]) simp
    qed
  qed
qed simp

text \<open>With fewer answers than requests, the client has sent one request more than it got answers.\<close>

lemma repl_waits:
  assumes "up c" and "unread c = concat (map encodeResponse rs)" and "length rs < length (requests ls)" and "\<forall>r \<in> set rs. readable r"
  shows "\<exists>r t' c'. runRepl readLine writeAll ls t c = (r, t', c') \<and>
    written c' = written c @ concat (map encodeRequest (take (Suc (length rs)) (requests ls)))"
  using assms
proof (induction ls arbitrary: c t rs)
  case (Cons l ls)
  show ?case
  proof (cases "decodeLine l")
    case (Inl err)
    then show ?thesis using Cons.IH [OF Cons.prems(1,2) _ Cons.prems(4)] Cons.prems(3) by (auto simp: Let_def)
  next
    case (Inr q)
    then have l: "l \<noteq> []" using decodeLine_Nil by auto
    obtain c1 where c1: "writeAll (encodeRequest q) c = (True, c1)" "up c1" "written c1 = written c @ encodeRequest q" "unread c1 = unread c"
      using write_all [OF Cons.prems(1)] by blast
    show ?thesis
    proof (cases rs)
      case Nil
      then have "newline \<notin> set (unread c1)" using Cons.prems(2) c1(4) by simp
      then obtain c2 where "readLine c1 = (None, c2)" "written c2 = written c1" using read_end [OF c1(2)] by blast
      then show ?thesis using l Inr c1(1,3) Nil by (auto simp: Let_def)
    next
      case (Cons r rs')
      have r: "response_fits r" "newline \<notin> set (response_line r)" using Cons.prems(4) Cons by (simp_all add: readable_def)
      have "unread c1 = response_line r @ newline # concat (map encodeResponse rs')"
        using Cons.prems(2) c1(4) Cons by (simp add: encodeResponse_line [of r])
      then obtain c2 where c2: "readLine c1 = (Some (response_line r), c2)" "up c2" "unread c2 = concat (map encodeResponse rs')" "written c2 = written c1"
        using read_line [OF c1(2) _ r(2)] by blast
      have d: "decodeResponseLine (response_line r) = Inr (None, r\<lparr>res_data := wire_data (res_data r)\<rparr>)"
        using decode_response_line [OF r(1), of "[]"] by simp
      have ex: "req_command q \<noteq> EXIT" using Cons.prems(3) Inr Cons by auto
      then have "length rs' < length (requests ls)" using Cons.prems(3) Inr Cons by simp
      then obtain x t' c' where "runRepl readLine writeAll ls (say (shown (r\<lparr>res_data := wire_data (res_data r)\<rparr>)) (say prompt t)) c2 = (x, t', c')"
          "written c' = written c2 @ concat (map encodeRequest (take (Suc (length rs')) (requests ls)))"
        using Cons.IH [OF c2(2,3)] Cons.prems(4) Cons by (metis list.set_intros(2))
      then show ?thesis using l Inr ex c1(1,3) c2(1,4) d Cons by (simp add: Let_def)
    qed
  qed
qed simp

text \<open>With an answer to every request, the user sees the dialogue with the abstract map.\<close>

lemma repl_shows_dialogue:
  assumes "up c" and "unread c = concat (map encodeResponse rs)" and "spec_run m (requests ls) rs m'" and "\<forall>r \<in> set rs. readable r"
  shows "\<exists>t' c' os es. runRepl readLine writeAll ls t c = (Inr 0, t', c') \<and> tm_cout t' = tm_cout t @ os \<and> tm_cerr t' = tm_cerr t @ es \<and>
    dialogue m ls os es m' \<and> written c' = written c @ concat (map encodeRequest (requests ls))"
  using assms
proof (induction ls arbitrary: c t rs m)
  case Nil
  then show ?case by (auto simp: say_def)
next
  case (Cons l ls)
  show ?case
  proof (cases "decodeLine l")
    case (Inl err)
    have run: "spec_run m (requests ls) rs m'" and req: "requests (l # ls) = requests ls" using Cons.prems(3) Inl by simp_all
    note ih = Cons.IH [OF Cons.prems(1,2) run Cons.prems(4)]
    show ?thesis
    proof (cases "l = []")
      case True
      from ih [of "say prompt t"] show ?thesis using True req by (fastforce simp: say_def intro: dialogue_empty)
    next
      case False
      from ih [of "complain (''ERR: '' @ err @ [newline]) (say prompt t)"] obtain t' c' os es where
        "runRepl readLine writeAll ls (complain (''ERR: '' @ err @ [newline]) (say prompt t)) c = (Inr 0, t', c')"
        "tm_cout t' = tm_cout t @ prompt @ os" "tm_cerr t' = tm_cerr t @ (''ERR: '' @ err @ [newline]) @ es" "dialogue m ls os es m'"
        "written c' = written c @ concat (map encodeRequest (requests ls))"
        by (auto simp: say_def complain_def)
      then show ?thesis
        using False Inl req dialogue_bad [OF False Inl]
        by (intro exI [of _ t'] exI [of _ c'] exI [of _ "prompt @ os"] exI [of _ "(''ERR: '' @ err @ [newline]) @ es"]) (simp add: Let_def)
    qed
  next
    case (Inr q)
    then have l: "l \<noteq> []" using decodeLine_Nil by auto
    obtain r rs' m1 where rs: "rs = r # rs'" "spec_step m q r m1" "spec_run m1 (if req_command q = EXIT then [] else requests ls) rs' m'"
      using Cons.prems(3) Inr by (auto split: if_splits)
    have r: "response_fits r" "newline \<notin> set (response_line r)" using Cons.prems(4) rs(1) by (simp_all add: readable_def)
    obtain c1 where c1: "writeAll (encodeRequest q) c = (True, c1)" "up c1" "written c1 = written c @ encodeRequest q" "unread c1 = unread c"
      using write_all [OF Cons.prems(1)] by blast
    have "unread c1 = response_line r @ newline # concat (map encodeResponse rs')"
      using Cons.prems(2) c1(4) rs(1) by (simp add: encodeResponse_line [of r])
    then obtain c2 where c2: "readLine c1 = (Some (response_line r), c2)" "up c2" "unread c2 = concat (map encodeResponse rs')" "written c2 = written c1"
      using read_line [OF c1(2) _ r(2)] by blast
    let ?x = "shown (r\<lparr>res_data := wire_data (res_data r)\<rparr>)"
    have d: "decodeResponseLine (response_line r) = Inr (None, r\<lparr>res_data := wire_data (res_data r)\<rparr>)"
      using decode_response_line [OF r(1), of "[]"] by simp
    show ?thesis
    proof (cases "req_command q = EXIT")
      case True
      then have "m1 = m'" using rs(3) by simp
      then show ?thesis
        using l Inr True c1(1,3) c2(1,4) d dialogue_exit [OF Inr True rs(2)]
        by (intro exI [of _ "say ?x (say prompt t)"] exI [of _ c2] exI [of _ "prompt @ ?x"] exI [of _ "[]"]) (simp add: Let_def say_def)
    next
      case False
      from Cons.IH [OF c2(2,3), of m1 "say ?x (say prompt t)"] obtain t' c' os es where
        "runRepl readLine writeAll ls (say ?x (say prompt t)) c2 = (Inr 0, t', c')" "tm_cout t' = tm_cout t @ prompt @ ?x @ os" "tm_cerr t' = tm_cerr t @ es"
        "dialogue m1 ls os es m'" "written c' = written c2 @ concat (map encodeRequest (requests ls))"
        using rs(1,3) Cons.prems(4) False by (auto simp: say_def)
      then show ?thesis
        using l Inr False c1(1,3) c2(1,4) d dialogue_step [OF Inr False rs(2)]
        by (intro exI [of _ t'] exI [of _ c'] exI [of _ "prompt @ ?x @ os"] exI [of _ es]) (simp add: Let_def)
    qed
  qed
qed

end

section \<open>Client and session together\<close>

text \<open>
  The session of a client, given the first \<open>n\<close> requests of a user in any chunks.
\<close>

lemma session_answers_requests:
  assumes "0 \<le> fd" and "[] \<notin> set chunks" and "0 \<notin> set limits" and "\<forall>l \<in> set ls. admissible_line l"
    and "db_ok (line_writes ls) s" and "clean (db_view s)"
    and "concat chunks = concat (map encodeRequest (take n (requests ls)))"
  shows "\<exists>c s' rs. session_run fd_readLine fd_writeAll fd_close handler_execute (FdConnection fd chunks limits) s = Some (Inr (), c, s') \<and>
    net_out c = concat (map encodeResponse rs) \<and> spec_run (db_view s) (take n (requests ls)) rs (db_view s') \<and>
    (\<forall>r \<in> set rs. readable r) \<and> conn_fd c = -1"
proof -
  let ?qs = "take n (requests ls)"
  have ok: "\<forall>q \<in> set ?qs. sendable q" using requests_sendable [OF assms(4)] set_take_subset by fastforce
  have "butlast ?qs = take (length ?qs - 1) (butlast (requests ls)) \<or> ?qs = requests ls"
    by (cases "n < length (requests ls)") (simp_all add: butlast_take take_butlast min_def)
  then have ex: "\<forall>q \<in> set (butlast ?qs). req_command q \<noteq> EXIT"
    using requests_exit_last [of ls] by (metis in_set_takeD)
  let ?c = "FdConnection fd chunks limits"
  have up: "conn_up ?c" "conn_input ?c = concat chunks" "net_out ?c = []"
    using assms(1-3) by (simp_all add: conn_up_def conn_input_def FdConnection_def)
  have "conn_input ?c = concat (map (\<lambda>l. l @ [newline]) (map request_line ?qs)) @ []"
    using assms(7) up(2) by (simp add: encodeRequest_line [abs_def] comp_def)
  moreover have "\<forall>l \<in> set (map request_line ?qs). admissible_line l"
    using ok by (auto simp: admissible_line_def request_line_clean request_line_decodes sendable_def)
  moreover have "writes ?qs \<le> line_writes ls" by (rule order_trans [OF writes_take writes_requests])
  then have "db_ok (line_writes (map request_line ?qs)) s" using assms(5) line_writes_requests [OF ok] by (simp add: db_ok_mono)
  ultimately obtain c s' rs where r: "session_run fd_readLine fd_writeAll fd_close handler_execute ?c s = Some (Inr (), fd_close c, s')"
      "conn_up c" "net_out (fd_close c) = concat (map encodeResponse rs)" "transcript (db_view s) (map request_line ?qs) rs (db_view s')"
    using srv.session_run_serves [OF up(1), of "map request_line ?qs" s "[]"] up(3) by auto
  have "conn_fd (fd_close c) = -1" using r(2) by (simp add: conn_up_def fd_close_def)
  moreover have "spec_run (db_view s) ?qs rs (db_view s')" using transcript_requests [OF r(4) ok ex] .
  ultimately show ?thesis using r(1,3) spec_run_readable [OF _ assms(6) ok] by blast
qed

text \<open>
  Whatever the chunks, if each side has received exactly what the other has sent, then the client has
  sent all requests of the user and shows the dialogue with the abstract map.
\<close>

lemma conversation:
  assumes "0 \<le> fd" and "[] \<notin> set chunks" and "0 \<notin> set limits" and "0 \<le> fd'" and "[] \<notin> set chunks'" and "0 \<notin> set limits'"
    and "\<forall>l \<in> set ls. admissible_line l" and "db_ok (line_writes ls) s" and "clean (db_view s)"
    and client: "runRepl fd_readLine fd_writeAll ls t (FdConnection fd chunks limits) = (r, t', c)"
    and server: "session_run fd_readLine fd_writeAll fd_close handler_execute (FdConnection fd' chunks' limits') s = Some (x, c', s')"
    and sent: "concat chunks' = net_out c" and answered: "concat chunks = net_out c'"
  shows "r = Inr 0 \<and> x = Inr () \<and> conn_fd c' = -1 \<and>
    (\<exists>os es. tm_cout t' = tm_cout t @ os \<and> tm_cerr t' = tm_cerr t @ es \<and> dialogue (db_view s) ls os es (db_view s'))"
proof -
  let ?c = "FdConnection fd chunks limits" and ?qs = "requests ls"
  have up: "conn_up ?c" "net_out ?c = []" "conn_input ?c = concat chunks" using assms(1-3) by (simp_all add: conn_up_def FdConnection_def conn_input_def)
  obtain n where n: "n \<le> length ?qs" "net_out c = concat (map encodeRequest (take n ?qs))"
    using fdc.repl_sends_requests [OF up(1), of ls t] client up(2) by auto
  obtain rs where rs: "x = Inr ()" "net_out c' = concat (map encodeResponse rs)" "spec_run (db_view s) (take n ?qs) rs (db_view s')"
      "\<forall>r \<in> set rs. readable r" "conn_fd c' = -1"
    using session_answers_requests [OF assms(4-9), of n] sent n(2) server by auto
  have len: "length rs = n" using spec_run_length [OF rs(3)] n(1) by simp
  have inp: "conn_input ?c = concat (map encodeResponse rs)" using up(3) answered rs(2) by simp
  have "n = length ?qs"
  proof (rule ccontr)
    assume "n \<noteq> length ?qs"
    then have less: "n < length ?qs" using n(1) by simp
    then have "net_out c = concat (map encodeRequest (take (Suc n) ?qs))"
      using fdc.repl_waits [OF up(1) inp _ rs(4), of ls t] client up(2) len by auto
    then show False using n(2) less by (simp add: take_Suc_conv_app_nth encodeRequest_line)
  qed
  then show ?thesis
    using fdc.repl_shows_dialogue [OF up(1) inp _ rs(4), of "db_view s" ls "db_view s'" t] rs client by auto
qed

text \<open>And there are such chunks: the whole streams, for example.\<close>

definition one_chunk :: "bytes \<Rightarrow> bytes list" where
  "one_chunk d = (if d = [] then [] else [d])"

lemma one_chunk [simp]: "concat (one_chunk d) = d" "[] \<notin> set (one_chunk d)"
  by (simp_all add: one_chunk_def)

lemma conversation_exists:
  assumes "0 \<le> fd" and "0 \<notin> set limits" and "0 \<le> fd'" and "0 \<notin> set limits'"
    and "\<forall>l \<in> set ls. admissible_line l" and "db_ok (line_writes ls) s" and "clean (db_view s)"
  shows "\<exists>chunks chunks' r t' c c' s'. [] \<notin> set chunks \<and> [] \<notin> set chunks' \<and>
    runRepl fd_readLine fd_writeAll ls t (FdConnection fd chunks limits) = (r, t', c) \<and>
    session_run fd_readLine fd_writeAll fd_close handler_execute (FdConnection fd' chunks' limits') s = Some (Inr (), c', s') \<and>
    concat chunks' = net_out c \<and> concat chunks = net_out c'"
proof -
  let ?qs = "requests ls"
  let ?d = "concat (map encodeRequest ?qs)"
  obtain c' s' rs where s: "session_run fd_readLine fd_writeAll fd_close handler_execute (FdConnection fd' (one_chunk ?d) limits') s = Some (Inr (), c', s')"
      "net_out c' = concat (map encodeResponse rs)" "spec_run (db_view s) ?qs rs (db_view s')" "\<forall>r \<in> set rs. readable r"
    using session_answers_requests [OF assms(3) one_chunk(2) assms(4-7), of ?d "length ?qs"] by auto
  let ?c = "FdConnection fd (one_chunk (net_out c')) limits"
  have "conn_up ?c" "net_out ?c = []" "conn_input ?c = concat (map encodeResponse rs)"
    using assms(1,2) s(2) by (simp_all add: conn_up_def FdConnection_def conn_input_def)
  then obtain t' c where "runRepl fd_readLine fd_writeAll ls t ?c = (Inr 0, t', c)" "net_out c = ?d"
    using fdc.repl_shows_dialogue [OF _ _ s(3,4), of ?c t] by auto
  then show ?thesis using s(1) one_chunk by metis
qed

end
