(* ===== verification/Programs.thy ===== *)
theory Programs
  imports Repl
begin

text \<open>
  The two programs around the library: the set-up of \<open>src/server_main.cpp\<close> and all of
  \<open>src/cli_main.cpp\<close>.  The socket calls of the system have their results in the state, so every
  failure is a case of the model; the state also records which descriptors are open, and what they
  are bound and connected to.
\<close>

section \<open>The socket calls\<close>

record sockaddr_in =
  sin_family :: nat
  sin_port :: "16 word"
  sin_addr :: u32

record socket_os =
  so_order :: endian                            \<comment> \<open>byte order of the machine\<close>
  so_socket :: "int \<times> nat"                     \<comment> \<open>result of \<open>socket\<close>, and \<open>errno\<close> when it is negative\<close>
  so_bind :: "nat option"                       \<comment> \<open>the \<open>errno\<close> of a failing \<open>bind\<close>\<close>
  so_listen :: "nat option"
  so_connect :: "u32 \<times> 16 word \<Rightarrow> nat option"   \<comment> \<open>the \<open>errno\<close> of a failing \<open>connect\<close> to an address and port\<close>
  so_pton :: "string \<Rightarrow> u32 option"            \<comment> \<open>the address \<open>inet_pton\<close> reads\<close>
  so_strerror :: "nat \<Rightarrow> string"
  so_EADDRINUSE :: nat
  so_open :: "int list"                         \<comment> \<open>open descriptors\<close>
  so_reuse :: "int list"
  so_bound :: "(int \<times> sockaddr_in) list"
  so_listening :: "int list"
  so_connected :: "(int \<times> sockaddr_in) list"

definition sys_socket :: "socket_os \<Rightarrow> int \<times> socket_os" where
  "sys_socket s =
     (let fd = fst (so_socket s) in (fd, if fd < 0 then s else s\<lparr>so_open := fd # so_open s\<rparr>))"

definition sys_setsockopt :: "int \<Rightarrow> socket_os \<Rightarrow> socket_os" where
  "sys_setsockopt fd s = s\<lparr>so_reuse := fd # so_reuse s\<rparr>"

definition sys_bind :: "int \<Rightarrow> sockaddr_in \<Rightarrow> socket_os \<Rightarrow> nat option \<times> socket_os" where
  "sys_bind fd addr s =
     (case so_bind s of Some e \<Rightarrow> (Some e, s) | None \<Rightarrow> (None, s\<lparr>so_bound := (fd, addr) # so_bound s\<rparr>))"

definition sys_listen :: "int \<Rightarrow> socket_os \<Rightarrow> nat option \<times> socket_os" where
  "sys_listen fd s =
     (case so_listen s of Some e \<Rightarrow> (Some e, s) | None \<Rightarrow> (None, s\<lparr>so_listening := fd # so_listening s\<rparr>))"

text \<open>
  \<open>htons\<close>, and the address the system reads from a \<open>sockaddr_in\<close>: its fields are in network byte
  order, that is, their bytes in memory are the big-endian ones.
\<close>

definition htons :: "endian \<Rightarrow> 16 word \<Rightarrow> 16 word" where
  "htons en v = (case en of Little \<Rightarrow> be_value (rev (be_bytes 2 v [])) | Big \<Rightarrow> v)"

definition endpoint :: "endian \<Rightarrow> sockaddr_in \<Rightarrow> u32 \<times> 16 word" where
  "endpoint en a = (be_value (host_bytes en 4 (sin_addr a)), be_value (host_bytes en 2 (sin_port a)))"

definition sys_connect :: "int \<Rightarrow> sockaddr_in \<Rightarrow> socket_os \<Rightarrow> nat option \<times> socket_os" where
  "sys_connect fd addr s =
     (case so_connect s (endpoint (so_order s) addr) of
        Some e \<Rightarrow> (Some e, s)
      | None \<Rightarrow> (None, s\<lparr>so_connected := (fd, addr) # so_connected s\<rparr>))"

definition sys_close :: "int \<Rightarrow> socket_os \<Rightarrow> socket_os" where
  "sys_close fd s = s\<lparr>so_open := remove1 fd (so_open s)\<rparr>"

lemmas sys_defs = sys_socket_def sys_setsockopt_def sys_bind_def sys_listen_def sys_connect_def sys_close_def

definition AF_INET :: nat where
  "AF_INET = 2"

definition INADDR_ANY :: u32 where
  "INADDR_ANY = 0"

section \<open>The server\<close>

definition show_port :: "16 word \<Rightarrow> string" where
  "show_port p = to_string (unat p)"

definition createListenSocket :: "16 word \<Rightarrow> terminal \<Rightarrow> socket_os \<Rightarrow> int \<times> terminal \<times> socket_os" where
  "createListenSocket port t s =
     (case sys_socket s of
        (listenFd, s1) \<Rightarrow>
          if listenFd < 0
          then (-1, complain (''Failed to create listening socket: socket creation failed'' @ [newline]) t, s1)
          else
            let s2 = sys_setsockopt listenFd s1;
                addr = \<lparr>sin_family = AF_INET, sin_port = htons (so_order s2) port, sin_addr = htonl (so_order s2) INADDR_ANY\<rparr>
            in case sys_bind listenFd addr s2 of
                 (Some bindErrno, s3) \<Rightarrow>
                   let t1 = complain (''Failed to create listening socket: bind error: '' @ so_strerror s3 bindErrno @
                              '' (errno '' @ to_string bindErrno @ '')'' @ [newline]) t;
                       t2 = (if bindErrno = so_EADDRINUSE s3
                             then complain (''Port '' @ show_port port @
                                    '' is already in use. Set TINYKV_PORT to a different port or stop the existing listener.'' @ [newline]) t1
                             else t1)
                   in (-1, t2, sys_close listenFd s3)
               | (None, s3) \<Rightarrow>
                   (case sys_listen listenFd s3 of
                      (Some _, s4) \<Rightarrow>
                        (-1, complain (''Failed to create listening socket: failed to mark listen'' @ [newline]) t, sys_close listenFd s4)
                    | (None, s4) \<Rightarrow> (listenFd, t, s4)))"

text \<open>The port, with the message for a value that is refused.\<close>

definition server_port :: "string option \<Rightarrow> terminal \<Rightarrow> 16 word \<times> terminal" where
  "server_port env t =
     (case readPortFromEnv env of
        Some p \<Rightarrow> (p, t)
      | None \<Rightarrow>
          (kDefaultPort,
           case env of None \<Rightarrow> t
           | Some raw \<Rightarrow> if raw = [] then t else complain (''Invalid TINYKV_PORT value: '' @ raw @ [newline]) t))"

text \<open>
  \<open>main\<close> up to the accept loop: the exit status, or the state in which the loop starts.
\<close>

definition server_main :: "string option \<Rightarrow> terminal \<Rightarrow> socket_os \<Rightarrow> world \<Rightarrow> (int + server) \<times> terminal \<times> socket_os" where
  "server_main env t s w =
     (case server_port env t of
        (port, t1) \<Rightarrow>
          case createListenSocket port t1 s of
            (listenFd, t2, s1) \<Rightarrow>
              if listenFd < 0
              then (Inl 1, complain (''Failed to create listening socket on port '' @ show_port port @ [newline]) t2, s1)
              else (Inr (server_start w), say (''tinykv-server listening on 0.0.0.0:'' @ show_port port @ [newline]) t2, s1))"

text \<open>
  One round of the accept loop.  A negative descriptor is passed over; any other gets a thread with
  its own connection.
\<close>

definition server_accept :: "int \<Rightarrow> bytes list \<Rightarrow> nat list \<Rightarrow> server \<Rightarrow> server" where
  "server_accept clientFd chunks limits v =
     (if clientFd < 0 then v
      else v\<lparr>sv_threads := sv_threads v @ [Reading (FdConnection clientFd chunks limits)]\<rparr>)"

section \<open>The client\<close>

definition connectToServer :: "string \<Rightarrow> 16 word \<Rightarrow> terminal \<Rightarrow> socket_os \<Rightarrow> int \<times> terminal \<times> socket_os" where
  "connectToServer host port t s =
     (case sys_socket s of
        (fd, s1) \<Rightarrow>
          if fd < 0
          then (-1, complain (''Failed to create socket: '' @ so_strerror s1 (snd (so_socket s1)) @ [newline]) t, s1)
          else
            case so_pton s1 host of
              None \<Rightarrow> (-1, complain (''Invalid server address: '' @ host @ [newline]) t, sys_close fd s1)
            | Some ip \<Rightarrow>
                let addr = \<lparr>sin_family = AF_INET, sin_port = htons (so_order s1) port, sin_addr = htonl (so_order s1) ip\<rparr>
                in case sys_connect fd addr s1 of
                     (Some e, s2) \<Rightarrow>
                       (-1, complain (''Failed to connect to '' @ host @ '':'' @ show_port port @ '': '' @ so_strerror s2 e @ [newline]) t,
                        sys_close fd s2)
                   | (None, s2) \<Rightarrow> (fd, t, s2))"

definition client_port :: "string option \<Rightarrow> terminal \<Rightarrow> 16 word \<times> terminal" where
  "client_port env t =
     (case cli_readPortFromEnv env of
        Some p \<Rightarrow> (p, t)
      | None \<Rightarrow>
          (kDefaultPort,
           case env of None \<Rightarrow> t
           | Some raw \<Rightarrow> if raw = [] then t else complain (''Invalid TINYKV_PORT: '' @ raw @ [newline]) t))"

definition kDefaultHost :: string where
  "kDefaultHost = ''127.0.0.1''"

text \<open>
  \<open>main\<close>.  The first two arguments are the system's side of the connected socket: the chunks it delivers
  and what each \<open>send\<close> accepts.  The last result is the connection at the end of the program, if there
  was one.
\<close>

definition client_main ::
  "bytes list \<Rightarrow> nat list \<Rightarrow> string list \<Rightarrow> string option \<Rightarrow> terminal \<Rightarrow> socket_os \<Rightarrow>
    (exn + int) \<times> terminal \<times> socket_os \<times> fd_connection option" where
  "client_main chunks limits stdin env t s =
     (case client_port env t of
        (port, t1) \<Rightarrow>
          case connectToServer kDefaultHost port t1 s of
            (fd, t2, s1) \<Rightarrow>
              if fd < 0 then (Inr 1, t2, s1, None)
              else
                case runRepl fd_readLine fd_writeAll stdin
                       (say (''Connected to tinykv at '' @ kDefaultHost @ '':'' @ show_port port @ [newline]) t2)
                       (FdConnection fd chunks limits) of
                  (r, t3, c) \<Rightarrow> (r, t3, s1, Some c))"

section \<open>The stand-alone program\<close>

text \<open>
  \<open>src/main.cpp\<close>: its \<open>main\<close> creates a store and prints a greeting, the loop over standard input is
  commented out.  The file has its own copies of the command type and of \<open>parseCommand\<close>.
\<close>

datatype main_Command = Main_PUT | Main_GET | Main_DEL | Main_EXIT | Main_FLUSH | Main_UNKNOWN

definition main_parseCommand :: "string \<Rightarrow> main_Command" where
  "main_parseCommand s =
     (let cmd = map toupper s
      in if cmd = ''PUT'' then Main_PUT
         else if cmd = ''GET'' then Main_GET
         else if cmd = ''DEL'' then Main_DEL
         else if cmd = ''EXIT'' then Main_EXIT
         else if cmd = ''_FLUSH'' then Main_FLUSH
         else Main_UNKNOWN)"

definition main_main :: "terminal \<Rightarrow> world \<Rightarrow> int \<times> terminal \<times> db" where
  "main_main t w =
     (let db = createDbForTests w
      in (0, say (''Welcome to TinyKV! Commands: PUT <key> <value>, GET <key>, DEL <key>, EXIT'' @ [newline]) t, db))"

section \<open>Lemmas\<close>

text \<open>Both programs understand the same commands.\<close>

fun protocol_command :: "main_Command \<Rightarrow> command" where
  "protocol_command Main_PUT = PUT"
| "protocol_command Main_GET = GET"
| "protocol_command Main_DEL = DEL"
| "protocol_command Main_EXIT = EXIT"
| "protocol_command Main_FLUSH = FLUSH_CMD"
| "protocol_command Main_UNKNOWN = UNKNOWN"

lemma main_parseCommand_agrees: "protocol_command (main_parseCommand s) = parseCommand s"
  by (simp add: main_parseCommand_def parseCommand_def Let_def)

lemma be_value_bytes16: "be_value (be_bytes 2 v []) = v" for v :: "16 word"
  by (simp add: be_value_be_bytes take_bit_word_eq_self)

lemma endpoint_addr [simp]:
  "endpoint en \<lparr>sin_family = f, sin_port = htons en p, sin_addr = htonl en ip\<rparr> = (ip, p)"
  using be_bytes_be_value [of "rev (be_bytes 2 p [])", where 'a = 16]
  by (cases en) (simp_all add: endpoint_def htons_def host_bytes_def be_value_bytes16 htonl_def
      be_bytes_be_value [of "rev (be_bytes 4 ip [])", where 'a = 32, simplified])

text \<open>Nothing is ever taken back from a stream.\<close>

lemma terminal_writes [simp]:
  "tm_cout (say x t) = tm_cout t @ x" "tm_cerr (say x t) = tm_cerr t"
  "tm_cout (complain x t) = tm_cout t" "tm_cerr (complain x t) = tm_cerr t @ x"
  by (simp_all add: say_def complain_def)

definition listen_succeeds :: "socket_os \<Rightarrow> bool" where
  "listen_succeeds s \<longleftrightarrow> 0 \<le> fst (so_socket s) \<and> so_bind s = None \<and> so_listen s = None"

definition connect_succeeds :: "string \<Rightarrow> 16 word \<Rightarrow> socket_os \<Rightarrow> bool" where
  "connect_succeeds host port s \<longleftrightarrow>
     0 \<le> fst (so_socket s) \<and> (case so_pton s host of None \<Rightarrow> False | Some ip \<Rightarrow> so_connect s (ip, port) = None)"

lemma createListenSocket_ok:
  assumes "listen_succeeds s"
  shows "\<exists>a s'. createListenSocket port t s = (fst (so_socket s), t, s') \<and> endpoint (so_order s) a = (INADDR_ANY, port) \<and>
    so_open s' = fst (so_socket s) # so_open s \<and> so_bound s' = (fst (so_socket s), a) # so_bound s \<and>
    so_listening s' = fst (so_socket s) # so_listening s \<and> so_order s' = so_order s"
  using assms by (auto simp: listen_succeeds_def createListenSocket_def sys_defs Let_def)

lemma createListenSocket_fails:
  assumes "\<not> listen_succeeds s"
  shows "\<exists>t' s' m. createListenSocket port t s = (-1, t', s') \<and> so_open s' = so_open s \<and> so_listening s' = so_listening s \<and>
    tm_cerr t' = tm_cerr t @ m \<and> m \<noteq> [] \<and> tm_cout t' = tm_cout t"
  using assms
  by (auto simp: listen_succeeds_def createListenSocket_def sys_defs Let_def split: option.splits)

lemma connectToServer_ok:
  assumes "connect_succeeds host port s"
  shows "\<exists>a s'. connectToServer host port t s = (fst (so_socket s), t, s') \<and> endpoint (so_order s) a = (the (so_pton s host), port) \<and>
    so_open s' = fst (so_socket s) # so_open s \<and> so_connected s' = (fst (so_socket s), a) # so_connected s"
  using assms by (auto simp: connect_succeeds_def connectToServer_def sys_defs Let_def split: option.splits)

lemma connectToServer_fails:
  assumes "\<not> connect_succeeds host port s"
  shows "\<exists>t' s' m. connectToServer host port t s = (-1, t', s') \<and> so_open s' = so_open s \<and> so_connected s' = so_connected s \<and>
    tm_cerr t' = tm_cerr t @ m \<and> m \<noteq> [] \<and> tm_cout t' = tm_cout t"
  using assms
  by (auto simp: connect_succeeds_def connectToServer_def sys_defs Let_def split: option.splits)

text \<open>A round of the accept loop is a step of the server.\<close>

lemma server_accept_step:
  assumes "alive v"
  shows "\<exists>tr. server_step v tr (server_accept clientFd chunks limits v)"
  using assms server_step.accept_failed [OF assms] server_step.accepted [OF assms, of clientFd chunks limits]
  by (auto simp: server_accept_def not_less)

text \<open>Both programs choose the same port, and complain about the same values.\<close>

lemma ports_agree: "fst (client_port env t) = fst (server_port env t')"
  by (simp add: client_port_def server_port_def client_and_server_ports_agree split: option.splits)

lemma port_output [simp]: "tm_cout (snd (server_port env t)) = tm_cout t" "tm_cout (snd (client_port env t)) = tm_cout t"
  by (simp_all add: server_port_def client_port_def split: option.splits)

lemma server_port_chosen: "fst (server_port env t) = chosen_port env"
  by (simp add: server_port_def chosen_port_def split: option.splits)

section \<open>Properties\<close>

text \<open>
  C34: the listening socket is all or nothing.  When every call succeeds, the descriptor returned is
  open, bound to the port on all interfaces (on machines of either byte order) and listening; when any
  call fails, the result is -1, a message was printed, and no descriptor is left open.
\<close>

theorem listen_socket_all_or_nothing:
  "\<exists>fd t' s'. createListenSocket port t s = (fd, t', s') \<and>
    (if listen_succeeds s
     then 0 \<le> fd \<and> t' = t \<and> so_open s' = fd # so_open s \<and> fd \<in> set (so_listening s') \<and>
       (\<exists>a. (fd, a) \<in> set (so_bound s') \<and> endpoint (so_order s) a = (INADDR_ANY, port))
     else fd = -1 \<and> so_open s' = so_open s \<and> so_listening s' = so_listening s \<and> tm_cerr t' \<noteq> tm_cerr t)"
proof (cases "listen_succeeds s")
  case True
  then show ?thesis using createListenSocket_ok [OF True, of port t] by (auto simp: listen_succeeds_def)
next
  case False
  then show ?thesis using createListenSocket_fails [OF False, of port t] by auto
qed

text \<open>A client that cannot connect exits with status 1, without a prompt and without an open descriptor.\<close>

lemma client_main_refused:
  assumes "\<not> connect_succeeds kDefaultHost (chosen_port env) s"
  shows "\<exists>t' s'. client_main chunks limits ls env t s = (Inr 1, t', s', None) \<and> so_open s' = so_open s \<and> tm_cout t' = tm_cout t"
proof -
  obtain t1 where q: "client_port env t = (chosen_port env, t1)"
    using ports_agree [of env t t] server_port_chosen by (cases "client_port env t") auto
  obtain t2 s2 where "connectToServer kDefaultHost (chosen_port env) t1 s = (-1, t2, s2)" "so_open s2 = so_open s" "tm_cout t2 = tm_cout t1"
    using connectToServer_fails [OF assms, of t1] by blast
  moreover have "tm_cout t1 = tm_cout t" using port_output(2) [of env t] q by simp
  ultimately show ?thesis using q by (simp add: client_main_def)
qed

lemma client_main_connected:
  assumes "connect_succeeds kDefaultHost (chosen_port env) s"
  shows "\<exists>t1 s1 a. tm_cout t1 = tm_cout t @ ''Connected to tinykv at 127.0.0.1:'' @ show_port (chosen_port env) @ [newline] \<and>
    so_connected s1 = (fst (so_socket s), a) # so_connected s \<and> snd (endpoint (so_order s) a) = chosen_port env \<and>
    (\<forall>chunks limits ls. client_main chunks limits ls env t s =
      (case runRepl fd_readLine fd_writeAll ls t1 (FdConnection (fst (so_socket s)) chunks limits) of (r, t2, c) \<Rightarrow> (r, t2, s1, Some c)))"
proof -
  obtain t1 where q: "client_port env t = (chosen_port env, t1)"
    using ports_agree [of env t t] server_port_chosen by (cases "client_port env t") auto
  obtain a s1 where b: "connectToServer kDefaultHost (chosen_port env) t1 s = (fst (so_socket s), t1, s1)"
      "endpoint (so_order s) a = (the (so_pton s kDefaultHost), chosen_port env)" "so_connected s1 = (fst (so_socket s), a) # so_connected s"
    using connectToServer_ok [OF assms] by blast
  let ?t = "say (''Connected to tinykv at 127.0.0.1:'' @ show_port (chosen_port env) @ [newline]) t1"
  have "\<not> fst (so_socket s) < 0" using assms by (simp add: connect_succeeds_def)
  then have "client_main chunks limits ls env t s =
      (case runRepl fd_readLine fd_writeAll ls ?t (FdConnection (fst (so_socket s)) chunks limits) of (r, t2, c) \<Rightarrow> (r, t2, s1, Some c))"
    for chunks limits ls using q b(1) by (simp add: client_main_def kDefaultHost_def)
  moreover have "tm_cout t1 = tm_cout t" using port_output(2) [of env t] q by simp
  ultimately show ?thesis using b(2,3) by (intro exI [of _ ?t] exI [of _ s1] exI [of _ a]) simp
qed

section \<open>Both programs on one machine\<close>

text \<open>
  Where a system accepts connections, and what \<open>connect\<close> does on the machine on which the server runs:
  over the loopback address it succeeds for the ports at which some socket listens, on that
  address or on all interfaces, and for no other.
\<close>

definition listens_at :: "socket_os \<Rightarrow> u32 \<times> 16 word \<Rightarrow> bool" where
  "listens_at s ep \<longleftrightarrow>
     list_ex (\<lambda>(fd, a). fd \<in> set (so_listening s) \<and> fd \<in> set (so_open s) \<and>
       (fst (endpoint (so_order s) a) = INADDR_ANY \<or> fst (endpoint (so_order s) a) = fst ep) \<and>
       snd (endpoint (so_order s) a) = snd ep) (so_bound s)"

definition loopback_ip :: u32 where
  "loopback_ip = 0x7F000001"

definition loopback :: "socket_os \<Rightarrow> socket_os \<Rightarrow> bool" where
  "loopback server client \<longleftrightarrow>
     so_pton client ''127.0.0.1'' = Some loopback_ip \<and>
     (\<forall>port. so_connect client (loopback_ip, port) = None \<longleftrightarrow> listens_at server (loopback_ip, port))"

lemma server_main_started:
  assumes "server_main env t s w = (Inr v, t', s')"
  shows "v = server_start w \<and> listens_at s' (ip, chosen_port env)"
proof -
  obtain t1 where p: "server_port env t = (chosen_port env, t1)" using server_port_chosen [of env t] by (cases "server_port env t") auto
  have "listen_succeeds s"
    using assms p createListenSocket_fails [of s "chosen_port env" t1] by (cases "listen_succeeds s") (auto simp: server_main_def)
  then obtain a s1 where a: "createListenSocket (chosen_port env) t1 s = (fst (so_socket s), t1, s1)" "endpoint (so_order s) a = (INADDR_ANY, chosen_port env)"
      "so_open s1 = fst (so_socket s) # so_open s" "so_bound s1 = (fst (so_socket s), a) # so_bound s"
      "so_listening s1 = fst (so_socket s) # so_listening s" "so_order s1 = so_order s"
    using createListenSocket_ok by blast
  then have "v = server_start w" "s' = s1" using assms p \<open>listen_succeeds s\<close> by (auto simp: server_main_def listen_succeeds_def)
  then show ?thesis using a by (simp add: listens_at_def)
qed

text \<open>What the network has to carry to the server: nothing if there is no connection.\<close>

definition sent_by :: "fd_connection option \<Rightarrow> bytes" where
  "sent_by conn = (case conn of None \<Rightarrow> [] | Some c \<Rightarrow> net_out c)"

lemma default_store_ready:
  assumes "fresh_disk ''./sstables'' ''./wal'' w" and "b \<le> 3 * 2 ^ 16"
  shows "db_ok b (createDefaultDb w)" and "db_view (createDefaultDb w) = Map.empty" and "clean (db_view (createDefaultDb w))"
proof -
  have "fresh_disk (cfg_sstableDirectory DbFactoryConfig) (cfg_walDirectory DbFactoryConfig) w"
      "1 \<le> cfg_memtableCapacity DbFactoryConfig" "cfg_memtableCapacity DbFactoryConfig \<le> 2 ^ 20" "0 \<le> cfg_maxLevels DbFactoryConfig"
    using assms(1) by (simp_all add: DbFactoryConfig_def)
  note new = db_new_ok [OF this, of b]
  show "db_ok b (createDefaultDb w)" "db_view (createDefaultDb w) = Map.empty"
    using new assms(2) by (simp_all add: createDefaultDb_def DbFactoryConfig_def)
  then show "clean (db_view (createDefaultDb w))" by (simp add: clean_def)
qed

lemma accept_only_client:
  assumes "server_main env t s w = (Inr v, t', s')" and "0 \<le> fd"
  shows "alive (server_accept fd chunks limits v)" and "sv_threads (server_accept fd chunks limits v) = [Reading (FdConnection fd chunks limits)]"
    and "sv_db (server_accept fd chunks limits v) = createDefaultDb w"
  using server_main_started [OF assms(1)] assms(2) by (simp_all add: server_accept_def server_start_def alive_def)

lemma loopback_connects:
  assumes "server_main env t s w = (Inr v, t', s')" and "loopback s' c" and "0 \<le> fst (so_socket c)"
  shows "connect_succeeds kDefaultHost (chosen_port env) c"
  using server_main_started [OF assms(1), of loopback_ip] assms(2,3) by (simp add: connect_succeeds_def loopback_def kDefaultHost_def)

text \<open>
  C2: both programs together, from \<open>main\<close> to \<open>main\<close>, on one machine.  The server was started on an empty
  disk; \<open>connect\<close> to the loopback address succeeds for the ports at which the server listens, and only
  those; the server accepts this client, and no other, and its thread has run to its end.  Each program
  has its own \<open>FdConnection\<close>, and each has received, in chunks of any size, exactly what the other sent.
  Then, whatever admissible lines the user typed (with no more writes than \<open>2 ^ 16\<close> memtables hold), the
  client was connected and ended with status 0; it printed that it is connected and then, after each prompt,
  the answers of the abstract map, whose last state is what the server's store holds; and the server
  closed its side.
\<close>

theorem programs_end_to_end:
  assumes server: "server_main env t' s' w = (Inr v, t1, s1)" and disk: "fresh_disk ''./sstables'' ''./wal'' w"
    and net: "loopback s1 s" "0 \<le> fst (so_socket s)"
    and client: "client_main chunks limits ls env t s = (r, t2, s2, conn)"
    and thread: "server_run (server_accept fd' chunks' limits' v) tr v'" "\<forall>ch. Accepted ch \<notin> set tr" "sv_threads v' = [Returned c']"
    and delivered: "concat chunks' = sent_by conn" "concat chunks = net_out c'"
    and pieces: "0 \<le> fd'" "[] \<notin> set chunks" "[] \<notin> set chunks'" "0 \<notin> set limits" "0 \<notin> set limits'"
    and lines: "\<forall>l \<in> set ls. admissible_line l" "line_writes ls \<le> 3 * 2 ^ 16"
  shows "r = Inr 0 \<and> conn \<noteq> None \<and> conn_fd c' = -1 \<and>
    (\<exists>os es. tm_cout t2 = tm_cout t @ ''Connected to tinykv at 127.0.0.1:'' @ show_port (chosen_port env) @ newline # os \<and>
      dialogue Map.empty ls os es (db_view (sv_db v')))"
proof -
  let ?fd = "fst (so_socket s)"
  obtain t3 s3 where c: "tm_cout t3 = tm_cout t @ ''Connected to tinykv at 127.0.0.1:'' @ show_port (chosen_port env) @ [newline]"
      "\<forall>chunks limits ls. client_main chunks limits ls env t s =
        (case runRepl fd_readLine fd_writeAll ls t3 (FdConnection ?fd chunks limits) of (r, t2, c) \<Rightarrow> (r, t2, s3, Some c))"
    using client_main_connected [OF loopback_connects [OF server net]] by blast
  then obtain c where repl: "runRepl fd_readLine fd_writeAll ls t3 (FdConnection ?fd chunks limits) = (r, t2, c)" "conn = Some c"
    using client by (auto split: prod.splits)
  note v = accept_only_client [OF server pieces(1)]
  have "session_run fd_readLine fd_writeAll fd_close handler_execute (FdConnection fd' chunks' limits') (createDefaultDb w) = Some (Inr (), c', sv_db v')"
    using only_client_served(1) [OF v(1,2) thread] unfolding v(3) .
  from conversation [OF net(2) pieces(2,4,1,3,5) lines(1) default_store_ready(1) [OF disk lines(2)] default_store_ready(3) [OF disk le0] repl(1) this]
  show ?thesis using delivered repl(2) c(1) default_store_ready(2) [OF disk le0] by (auto simp: sent_by_def)
qed

text \<open>Such deliveries exist for every choice of lines.\<close>

lemma delivery_exists:
  assumes "server_main env t' s' w = (Inr v, t1, s1)" and "fresh_disk ''./sstables'' ''./wal'' w" and "loopback s1 s" "0 \<le> fst (so_socket s)"
    and "0 \<le> fd'" "0 \<notin> set limits" "0 \<notin> set limits'" and "\<forall>l \<in> set ls. admissible_line l" "line_writes ls \<le> 3 * 2 ^ 16"
  shows "\<exists>chunks chunks' r t2 s2 conn tr v' c'. client_main chunks limits ls env t s = (r, t2, s2, conn) \<and>
    server_run (server_accept fd' chunks' limits' v) tr v' \<and> (\<forall>ch. Accepted ch \<notin> set tr) \<and> sv_threads v' = [Returned c'] \<and>
    concat chunks' = sent_by conn \<and> concat chunks = net_out c' \<and> [] \<notin> set chunks \<and> [] \<notin> set chunks'"
proof -
  let ?fd = "fst (so_socket s)"
  obtain t3 s3 where c: "\<forall>chunks limits ls. client_main chunks limits ls env t s =
        (case runRepl fd_readLine fd_writeAll ls t3 (FdConnection ?fd chunks limits) of (r, t2, c) \<Rightarrow> (r, t2, s3, Some c))"
    using client_main_connected [OF loopback_connects [OF assms(1,3,4)]] by blast
  obtain chunks chunks' r t2 c c' db' where d: "[] \<notin> set chunks" "[] \<notin> set chunks'"
      "runRepl fd_readLine fd_writeAll ls t3 (FdConnection ?fd chunks limits) = (r, t2, c)"
      "session_run fd_readLine fd_writeAll fd_close handler_execute (FdConnection fd' chunks' limits') (createDefaultDb w) = Some (Inr (), c', db')"
      "concat chunks' = net_out c" "concat chunks = net_out c'"
    using conversation_exists [OF assms(4,6,5,7,8) default_store_ready(1) [OF assms(2,9)] default_store_ready(3) [OF assms(2) le0]] by blast
  note v = accept_only_client [OF assms(1,5)]
  obtain tr v' where "server_run (server_accept fd' chunks' limits' v) tr v'" "\<forall>ch. Accepted ch \<notin> set tr" "sv_threads v' = [Returned c']"
    using only_client_served(2) [OF v(1,2)] d(4) v(3) by metis
  then show ?thesis using c d by (intro exI) (auto simp: sent_by_def)
qed

text \<open>Two machines' worth of system calls that succeed: the server's, and the client's on the same host.\<close>

definition calm_sockets :: "endian \<Rightarrow> int \<Rightarrow> socket_os" where
  "calm_sockets en fd =
     \<lparr>so_order = en, so_socket = (fd, 0), so_bind = None, so_listen = None, so_connect = (\<lambda>(ip, port). if port = 6379 then None else Some 111),
      so_pton = (\<lambda>h. if h = ''127.0.0.1'' then Some loopback_ip else None), so_strerror = (\<lambda>_. ''error''),
      so_EADDRINUSE = 98, so_open = [0, 1, 2], so_reuse = [], so_bound = [], so_listening = [], so_connected = []\<rparr>"

theorem programs_end_to_end_witness:
  "\<exists>v t1 s1 chunks t2 s2 conn. server_main None \<lparr>tm_cout = [], tm_cerr = []\<rparr> (calm_sockets Little 3) fresh_world = (Inr v, t1, s1) \<and>
    client_main chunks [7] [''put k v'', ''GET k''] None \<lparr>tm_cout = [], tm_cerr = []\<rparr> (calm_sockets Little 3) = (Inr 0, t2, s2, conn) \<and>
    tm_cout t2 = ''Connected to tinykv at 127.0.0.1:6379'' @ [newline] @ prompt @ ''OK'' @ [newline] @ prompt @ ''v'' @ [newline] @ prompt @ [newline]"
proof -
  let ?t = "\<lparr>tm_cout = [], tm_cerr = []\<rparr>" and ?s = "calm_sockets Little 3" and ?ls = "[''put k v'', ''GET k'']"
  have lines: "\<forall>l \<in> set ?ls. admissible_line l" "line_writes ?ls \<le> 3 * 2 ^ 16"
    by (simp_all add: admissible_line_def example_lines admissible_def newline_def is_write_def)
  have port: "chosen_port None = 6379" "show_port 6379 = ''6379''"
    by (simp_all add: chosen_port_def readPortFromEnv_def kDefaultPort_def show_port_def to_string.simps digit_char_def char_of_def bit_Suc_0_iff)
  have "listen_succeeds ?s" by (simp add: listen_succeeds_def calm_sockets_def)
  then obtain a s1 where a: "createListenSocket 6379 ?t ?s = (3, ?t, s1)" "endpoint Little a = (INADDR_ANY, 6379)" "so_open s1 = 3 # so_open ?s"
      "so_bound s1 = [(3, a)]" "so_listening s1 = [3]" "so_order s1 = Little"
    using createListenSocket_ok [of ?s 6379 ?t] by (auto simp: calm_sockets_def)
  have "server_port None ?t = (6379, ?t)" using port(1) by (simp add: server_port_def chosen_port_def split: option.splits)
  then obtain v t1 where server: "server_main None ?t ?s fresh_world = (Inr v, t1, s1)" using a(1) by (simp add: server_main_def)
  have net: "loopback s1 ?s" using a by (auto simp: loopback_def listens_at_def calm_sockets_def)
  have sock: "0 \<le> fst (so_socket ?s)" by (simp add: calm_sockets_def)
  have args: "(0::int) \<le> 5" "(0::nat) \<notin> set [7]" "(0::nat) \<notin> set [2, 30]" by simp_all
  obtain chunks chunks' r t2 s2 conn tr v' c' where d: "client_main chunks [7] ?ls None ?t ?s = (r, t2, s2, conn)"
      "server_run (server_accept 5 chunks' [2, 30] v) tr v'" "\<forall>ch. Accepted ch \<notin> set tr" "sv_threads v' = [Returned c']"
      "concat chunks' = sent_by conn" "concat chunks = net_out c'" "[] \<notin> set chunks" "[] \<notin> set chunks'"
    using delivery_exists [OF server fresh_disk_fresh_world net sock args lines, of ?t] by blast
  from programs_end_to_end [OF server fresh_disk_fresh_world net sock d(1-6) args(1) d(7,8) args(2,3) lines]
  obtain os es where r: "r = Inr 0" "tm_cout t2 = ''Connected to tinykv at 127.0.0.1:'' @ ''6379'' @ newline # os"
      "dialogue Map.empty ?ls os es (db_view (sv_db v'))"
    using port by auto
  have "os = prompt @ ''OK'' @ [newline] @ prompt @ ''v'' @ [newline] @ prompt @ [newline]"
    using r(3) by (auto simp: dialogue_Cons_iff example_lines get_response_def wire_data_def shown_def Response_def)
  then show ?thesis using server d(1) r(1,2) by fastforce
qed

end
