(* ===== verification/Compaction.thy ===== *)
theory Compaction
  imports SSTable_File "HOL-Library.Multiset"
begin

text \<open>
  The compaction within a level as \<open>src/core/level_manager/level_manager_impl.cpp\<close> has it between
  \<open>#if 0\<close> and \<open>#endif\<close>: \<open>_mergeOverlappingTables\<close> and \<open>_deleteTables\<close>.  This code is not compiled, and
  \<open>compactInto\<close> does nothing; the theory says what the code would do if it were enabled.  It is
  written against an earlier state of the class, in which a level holds its tables in memory.  The
  overload of \<open>createTable\<close> it calls, over a vector of entries, is not in the sources any more: it is
  an argument.
\<close>

section \<open>The level\<close>

text \<open>A table of the level; two tables are the same object when their addresses agree.\<close>

record table_handle =
  h_addr :: nat
  h_table :: sstable

text \<open>\<open>std::sort\<close> may put tables with equal start keys in any order: its result is an argument too.\<close>

type_synonym table_sort = "table_handle list \<Rightarrow> table_handle list"
type_synonym table_creator = "entry list \<Rightarrow> table_handle list \<Rightarrow> status \<times> table_handle list"

fun rmap :: "('a \<Rightarrow> exn + 'b) \<Rightarrow> 'a list \<Rightarrow> exn + 'b list" where
  "rmap f [] = Inr []"
| "rmap f (x # xs) = rbind (f x) (\<lambda>y. rbind (rmap f xs) (\<lambda>ys. Inr (y # ys)))"

definition table_range :: "table_handle \<Rightarrow> exn + string \<times> string" where
  "table_range h =
     rbind (sstable_getStartKey (h_table h)) (\<lambda>a. rbind (sstable_getEndKey (h_table h)) (\<lambda>b. Inr (a, b)))"

section \<open>Grouping\<close>

text \<open>
  The loop over the ranges of the tables in order of their start keys.  In the branch of a table
  that starts behind \<open>intvEnd\<close> the code does not move \<open>intvEnd\<close>.
\<close>

fun overlap_loop :: "(string \<times> string) list \<Rightarrow> nat \<Rightarrow> string \<Rightarrow> nat \<Rightarrow> nat \<Rightarrow> (nat \<times> nat) list \<Rightarrow> (nat \<times> nat) list" where
  "overlap_loop [] i intvEnd startIdx endIdx groups = groups @ [(startIdx, endIdx)]"
| "overlap_loop ((startKey, endKey) # ks) i intvEnd startIdx endIdx groups =
     (if startKey > intvEnd then overlap_loop ks (i + 1) intvEnd i i (groups @ [(startIdx, endIdx)])
      else overlap_loop ks (i + 1) (if endKey > intvEnd then endKey else intvEnd) startIdx i groups)"

definition overlappingTables :: "(string \<times> string) list \<Rightarrow> (nat \<times> nat) list" where
  "overlappingTables ks = overlap_loop ks 0 (snd (hd ks)) 0 0 []"

section \<open>Merging\<close>

text \<open>\<open>std::unordered_set<Entry>\<close> compares entries by their keys.\<close>

definition seen :: "entry \<Rightarrow> entry list \<Rightarrow> bool" where
  "seen e merged \<longleftrightarrow> (\<exists>x \<in> set merged. entry_eq x e)"

fun merge_table :: "entry list \<Rightarrow> entry list \<Rightarrow> entry list" where
  "merge_table merged [] = merged"
| "merge_table merged (e # es) = merge_table (if \<not> seen e merged then merged @ [e] else merged) es"

fun merge_tables :: "entry list \<Rightarrow> table_handle list \<Rightarrow> entry list" where
  "merge_tables merged [] = merged"
| "merge_tables merged (v # vs) = merge_tables (merge_table merged (sstable_getEntries (h_table v))) vs"

text \<open>The comparison \<open>t2->meta() < t1->meta()\<close>: descending file numbers.\<close>

definition newest_first :: "table_handle list \<Rightarrow> table_handle list" where
  "newest_first vs = sort_key (\<lambda>h. - uint (m_file_number (m_meta (h_table h)))) vs"

definition deleteTables :: "table_handle list \<Rightarrow> table_handle list \<Rightarrow> status \<times> table_handle list" where
  "deleteTables victims level =
     (if victims = [] then (Status_OK, level)
      else (Status_OK, filter (\<lambda>h. h_addr h \<notin> h_addr ` set victims) level))"

fun merge_groups ::
  "table_creator \<Rightarrow> table_handle list \<Rightarrow> (nat \<times> nat) list \<Rightarrow> table_handle list \<Rightarrow> status \<times> table_handle list" where
  "merge_groups createTable tables [] level = (Status_OK, level)"
| "merge_groups createTable tables ((start, end) # groups) level =
     (if start = end then merge_groups createTable tables groups level
      else
        let victims = newest_first (map (\<lambda>i. tables ! i) [start..<end + 1])
        in case createTable (merge_tables [] victims) level of
             (s, level1) \<Rightarrow>
               if \<not> status_ok s then (s, level1)
               else case deleteTables victims level1 of
                 (s, level2) \<Rightarrow>
                   if \<not> status_ok s then (s, level2) else merge_groups createTable tables groups level2)"

definition mergeOverlappingTables ::
  "table_sort \<Rightarrow> table_creator \<Rightarrow> table_handle list \<Rightarrow> exn + status \<times> table_handle list" where
  "mergeOverlappingTables by_start createTable level =
     (if length level = 0 then Inr (Status_OK, level)
      else
        let tables = by_start level
        in rbind (rmap table_range tables) (\<lambda>ks.
             Inr (merge_groups createTable tables (overlappingTables ks) level)))"

section \<open>Lemmas\<close>

subsection \<open>Groups\<close>

lemma overlap_loop_apart:
  assumes "\<forall>r \<in> set ks. intvEnd < fst r"
  shows "overlap_loop ks i intvEnd s e gs = gs @ (s, e) # map (\<lambda>j. (j, j)) [i..<i + length ks]"
  using assms
proof (induction ks arbitrary: i s e gs)
  case (Cons r ks)
  have "[i..<i + length (r # ks)] = i # [Suc i..<Suc i + length ks]" by (simp add: upt_conv_Cons del: upt_Suc)
  then show ?case using Cons.IH [of "Suc i"] Cons.prems by (cases r) (simp del: upt_Suc)
qed simp

text \<open>
  Only the first group can have more than one table: \<open>n\<close> tables from the front, which end at
  \<open>stop\<close> or before; all other tables start behind \<open>stop\<close> and stay alone.
\<close>

lemma overlap_loop_groups:
  assumes "sorted (map fst ks)"
  obtains n stop where "n \<le> length ks" and "intvEnd \<le> stop"
    and "overlap_loop ks i intvEnd s e gs = gs @ (s, if n = 0 then e else i + n - 1) # map (\<lambda>j. (j, j)) [i + n..<i + length ks]"
    and "\<forall>r \<in> set (take n ks). snd r \<le> stop" and "\<forall>r \<in> set (drop n ks). stop < fst r"
  using assms
proof (induction ks arbitrary: i intvEnd e thesis)
  case Nil
  show ?case by (rule Nil.prems(1) [of 0 intvEnd]) simp_all
next
  case (Cons r ks)
  obtain a b where r: "r = (a, b)" by fastforce
  show ?case
  proof (cases "a > intvEnd")
    case True
    then have apart: "\<forall>x \<in> set (r # ks). intvEnd < fst x" using Cons.prems(2) r by auto
    show ?thesis
      by (rule Cons.prems(1) [of 0 intvEnd]) (use apart overlap_loop_apart [OF apart] in auto)
  next
    case False
    let ?E = "if b > intvEnd then b else intvEnd"
    obtain n stop where n: "n \<le> length ks" "?E \<le> stop"
        "overlap_loop ks (i + 1) ?E s i gs = gs @ (s, if n = 0 then i else (i + 1) + n - 1) # map (\<lambda>j. (j, j)) [(i + 1) + n..<(i + 1) + length ks]"
        "\<forall>r \<in> set (take n ks). snd r \<le> stop" "\<forall>r \<in> set (drop n ks). stop < fst r"
      using Cons.IH [of ?E "i + 1" i] Cons.prems(2) by auto
    show ?thesis
      by (rule Cons.prems(1) [of "Suc n" stop]) (use n False r in \<open>auto simp del: upt_Suc split: if_splits\<close>)
  qed
qed

subsection \<open>Merged entries\<close>

lemma seen_iff: "seen e es \<longleftrightarrow> e_key e \<in> e_key ` set es"
  unfolding seen_def entry_eq_def by (metis imageE imageI)

lemma find_key_snoc_new:
  assumes "\<not> seen e es"
  shows "find_key e_key k (es @ [e]) = (if e_key e = k then Some e else find_key e_key k es)"
proof (cases "e_key e = k")
  case True
  then have "find_key e_key k es = None" using assms by (simp add: seen_iff find_key_None_iff)
  then show ?thesis using True by (simp add: find_key_append)
qed (simp add: find_key_append split: option.splits)

lemma merge_table_lookup:
  "find_key e_key k (merge_table merged es) = (case find_key e_key k merged of None \<Rightarrow> find_key e_key k es | Some x \<Rightarrow> Some x)"
proof (induction es arbitrary: merged)
  case (Cons e es)
  show ?case
  proof (cases "seen e merged")
    case True
    then have "e_key e = k \<Longrightarrow> find_key e_key k merged \<noteq> None" by (auto simp: seen_iff find_key_None_iff)
    then show ?thesis using True by (auto simp: Cons.IH split: option.splits)
  next
    case False
    then have "e_key e = k \<Longrightarrow> find_key e_key k merged = None" by (auto simp: seen_iff find_key_None_iff)
    then show ?thesis using False by (auto simp: Cons.IH find_key_snoc_new split: option.splits)
  qed
qed (simp split: option.splits)

lemma merge_table_distinct: "distinct (map e_key merged) \<Longrightarrow> distinct (map e_key (merge_table merged es))"
  by (induction es arbitrary: merged) (auto simp: seen_iff)

lemma merge_tables_distinct: "distinct (map e_key merged) \<Longrightarrow> distinct (map e_key (merge_tables merged vs))"
  by (induction vs arbitrary: merged) (simp_all add: merge_table_distinct)

text \<open>The lookup of a level: the first table that has the key.\<close>

fun tables_lookup :: "table_handle list \<Rightarrow> string \<Rightarrow> entry option" where
  "tables_lookup [] k = None"
| "tables_lookup (h # hs) k = (case find_key e_key k (m_entries (h_table h)) of None \<Rightarrow> tables_lookup hs k | Some e \<Rightarrow> Some e)"

lemma merge_tables_lookup:
  "find_key e_key k (merge_tables merged vs) = (case find_key e_key k merged of None \<Rightarrow> tables_lookup vs k | Some x \<Rightarrow> Some x)"
  by (induction vs arbitrary: merged) (auto simp: merge_table_lookup sstable_getEntries_def split: option.splits)

lemma tables_lookup_filter:
  "(\<And>h. h \<in> set hs \<Longrightarrow> \<not> P h \<Longrightarrow> find_key e_key k (m_entries (h_table h)) = None) \<Longrightarrow>
    tables_lookup (filter P hs) k = tables_lookup hs k"
  by (induction hs) (auto split: option.splits)

lemma tables_lookup_None_iff:
  "tables_lookup hs k = None \<longleftrightarrow> (\<forall>h \<in> set hs. find_key e_key k (m_entries (h_table h)) = None)"
  by (induction hs) (auto split: option.splits)

lemma tables_lookup_SomeD:
  "tables_lookup hs k = Some e \<Longrightarrow> \<exists>h \<in> set hs. find_key e_key k (m_entries (h_table h)) = Some e"
  by (induction hs) (auto split: option.splits)

subsection \<open>The level before and after\<close>

definition file_number :: "table_handle \<Rightarrow> u64" where
  "file_number h = m_file_number (m_meta (h_table h))"

text \<open>
  What the class promises of its tables: they are different objects, not empty, sorted by key, and
  in the vector the newest one comes first.
\<close>

definition level_tables_ok :: "table_handle list \<Rightarrow> bool" where
  "level_tables_ok hs \<longleftrightarrow>
     distinct (map h_addr hs) \<and> sorted_wrt (>) (map file_number hs) \<and>
     (\<forall>h \<in> set hs. m_entries (h_table h) \<noteq> [] \<and> sorted_keys e_key (m_entries (h_table h)))"

definition sorts_by_start :: "table_sort \<Rightarrow> bool" where
  "sorts_by_start srt \<longleftrightarrow>
     (\<forall>hs. mset (srt hs) = mset hs \<and> sorted (map (\<lambda>h. e_key (hd (m_entries (h_table h)))) (srt hs)))"

definition creates_in_front :: "table_creator \<Rightarrow> bool" where
  "creates_in_front createTable \<longleftrightarrow>
     (\<forall>es hs. es \<noteq> [] \<longrightarrow> (\<exists>h. createTable es hs = (Status_OK, h # hs) \<and> m_entries (h_table h) = std_sort es \<and>
        h_addr h \<notin> h_addr ` set hs))"

definition range_of :: "table_handle \<Rightarrow> string \<times> string" where
  "range_of h = (e_key (hd (m_entries (h_table h))), e_key (last (m_entries (h_table h))))"

lemma rmap_table_range:
  "\<forall>h \<in> set hs. m_entries (h_table h) \<noteq> [] \<Longrightarrow> rmap table_range hs = Inr (map range_of hs)"
proof (induction hs)
  case (Cons h hs)
  then have "table_range h = Inr (range_of h)"
    using vec_at_hd [of "m_entries (h_table h)"] vec_at_last [of "m_entries (h_table h)"]
    by (simp add: table_range_def sstable_getStartKey_def sstable_getEndKey_def range_of_def del: vec_at_in)
  then show ?case using Cons by simp
qed simp

lemma newest_first_sorted:
  assumes "sorted_wrt (>) (map file_number hs)" and "mset vs = mset (filter P hs)"
  shows "newest_first vs = filter P hs"
proof -
  let ?f = "\<lambda>h. - uint (m_file_number (m_meta (h_table h)))"
  have "sorted_wrt (\<lambda>a b. ?f a < ?f b) hs"
    using assms(1) by (simp add: sorted_wrt_map file_number_def word_less_def)
  then have s: "sorted_keys ?f (filter P hs)" by (simp add: sorted_wrt_map sorted_wrt_filter)
  then have d: "distinct (map ?f (filter P hs))" by (rule sorted_keys_distinct)
  have "sort_key ?f vs = filter P hs"
  proof (rule sort_key_inj_key_eq)
    show "inj_on ?f (set vs)" using d assms(2) by (metis distinct_map set_mset_mset)
    show "sorted (map ?f (filter P hs))" using s by (rule strict_sorted_imp_sorted)
  qed (rule assms(2))
  then show ?thesis by (simp add: newest_first_def)
qed

lemma std_sort_lookup:
  assumes "distinct (map e_key es)"
  shows "find_key e_key k (std_sort es) = find_key e_key k es"
proof (cases "find_key e_key k es")
  case None
  then have "find_key e_key k (std_sort es) = None" unfolding find_key_None_iff by simp
  then show ?thesis using None by simp
next
  case (Some e)
  then have "e \<in> set (std_sort es)" "e_key e = k" using find_key_SomeD by fastforce+
  moreover have "distinct (map e_key (std_sort es))" using sorted_keys_std_sort [OF assms] by (rule sorted_keys_distinct)
  ultimately show ?thesis using Some find_key_distinct by metis
qed

text \<open>Merging the tables of one group, when no other table has their keys.\<close>

lemma merge_group_keeps_lookups:
  assumes "level_tables_ok hs" and "creates_in_front createTable" and "V \<noteq> []" and "mset V = mset (filter P hs)"
    and "\<And>v h k. v \<in> set V \<Longrightarrow> h \<in> set hs \<Longrightarrow> \<not> P h \<Longrightarrow> find_key e_key k (m_entries (h_table v)) \<noteq> None \<Longrightarrow>
      find_key e_key k (m_entries (h_table h)) = None"
  shows "\<exists>hs1 hs2. createTable (merge_tables [] (newest_first V)) hs = (Status_OK, hs1) \<and>
    deleteTables (newest_first V) hs1 = (Status_OK, hs2) \<and> (\<forall>k. tables_lookup hs2 k = tables_lookup hs k)"
proof -
  have nf: "newest_first V = filter P hs" using newest_first_sorted assms(1,4) by (simp add: level_tables_ok_def)
  have setV: "set V = set (filter P hs)" using assms(4) by (metis set_mset_mset)
  let ?m = "merge_tables [] (filter P hs)"
  have lookup: "find_key e_key k ?m = tables_lookup (filter P hs) k" for k by (simp add: merge_tables_lookup)
  obtain v where v: "v \<in> set (filter P hs)" using assms(3) setV by (metis last_in_set)
  then have "m_entries (h_table v) \<noteq> []" using assms(1) by (auto simp: level_tables_ok_def)
  then obtain e where "e \<in> set (m_entries (h_table v))" by (metis last_in_set)
  then have "find_key e_key (e_key e) (m_entries (h_table v)) \<noteq> None" by (simp add: find_key_None_iff)
  then have "tables_lookup (filter P hs) (e_key e) \<noteq> None" using v by (auto simp: tables_lookup_None_iff)
  then have ne: "?m \<noteq> []" using lookup by (metis find_key_Nil)
  obtain h where h: "createTable ?m hs = (Status_OK, h # hs)" "m_entries (h_table h) = std_sort ?m" "h_addr h \<notin> h_addr ` set hs"
    using assms(2) ne unfolding creates_in_front_def by blast
  have dist: "distinct (map h_addr hs)" using assms(1) by (simp add: level_tables_ok_def)
  have gone: "h_addr x \<in> h_addr ` set (filter P hs) \<longleftrightarrow> P x" if "x \<in> set hs" for x
    using that dist by (auto simp: distinct_map inj_on_def)
  let ?rest = "filter (\<lambda>h. \<not> P h) hs"
  have "filter P hs \<noteq> []" using v by (metis empty_iff empty_set)
  moreover have "h_addr h \<notin> h_addr ` set (filter P hs)" using h(3) by auto
  ultimately have del: "deleteTables (filter P hs) (h # hs) = (Status_OK, h # ?rest)"
    using gone by (simp add: deleteTables_def cong: filter_cong)
  have mine: "find_key e_key k (m_entries (h_table h)) = tables_lookup (filter P hs) k" for k
    using std_sort_lookup [OF merge_tables_distinct [of "[]"]] h(2) lookup by simp
  have "tables_lookup (h # ?rest) k = tables_lookup hs k" for k
  proof (cases "tables_lookup (filter P hs) k")
    case None
    then have "find_key e_key k (m_entries (h_table x)) = None" if "x \<in> set hs" "P x" for x
      using that unfolding tables_lookup_None_iff by simp
    then have "tables_lookup ?rest k = tables_lookup hs k" by (intro tables_lookup_filter) blast
    then show ?thesis using None mine by simp
  next
    case (Some x)
    then obtain v where "v \<in> set V" "find_key e_key k (m_entries (h_table v)) \<noteq> None"
      using tables_lookup_SomeD setV by fastforce
    then have "tables_lookup (filter P hs) k = tables_lookup hs k" using assms(5) by (intro tables_lookup_filter) blast
    then show ?thesis using Some mine by (auto split: option.splits)
  qed
  then show ?thesis using nf h(1) del by auto
qed

lemma merge_groups_singletons: "merge_groups createTable tables (map (\<lambda>j. (j, j)) js) hs = (Status_OK, hs)"
  by (induction js) simp_all

lemma map_nth_take: "n \<le> length xs \<Longrightarrow> map (\<lambda>i. xs ! i) [0..<n] = take n xs"
  by (rule nth_equalityI) simp_all

lemma filter_take_distinct:
  assumes "distinct (map f xs)"
  shows "filter (\<lambda>x. f x \<in> f ` set (take n xs)) xs = take n xs"
proof -
  have "distinct (map f (take n xs @ drop n xs))" using assms by simp
  then have "f x \<notin> f ` set (take n xs)" if "x \<in> set (drop n xs)" for x
    using that unfolding map_append distinct_append by auto
  then have "filter (\<lambda>x. f x \<in> f ` set (take n xs)) (take n xs @ drop n xs) = take n xs"
    unfolding filter_append by (simp add: filter_empty_conv)
  then show ?thesis by simp
qed

lemma overlappingTables_groups:
  assumes "sorted (map fst ks)" and "ks \<noteq> []"
  obtains n stop where "n \<le> length ks"
    and "overlappingTables ks = (0, n - 1) # map (\<lambda>j. (j, j)) [n..<length ks]"
    and "\<forall>r \<in> set (take n ks). snd r \<le> stop" and "\<forall>r \<in> set (drop n ks). stop < fst r"
proof (rule overlap_loop_groups [OF assms(1), of "snd (hd ks)" 0 0 0 "[]"])
  fix n stop
  assume n: "n \<le> length ks"
      "overlap_loop ks 0 (snd (hd ks)) 0 0 [] = [] @ (0, if n = 0 then 0 else 0 + n - 1) # map (\<lambda>j. (j, j)) [0 + n..<0 + length ks]"
      "\<forall>r \<in> set (take n ks). snd r \<le> stop" "\<forall>r \<in> set (drop n ks). stop < fst r"
  then show thesis by (intro that [of n stop]) (simp_all add: overlappingTables_def)
qed

lemma table_keys_in_range:
  assumes "sorted_keys e_key (m_entries (h_table h))" and "find_key e_key k (m_entries (h_table h)) \<noteq> None"
  shows "fst (range_of h) \<le> k \<and> k \<le> snd (range_of h)"
proof -
  obtain e where "e \<in> set (m_entries (h_table h))" "e_key e = k"
    using assms(2) by (auto simp: find_key_None_iff image_iff)
  then show ?thesis using sorted_keys_bounds [OF assms(1)] by (auto simp: range_of_def)
qed

section \<open>Properties\<close>

text \<open>
  C35: if it were enabled, the compaction within a level would not change what the level shows: on
  every level whose tables are as the class promises, whatever order \<open>std::sort\<close> gives tables with
  equal start keys, it succeeds and every key has the same newest entry as before, tombstones
  included.
\<close>

theorem merge_keeps_lookups:
  assumes "level_tables_ok hs" and "sorts_by_start srt" and "creates_in_front createTable"
  shows "\<exists>hs'. mergeOverlappingTables srt createTable hs = Inr (Status_OK, hs') \<and> (\<forall>k. tables_lookup hs' k = tables_lookup hs k)"
proof (cases "hs = []")
  case True
  then show ?thesis by (simp add: mergeOverlappingTables_def)
next
  case False
  let ?t = "srt hs"
  have perm: "mset ?t = mset hs" and start: "sorted (map fst (map range_of ?t))"
    using assms(2) by (simp_all add: sorts_by_start_def range_of_def comp_def)
  then have same: "set ?t = set hs" "length ?t = length hs" by (metis set_mset_mset, metis size_mset)
  have ok: "\<forall>h \<in> set hs. m_entries (h_table h) \<noteq> [] \<and> sorted_keys e_key (m_entries (h_table h))" and "distinct (map h_addr hs)"
    using assms(1) by (simp_all add: level_tables_ok_def)
  then have dist: "distinct (map h_addr ?t)" using perm by (metis mset_eq_imp_distinct_iff mset_map)
  have ranges: "rmap table_range ?t = Inr (map range_of ?t)" using ok same(1) by (intro rmap_table_range) blast
  have "map range_of ?t \<noteq> []" using False same(2) by auto
  then obtain n stop where n: "n \<le> length ?t" "overlappingTables (map range_of ?t) = (0, n - 1) # map (\<lambda>j. (j, j)) [n..<length ?t]"
      "\<forall>h \<in> set (take n ?t). snd (range_of h) \<le> stop" "\<forall>h \<in> set (drop n ?t). stop < fst (range_of h)"
    using overlappingTables_groups [OF start, of thesis] by (simp add: take_map drop_map)
  have merged: "mergeOverlappingTables srt createTable hs =
      Inr (merge_groups createTable ?t ((0, n - 1) # map (\<lambda>j. (j, j)) [n..<length ?t]) hs)"
    using False ranges n(2) by (simp add: mergeOverlappingTables_def Let_def del: merge_groups.simps)
  show ?thesis
  proof (cases "n \<le> 1")
    case True
    then show ?thesis using merged merge_groups_singletons by simp
  next
    case n1: False
    let ?P = "\<lambda>h. h_addr h \<in> h_addr ` set (take n ?t)"
    have V: "map (\<lambda>i. ?t ! i) [0..<n - 1 + 1] = take n ?t" using n(1) n1 map_nth_take [of n ?t] by simp
    have "mset (take n ?t) = mset (filter ?P hs)"
      using filter_take_distinct [OF dist, of n] perm by (metis mset_filter)
    moreover have "find_key e_key k (m_entries (h_table h)) = None"
      if "v \<in> set (take n ?t)" "h \<in> set hs" "\<not> ?P h" "find_key e_key k (m_entries (h_table v)) \<noteq> None" for v h k
    proof (rule ccontr)
      assume "find_key e_key k (m_entries (h_table h)) \<noteq> None"
      moreover have "h \<in> set (drop n ?t)"
        using that(2,3) same(1) by (metis (no_types) Un_iff append_take_drop_id imageI set_append)
      ultimately have "stop < k" using n(4) ok that(2) table_keys_in_range [of h k] by fastforce
      moreover have "v \<in> set hs" using that(1) same(1) by (metis in_set_takeD)
      then have "k \<le> stop" using n(3) ok that(1,4) table_keys_in_range [of v k] by fastforce
      ultimately show False by simp
    qed
    moreover have "take n ?t \<noteq> []" using n1 n(1) by auto
    ultimately obtain hs1 hs2 where m: "createTable (merge_tables [] (newest_first (take n ?t))) hs = (Status_OK, hs1)"
        "deleteTables (newest_first (take n ?t)) hs1 = (Status_OK, hs2)" "\<forall>k. tables_lookup hs2 k = tables_lookup hs k"
      using merge_group_keeps_lookups [OF assms(1,3), of "take n ?t" ?P] by blast
    have "merge_groups createTable ?t ((0, n - 1) # map (\<lambda>j. (j, j)) [n..<length ?t]) hs = (Status_OK, hs2)"
      using m(1,2) n1 V by (simp add: Let_def merge_groups_singletons del: upt_Suc)
    then show ?thesis using merged m(3) by simp
  qed
qed

text \<open>A level of three tables, the last two of which overlap each other but not the first.\<close>

definition example_table :: "nat \<Rightarrow> u64 \<Rightarrow> entry list \<Rightarrow> table_handle" where
  "example_table a fn es =
     \<lparr>h_addr = a, h_table = SSTable (SSTableMetadata fn 0 (e_key (hd es)) (e_key (last es))) es\<rparr>"

definition example_level :: "table_handle list" where
  "example_level =
     [example_table 2 3 [Entry ''a'' ''3'' False, Entry ''b'' ''3'' True],
      example_table 1 2 [Entry ''b'' ''2'' False, Entry ''d'' ''2'' False],
      example_table 0 1 [Entry ''e'' ''1'' False]]"

definition example_sort :: table_sort where
  "example_sort = sort_key (\<lambda>h. e_key (hd (m_entries (h_table h))))"

definition example_create :: table_creator where
  "example_create es hs = (Status_OK, \<lparr>h_addr = Suc (sum_list (map h_addr hs)),
     h_table = SSTable (SSTableMetadata 9 9 (e_key (hd es)) (e_key (last es))) es\<rparr> # hs)"

lemma example_create_in_front: "creates_in_front example_create"
proof -
  have "Suc (sum_list (map h_addr hs)) \<notin> h_addr ` set hs" for hs
    using member_le_sum_list [of _ "map h_addr hs"] by fastforce
  then show ?thesis by (auto simp: creates_in_front_def example_create_def SSTable_def)
qed

lemma example_sorts: "sorts_by_start example_sort"
  by (simp add: sorts_by_start_def example_sort_def)

lemma example_level_ok: "level_tables_ok example_level"
  by (simp add: level_tables_ok_def example_level_def example_table_def SSTable_def std_sort_def file_number_def SSTableMetadata_def)

theorem merge_keeps_lookups_witness:
  "\<exists>hs'. mergeOverlappingTables example_sort example_create example_level = Inr (Status_OK, hs') \<and>
    tables_lookup hs' ''b'' = Some (Entry ''b'' ''3'' True)"
proof -
  have "tables_lookup example_level ''b'' = Some (Entry ''b'' ''3'' True)"
    by (simp add: example_level_def example_table_def SSTable_def std_sort_def)
  then show ?thesis using merge_keeps_lookups [OF example_level_ok example_sorts example_create_in_front] by auto
qed

text \<open>
  C36: the grouping loses overlaps.  Because the end of the interval is not moved when a new group
  begins, every table behind the first group becomes a group of its own, whether it overlaps its
  neighbours or not, and is not merged.
\<close>

theorem only_first_group_is_merged:
  assumes "sorted (map fst ks)" and "ks \<noteq> []"
  shows "\<exists>n \<le> length ks. overlappingTables ks = (0, n - 1) # map (\<lambda>j. (j, j)) [n..<length ks]"
  using overlappingTables_groups [OF assms] by metis

theorem only_first_group_is_merged_witness:
  "overlappingTables [(''a'', ''b''), (''c'', ''f''), (''d'', ''e'')] = [(0, 0), (1, 1), (2, 2)] \<and>
   (\<exists>n \<le> length [(''a'', ''b''), (''c'', ''f''), (''d'', ''e'')]. overlappingTables [(''a'', ''b''), (''c'', ''f''), (''d'', ''e'')] = (0, n - 1) # map (\<lambda>j. (j, j)) [n..<length [(''a'', ''b''), (''c'', ''f''), (''d'', ''e'')]])"
proof
  show "overlappingTables [(''a'', ''b''), (''c'', ''f''), (''d'', ''e'')] = [(0, 0), (1, 1), (2, 2)]" by code_simp
  show "\<exists>n \<le> length [(''a'', ''b''), (''c'', ''f''), (''d'', ''e'')]. overlappingTables [(''a'', ''b''), (''c'', ''f''), (''d'', ''e'')] = (0, n - 1) # map (\<lambda>j. (j, j)) [n..<length [(''a'', ''b''), (''c'', ''f''), (''d'', ''e'')]]"
    by (rule only_first_group_is_merged) simp_all
qed

end
