(* ===== verification/Bloom.thy ===== *)
theory Bloom
  imports Filters Decimal
begin

text \<open>
  \<open>BloomFilterImpl\<close> (\<open>src/core/bloom_filter/bloom_filter_impl.cpp\<close>).  The function of
  \<open>std::hash<std::string>\<close> is left open by the language: it is an argument \<open>h\<close> of the operations.
\<close>

section \<open>Operations\<close>

record bloom_filter =
  bf_bit_array :: "bool list"
  bf_num_hashes :: u64

definition BloomFilterImpl :: "nat \<Rightarrow> u64 \<Rightarrow> bloom_filter" where
  "BloomFilterImpl sz num_hashes = \<lparr>bf_bit_array = replicate sz False, bf_num_hashes = num_hashes\<rparr>"

text \<open>\<open>hash_val % m_bit_array.size()\<close>: a division by zero on an empty array.\<close>

definition bloom_position :: "(string \<Rightarrow> u64) \<Rightarrow> string \<Rightarrow> nat \<Rightarrow> bool list \<Rightarrow> exn + nat" where
  "bloom_position h item i bits =
     (if bits = [] then Inl (Undefined_behaviour ''division by zero'')
      else Inr (unat (h (item @ to_string i)) mod length bits))"

fun bloom_insert_loop :: "(string \<Rightarrow> u64) \<Rightarrow> string \<Rightarrow> nat list \<Rightarrow> bool list \<Rightarrow> exn + bool list" where
  "bloom_insert_loop h item [] bits = Inr bits"
| "bloom_insert_loop h item (i # is) bits =
     rbind (bloom_position h item i bits) (\<lambda>p. bloom_insert_loop h item is (bits[p := True]))"

definition bloom_insert :: "(string \<Rightarrow> u64) \<Rightarrow> string \<Rightarrow> bloom_filter \<Rightarrow> exn + bloom_filter" where
  "bloom_insert h item b =
     rbind (bloom_insert_loop h item [0..<unat (bf_num_hashes b)] (bf_bit_array b)) (\<lambda>bits. Inr (b\<lparr>bf_bit_array := bits\<rparr>))"

fun bloom_contains_loop :: "(string \<Rightarrow> u64) \<Rightarrow> string \<Rightarrow> nat list \<Rightarrow> bool list \<Rightarrow> exn + bool" where
  "bloom_contains_loop h item [] bits = Inr True"
| "bloom_contains_loop h item (i # is) bits =
     rbind (bloom_position h item i bits) (\<lambda>p.
       if \<not> bits ! p then Inr False else bloom_contains_loop h item is bits)"

definition bloom_contains :: "(string \<Rightarrow> u64) \<Rightarrow> string \<Rightarrow> bloom_filter \<Rightarrow> exn + bool" where
  "bloom_contains h item b = bloom_contains_loop h item [0..<unat (bf_num_hashes b)] (bf_bit_array b)"

section \<open>Lemmas\<close>

definition bloom_slot :: "(string \<Rightarrow> u64) \<Rightarrow> string \<Rightarrow> nat \<Rightarrow> nat \<Rightarrow> nat" where
  "bloom_slot h item n i = unat (h (item @ to_string i)) mod n"

lemma bloom_position_slot: "bits \<noteq> [] \<Longrightarrow> bloom_position h item i bits = Inr (bloom_slot h item (length bits) i)"
  by (simp add: bloom_position_def bloom_slot_def)

lemma bloom_insert_loop_eq:
  "bits \<noteq> [] \<Longrightarrow>
    bloom_insert_loop h item is bits = Inr (foldl (\<lambda>bs i. bs[bloom_slot h item (length bits) i := True]) bits is)"
  by (induction "is" arbitrary: bits) (simp_all add: bloom_position_slot)

lemma bloom_contains_loop_eq:
  "bits \<noteq> [] \<Longrightarrow> bloom_contains_loop h item is bits = Inr (\<forall>i \<in> set is. bits ! bloom_slot h item (length bits) i)"
  by (induction "is") (simp_all add: bloom_position_slot)

lemma nth_set_bit: "bits[p := True] ! j \<longleftrightarrow> bits ! j \<or> j < length bits \<and> j = p"
  by (cases "p = j"; cases "p < length bits") (simp_all add: list_update_beyond)

lemma foldl_set_bits: "foldl (\<lambda>bs i. bs[f i := True]) bits is ! j \<longleftrightarrow> bits ! j \<or> j < length bits \<and> j \<in> f ` set is"
proof (induction "is" arbitrary: bits)
  case (Cons i "is")
  show ?case by (simp add: Cons.IH nth_set_bit) blast
qed simp

lemma length_foldl_set_bits [simp]: "length (foldl (\<lambda>bs i. bs[f i := True]) bits is) = length bits"
  by (induction "is" arbitrary: bits) simp_all

definition bloom_add :: "(string \<Rightarrow> u64) \<Rightarrow> bloom_filter \<Rightarrow> string \<Rightarrow> bloom_filter" where
  "bloom_add h b item = (case bloom_insert h item b of Inl _ \<Rightarrow> b | Inr b' \<Rightarrow> b')"

definition bloom_may_contain :: "(string \<Rightarrow> u64) \<Rightarrow> bloom_filter \<Rightarrow> string \<Rightarrow> bool" where
  "bloom_may_contain h b item \<longleftrightarrow> bloom_contains h item b = Inr True"

lemma bloom_insert_eq:
  assumes "bf_bit_array b \<noteq> []"
  shows "bloom_insert h item b = Inr (bloom_add h b item)"
    and "bf_bit_array (bloom_add h b item) =
      foldl (\<lambda>bs i. bs[bloom_slot h item (length (bf_bit_array b)) i := True]) (bf_bit_array b) [0..<unat (bf_num_hashes b)]"
    and "bf_num_hashes (bloom_add h b item) = bf_num_hashes b"
  using assms by (simp_all add: bloom_insert_def bloom_add_def bloom_insert_loop_eq)

lemma bloom_may_contain_iff:
  "bf_bit_array b \<noteq> [] \<Longrightarrow> bloom_may_contain h b item \<longleftrightarrow>
    (\<forall>i < unat (bf_num_hashes b). bf_bit_array b ! bloom_slot h item (length (bf_bit_array b)) i)"
  by (auto simp: bloom_may_contain_def bloom_contains_def bloom_contains_loop_eq)

lemma bloom_add_size:
  assumes "bf_bit_array b \<noteq> []"
  shows "length (bf_bit_array (bloom_add h b item)) = length (bf_bit_array b)"
  using assms by (simp add: bloom_insert_eq(2))

interpretation blf: membership_filter "bloom_add h" "bloom_may_contain h" "\<lambda>b. bf_bit_array b \<noteq> []" for h
proof
  fix b :: bloom_filter and k k' assume b: "bf_bit_array b \<noteq> []"
  then show b': "bf_bit_array (bloom_add h b k) \<noteq> []" for k using bloom_add_size [OF b, of h k] by auto
  have "bloom_slot h k (length (bf_bit_array b)) i < length (bf_bit_array b)" for i
    using b by (simp add: bloom_slot_def)
  then show "bloom_may_contain h (bloom_add h b k) k"
    using b b' by (auto simp: bloom_may_contain_iff bloom_insert_eq foldl_set_bits)
  show "bloom_may_contain h (bloom_add h b k') k" if "bloom_may_contain h b k"
    using that b b' by (auto simp: bloom_may_contain_iff bloom_insert_eq foldl_set_bits)
qed

fun bloom_insert_all :: "(string \<Rightarrow> u64) \<Rightarrow> string list \<Rightarrow> bloom_filter \<Rightarrow> exn + bloom_filter" where
  "bloom_insert_all h [] b = Inr b"
| "bloom_insert_all h (x # xs) b = rbind (bloom_insert h x b) (bloom_insert_all h xs)"

lemma bloom_insert_all_eq: "bf_bit_array b \<noteq> [] \<Longrightarrow> bloom_insert_all h xs b = Inr (foldl (bloom_add h) b xs)"
  by (induction xs arbitrary: b) (simp_all add: bloom_insert_eq(1) blf.wf_add)

section \<open>Properties\<close>

text \<open>
  C21: whatever the hash function is, a filter with at least one bit never denies an inserted item;
  a new filter with at least one hash function denies everything; and with no bits the first use is
  a division by zero.
\<close>

theorem bloom_filter_correct:
  assumes "0 < num_hashes"
  shows "(0 < sz \<longrightarrow> (\<exists>b. bloom_insert_all h xs (BloomFilterImpl sz num_hashes) = Inr b \<and>
      (\<forall>x \<in> set xs. bloom_contains h x b = Inr True)) \<and>
      bloom_contains h y (BloomFilterImpl sz num_hashes) = Inr False) \<and>
    bloom_insert h y (BloomFilterImpl 0 num_hashes) = Inl (Undefined_behaviour ''division by zero'')"
proof -
  have n: "0 < unat num_hashes" using assms by (simp add: unat_gt_0 word_neq_0_conv)
  then have upt: "[0..<unat num_hashes] = 0 # [1..<unat num_hashes]" by (simp add: upt_rec)
  {
    assume "0 < sz"
    then have ne: "bf_bit_array (BloomFilterImpl sz num_hashes) \<noteq> []" by (auto simp: BloomFilterImpl_def)
    have "\<exists>b. bloom_insert_all h xs (BloomFilterImpl sz num_hashes) = Inr b \<and> (\<forall>x \<in> set xs. bloom_contains h x b = Inr True)"
      using bloom_insert_all_eq [OF ne] blf.add_all_contains [OF ne] by (auto simp: bloom_may_contain_def)
    moreover have "bloom_contains h y (BloomFilterImpl sz num_hashes) = Inr False"
      using ne \<open>0 < sz\<close> n by (auto simp: bloom_contains_def BloomFilterImpl_def bloom_contains_loop_eq bloom_slot_def)
    ultimately have "(\<exists>b. bloom_insert_all h xs (BloomFilterImpl sz num_hashes) = Inr b \<and>
      (\<forall>x \<in> set xs. bloom_contains h x b = Inr True)) \<and> bloom_contains h y (BloomFilterImpl sz num_hashes) = Inr False" ..
  }
  then show ?thesis
    by (simp add: bloom_insert_def BloomFilterImpl_def upt bloom_position_def)
qed

theorem bloom_filter_correct_witness:
  "\<exists>b. bloom_insert_all (\<lambda>s. of_nat (length s)) [''a'', ''bcd''] (BloomFilterImpl 8 2) = Inr b \<and>
    bloom_contains (\<lambda>s. of_nat (length s)) ''bcd'' b = Inr True"
  using bloom_filter_correct [of 2 8 "\<lambda>s. of_nat (length s)" "[''a'', ''bcd'']"] by auto

end
