(* ===== verification/SSTable_Manager.thy ===== *)
theory SSTable_Manager
  imports Level_Manager Bloom
begin

text \<open>
  \<open>SSTableManagerImpl\<close>, the class that \<open>SSTable\<close>, \<open>SSTableWriter\<close> and \<open>SSTableReader\<close> have replaced
  (\<open>archive/src/core/sstable_manager/\<close>).  An object stands for one table file: it is created either
  by writing entries to a new file or for a file that exists, and reads the file on first use.  The
  file is the serialised entries and an eight-byte timestamp.  The hash function of its Bloom filter
  is the argument \<open>h\<close>.
\<close>

section \<open>Helpers (\<open>utils.cpp\<close>)\<close>

definition mgr_generateSSTableFileName :: "world \<Rightarrow> path \<times> world" where
  "mgr_generateSSTableFileName w =
     (let (ns, w1) = read_clock w;
          uniqueId = push_bit 16 ns XOR name_counter w1
      in (''table-'' @ to_string (unat uniqueId), w1\<lparr>name_counter := name_counter w1 + 1\<rparr>))"

definition mgr_createFileIfNotExists :: "path \<Rightarrow> (world, bool) sx" where
  "mgr_createFileIfNotExists fullPath =
     sx_bind (create_directories_or_throw (parent_path fullPath)) (\<lambda>_ w.
       let out = open_trunc fullPath w
       in if \<not> o_good (fst out) then (Inr False, snd out) else (Inr True, snd out))"

definition mgr_serializeEntry :: "endian \<Rightarrow> entry \<Rightarrow> bytes" where
  "mgr_serializeEntry en e =
     (let keyLenNetwork = htonl en (of_nat (length (e_key e)));
          out = host_bytes en 4 keyLenNetwork;
          out = out @ e_key e;
          valLenNetwork = htonl en (of_nat (length (e_val e)));
          out = out @ host_bytes en 4 valLenNetwork;
          out = out @ e_val e
      in out @ [if e_tombstone e then char_of (1::nat) else char_of (0::nat)])"

definition mgr_deserializeEntry :: "endian \<Rightarrow> bytes \<Rightarrow> (entry \<times> nat) option" where
  "mgr_deserializeEntry en data =
     (let size = length data
      in if 0 + 4 > size then None
         else let keyLen = unat (ntohl en (host_value en (take 4 data))); pos = 4
         in if pos + keyLen > size then None
            else let key = take keyLen (drop pos data); pos = pos + keyLen
            in if pos + 4 > size then None
               else let valLen = unat (ntohl en (host_value en (take 4 (drop pos data)))); pos = pos + 4
               in if pos + valLen > size then None
                  else let val = take valLen (drop pos data); pos = pos + valLen
                  in if pos + 1 > size then None
                     else Some (Entry key val (data ! pos \<noteq> char_of (0::nat)), pos + 1))"

definition mgr_writeBinaryToFile :: "path \<Rightarrow> bytes \<Rightarrow> (world, bool) sx" where
  "mgr_writeBinaryToFile p data =
     sx_bind (create_directories_or_throw (parent_path p)) (\<lambda>_ w.
       let out = open_trunc p w
       in if \<not> o_good (fst out) then (Inr False, snd out)
          else (Inr True, snd (owrite data out)))"

definition mgr_readBinaryFromFile :: "path \<Rightarrow> world \<Rightarrow> bytes option" where
  "mgr_readBinaryFromFile filename w =
     (case open_in filename w of
        None \<Rightarrow> None
      | Some inFile \<Rightarrow>
          (let fileSize = length (i_data inFile); d = fst (iread fileSize inFile)
           in Some (d @ replicate (fileSize - length d) (char_of (0::nat)))))"

definition mgr_getTimeNow :: "world \<Rightarrow> u64 \<times> world" where
  "mgr_getTimeNow w = (let (ns, w1) = read_clock w in (ns div 1000000, w1))"

record sstable_file =
  sf_entries :: "entry list"
  sf_timestamp :: u64

lemma mgr_deserializeEntry_pos: "mgr_deserializeEntry en d = Some (e, n) \<Longrightarrow> 0 < n"
  by (auto simp: mgr_deserializeEntry_def Let_def split: if_splits)

function mgr_decode_entries :: "endian \<Rightarrow> bytes \<Rightarrow> nat \<Rightarrow> nat \<Rightarrow> entry list \<Rightarrow> entry list option" where
  "mgr_decode_entries en data sz offset entries =
     (if offset < sz then
        (case mgr_deserializeEntry en (take (sz - offset) (drop offset data)) of
           None \<Rightarrow> None
         | Some (e, bytesRead) \<Rightarrow> mgr_decode_entries en data sz (offset + bytesRead) (entries @ [e]))
      else Some entries)"
  by pat_completeness auto
termination
proof (relation "measure (\<lambda>(en, d, sz, offset, es). sz - offset)", goal_cases)
  case (2 en data sz offset entries pr e n)
  then have "0 < n" by (auto dest: mgr_deserializeEntry_pos)
  with 2 show ?case by auto
qed simp

declare mgr_decode_entries.simps [simp del]

text \<open>A file of one to seven bytes has no room for the timestamp: the copy reads before the buffer.\<close>

definition mgr_decode :: "path \<Rightarrow> world \<Rightarrow> exn + sstable_file option" where
  "mgr_decode filename w =
     (case mgr_readBinaryFromFile filename w of
        None \<Rightarrow> Inr None
      | Some data \<Rightarrow>
          if length data = 0 then Inr None
          else if length data < 8 then Inl (Undefined_behaviour ''copy from before the buffer'')
          else
            (let timestamp = host_value (host_order w) (drop (length data - 8) data)
             in case mgr_decode_entries (host_order w) data (length data - 8) 0 [] of
                  None \<Rightarrow> Inr None
                | Some entries \<Rightarrow> Inr (Some \<lparr>sf_entries = entries, sf_timestamp = timestamp\<rparr>)))"

section \<open>The object\<close>

text \<open>The constructor for an existing file leaves \<open>m_file_number\<close> without a value.\<close>

record sst_manager =
  sm_ssTableFile :: "sstable_file option"
  sm_bloomFilter :: bloom_filter
  sm_directoryPath :: path
  sm_fname :: string
  sm_fullPath :: path
  sm_initialized :: bool
  sm_file_number :: "u64 option"

definition mgr_readFileToMemory :: "world \<Rightarrow> (sst_manager, error option) sx" where
  "mgr_readFileToMemory w m =
     (if sm_ssTableFile m = None
      then (case mgr_decode (sm_fullPath m) w of
              Inl ex \<Rightarrow> (Inl ex, m)
            | Inr None \<Rightarrow> (Inr (Some (Error ''Failed to read file to memory'')), m)
            | Inr (Some f) \<Rightarrow> (Inr None, m\<lparr>sm_ssTableFile := Some f\<rparr>))
      else (Inr None, m))"

text \<open>The entries come as pointers; \<open>None\<close> is a null pointer.\<close>

fun mgr_collect :: "endian \<Rightarrow> entry option list \<Rightarrow> entry list \<Rightarrow> bytes \<Rightarrow> (entry list \<times> bytes) option" where
  "mgr_collect en [] entries writeData = Some (entries, writeData)"
| "mgr_collect en (None # ps) entries writeData = None"
| "mgr_collect en (Some e # ps) entries writeData = mgr_collect en ps (entries @ [e]) (writeData @ mgr_serializeEntry en e)"

definition mgr_writeEntriesToFile ::
  "entry option list \<Rightarrow> path \<Rightarrow> (sst_manager \<times> world, error option) sx" where
  "mgr_writeEntriesToFile entryPtrs fname s =
     (case s of (m, w) \<Rightarrow>
        let (timestamp, w1) = mgr_getTimeNow w
        in case mgr_collect (host_order w1) entryPtrs [] [] of
             None \<Rightarrow> (Inr (Some (Error ''Failed to write to SSTable'')), (m, w1))
           | Some (entries, writeData) \<Rightarrow>
               (case mgr_writeBinaryToFile fname (writeData @ host_bytes (host_order w1) 8 timestamp) w1 of
                  (Inl ex, w2) \<Rightarrow> (Inl ex, (m, w2))
                | (Inr False, w2) \<Rightarrow> (Inr (Some (Error ''Failed to write to SSTable'')), (m, w2))
                | (Inr True, w2) \<Rightarrow>
                    (Inr None, (m\<lparr>sm_ssTableFile := Some \<lparr>sf_entries = entries, sf_timestamp = timestamp\<rparr>\<rparr>, w2))))"

definition mgr_init :: "(string \<Rightarrow> u64) \<Rightarrow> world \<Rightarrow> (sst_manager, error option) sx" where
  "mgr_init h w =
     sx_bind (mgr_readFileToMemory w) (\<lambda>err.
       case err of
         Some e \<Rightarrow> sx_return (Some e)
       | None \<Rightarrow> (\<lambda>m.
           case bloom_insert_all h (map e_key (case sm_ssTableFile m of None \<Rightarrow> [] | Some f \<Rightarrow> sf_entries f)) (sm_bloomFilter m) of
             Inl ex \<Rightarrow> (Inl ex, m)
           | Inr b \<Rightarrow> (Inr None, m\<lparr>sm_bloomFilter := b, sm_initialized := True\<rparr>)))"

section \<open>Constructors\<close>

text \<open>
  The first writes a new file; the results of its two calls are not looked at.  Its state is the
  allocator of file numbers and the world.
\<close>

definition mgr_create ::
  "path \<Rightarrow> entry option list \<Rightarrow> (u64 \<times> world, sst_manager) sx" where
  "mgr_create directoryPath entries s =
     (case s of (next_file, w) \<Rightarrow>
        let (file_num, next_file') = file_number_next next_file;
            (fname, w1) = mgr_generateSSTableFileName w;
            fullPath = directoryPath @ ''/'' @ fname;
            m = \<lparr>sm_ssTableFile = None, sm_bloomFilter = BloomFilterImpl 1000 7, sm_directoryPath = directoryPath,
                 sm_fname = [], sm_fullPath = fullPath, sm_initialized = False, sm_file_number = Some file_num\<rparr>
        in case mgr_createFileIfNotExists fullPath w1 of
             (Inl ex, w2) \<Rightarrow> (Inl ex, (next_file', w2))
           | (Inr _, w2) \<Rightarrow>
               (case mgr_writeEntriesToFile entries fullPath (m, w2) of
                  (Inl ex, (_, w3)) \<Rightarrow> (Inl ex, (next_file', w3))
                | (Inr _, (m', w3)) \<Rightarrow> (Inr m', (next_file', w3))))"

definition mgr_existing :: "path \<Rightarrow> string \<Rightarrow> sst_manager" where
  "mgr_existing directoryPath fileName =
     \<lparr>sm_ssTableFile = None, sm_bloomFilter = BloomFilterImpl 1000 7, sm_directoryPath = directoryPath,
      sm_fname = fileName, sm_fullPath = directoryPath @ ''/'' @ fileName, sm_initialized = False, sm_file_number = None\<rparr>"

section \<open>Operations\<close>

text \<open>Access to \<open>m_ssTableFile\<close>, a pointer that may be null.\<close>

definition mgr_file :: "sst_manager \<Rightarrow> exn + sstable_file" where
  "mgr_file m = (case sm_ssTableFile m of None \<Rightarrow> Inl (Undefined_behaviour ''null pointer'') | Some f \<Rightarrow> Inr f)"

text \<open>Every operation reads the file first when that was not done; \<open>None\<close> is a failure to do so.\<close>

definition mgr_ensure :: "(string \<Rightarrow> u64) \<Rightarrow> world \<Rightarrow> (sst_manager, error option) sx" where
  "mgr_ensure h w m = (if \<not> sm_initialized m then mgr_init h w m else (Inr None, m))"

text \<open>The search is the loop of \<open>SSTable::get\<close>, \<^const>\<open>sstable_search\<close>.\<close>

definition mgr_get :: "(string \<Rightarrow> u64) \<Rightarrow> world \<Rightarrow> string \<Rightarrow> (sst_manager, entry option) sx" where
  "mgr_get h w key =
     sx_bind (mgr_ensure h w) (\<lambda>err.
       case err of
         Some _ \<Rightarrow> sx_return None
       | None \<Rightarrow> (\<lambda>m.
           (rbind (mgr_file m) (\<lambda>f.
              if length (sf_entries f) = 0 then Inr None
              else sstable_search (sf_entries f) key 0 (int_of_size (int (length (sf_entries f)) - 1))), m)))"

definition mgr_getFileNumber :: "sst_manager \<Rightarrow> exn + u64" where
  "mgr_getFileNumber m =
     (case sm_file_number m of None \<Rightarrow> Inl (Undefined_behaviour ''indeterminate value'') | Some n \<Rightarrow> Inr n)"

definition mgr_getTimestamp :: "(string \<Rightarrow> u64) \<Rightarrow> world \<Rightarrow> (sst_manager, u64 option) sx" where
  "mgr_getTimestamp h w =
     sx_bind (mgr_ensure h w) (\<lambda>err.
       case err of
         Some _ \<Rightarrow> sx_return None
       | None \<Rightarrow> (\<lambda>m. (rbind (mgr_file m) (\<lambda>f. Inr (Some (sf_timestamp f))), m)))"

definition mgr_getEntries :: "(string \<Rightarrow> u64) \<Rightarrow> world \<Rightarrow> (sst_manager, entry list option) sx" where
  "mgr_getEntries h w =
     sx_bind (mgr_ensure h w) (\<lambda>err.
       case err of
         Some _ \<Rightarrow> sx_return None
       | None \<Rightarrow> (\<lambda>m. (rbind (mgr_file m) (\<lambda>f. Inr (Some (sf_entries f))), m)))"

definition mgr_getFullPath :: "sst_manager \<Rightarrow> path" where
  "mgr_getFullPath m = sm_fullPath m"

text \<open>\<open>getStartKey\<close> drops the result of \<open>_init\<close>; \<open>getEndKey\<close> does not initialise at all.\<close>

definition mgr_getStartKey :: "(string \<Rightarrow> u64) \<Rightarrow> world \<Rightarrow> (sst_manager, string option) sx" where
  "mgr_getStartKey h w =
     sx_bind (mgr_ensure h w) (\<lambda>_ m.
       (rbind (mgr_file m) (\<lambda>f.
          if length (sf_entries f) = 0 then Inr None
          else rbind (vec_at (sf_entries f) 0) (\<lambda>e. Inr (Some (e_key e)))), m))"

definition mgr_getEndKey :: "sst_manager \<Rightarrow> exn + string option" where
  "mgr_getEndKey m =
     (if \<not> sm_initialized m then Inr None
      else rbind (mgr_file m) (\<lambda>f.
        if length (sf_entries f) = 0 then Inr None
        else rbind (vec_at (sf_entries f) (int (length (sf_entries f)) - 1)) (\<lambda>e. Inr (Some (e_key e)))))"

definition mgr_contains :: "(string \<Rightarrow> u64) \<Rightarrow> world \<Rightarrow> string \<Rightarrow> (sst_manager, bool) sx" where
  "mgr_contains h w key =
     sx_bind (mgr_ensure h w) (\<lambda>err.
       case err of
         Some _ \<Rightarrow> sx_return False
       | None \<Rightarrow> (\<lambda>m. (bloom_contains h key (sm_bloomFilter m), m)))"

section \<open>Agreement with the classes that replaced it\<close>

lemma mgr_serializeEntry_eq: "mgr_serializeEntry = serializeEntry"
  by (simp add: fun_eq_iff mgr_serializeEntry_def serializeEntry_def tombstone_byte_def Let_def)

lemma mgr_deserializeEntry_eq:
  "mgr_deserializeEntry en d = (case deserializeEntry en d of Inl _ \<Rightarrow> None | Inr x \<Rightarrow> Some x)"
  by (simp add: mgr_deserializeEntry_def deserializeEntry_def Let_def)

lemma mgr_file_io_eq:
  "mgr_writeBinaryToFile = writeBinaryToFile" "mgr_readBinaryFromFile = readBinaryFromFile"
  "mgr_createFileIfNotExists = createFileIfNotExists"
  by (simp_all add: fun_eq_iff mgr_writeBinaryToFile_def writeBinaryToFile_def mgr_readBinaryFromFile_def
      readBinaryFromFile_def mgr_createFileIfNotExists_def createFileIfNotExists_def sx_bind_def Let_def
      split: prod.splits sum.splits)

lemma mgr_names_eq: "mgr_generateSSTableFileName = generateSSTableFileName" "mgr_getTimeNow = getTimeNow"
  by (simp_all add: fun_eq_iff mgr_generateSSTableFileName_def generateSSTableFileName_def mgr_getTimeNow_def getTimeNow_def)

text \<open>The archived loop has no counter, so it agrees with the reader where that one does not overflow.\<close>

lemma mgr_decode_entries_eq:
  "sstable_read_entries en d sz off i es = Inr fs \<Longrightarrow> mgr_decode_entries en d sz off es = Some fs"
proof (induction en d sz off i es rule: sstable_read_entries.induct)
  case (1 en d sz off i es)
  then show ?case
    by (subst mgr_decode_entries.simps, subst (asm) (2) sstable_read_entries.simps)
       (auto simp: mgr_deserializeEntry_eq split: sum.splits if_splits)
qed

lemma mgr_collect_all:
  "mgr_collect en (map Some es) acc d = Some (acc @ es, d @ concat (map (serializeEntry en) es))"
  by (induction es arbitrary: acc d) (simp_all add: mgr_serializeEntry_eq)

section \<open>Reading what was written\<close>

definition mgr_bytes :: "endian \<Rightarrow> entry list \<Rightarrow> u64 \<Rightarrow> bytes" where
  "mgr_bytes en es ts = concat (map (serializeEntry en) es) @ host_bytes en 8 ts"

lemma mgr_decode_written:
  assumes "healthy w" and "content w p = Some (mgr_bytes (host_order w) es ts)" and "\<forall>e \<in> set es. entry_fits e"
    and "length es < 2 ^ 31"
  shows "mgr_decode p w = Inr (Some \<lparr>sf_entries = es, sf_timestamp = ts\<rparr>)"
proof -
  let ?en = "host_order w"
  let ?b = "concat (map (serializeEntry ?en) es)" and ?d = "mgr_bytes ?en es ts"
  have len: "length ?d = length ?b + 8" by (simp add: mgr_bytes_def)
  have "mgr_decode_entries ?en ?d (length ?d - 8) 0 [] = Some es"
    using sstable_read_entries_serialized [of es ?d "[]" ?en _ _ 0 "[]", OF assms(3)] len assms(4)
    by (intro mgr_decode_entries_eq [where i = 0]) (simp add: mgr_bytes_def)
  moreover have "drop (length ?d - 8) ?d = host_bytes ?en 8 ts" by (simp add: mgr_bytes_def)
  ultimately show ?thesis
    using len assms(1,2) by (simp add: mgr_decode_def mgr_file_io_eq readBinaryFromFile_healthy Let_def)
qed

text \<open>
  The state of an object for a table with the entries \<open>es\<close>: before its first use, with the entries in
  memory or still in the file, and after it.
\<close>

definition mgr_holds :: "(string \<Rightarrow> u64) \<Rightarrow> world \<Rightarrow> entry list \<Rightarrow> u64 \<Rightarrow> sst_manager \<Rightarrow> bool" where
  "mgr_holds h w es ts m \<longleftrightarrow>
     (if sm_initialized m
      then sm_ssTableFile m = Some \<lparr>sf_entries = es, sf_timestamp = ts\<rparr> \<and>
        bf_bit_array (sm_bloomFilter m) \<noteq> [] \<and> (\<forall>e \<in> set es. bloom_contains h (e_key e) (sm_bloomFilter m) = Inr True)
      else sm_bloomFilter m = BloomFilterImpl 1000 7 \<and>
        (sm_ssTableFile m = Some \<lparr>sf_entries = es, sf_timestamp = ts\<rparr> \<or>
         sm_ssTableFile m = None \<and> mgr_decode (sm_fullPath m) w = Inr (Some \<lparr>sf_entries = es, sf_timestamp = ts\<rparr>)))"

lemma mgr_ensure_holds:
  assumes "mgr_holds h w es ts m"
  shows "\<exists>m'. mgr_ensure h w m = (Inr None, m') \<and> mgr_holds h w es ts m' \<and> sm_initialized m'"
proof (cases "sm_initialized m")
  case True
  then show ?thesis using assms by (simp add: mgr_ensure_def)
next
  case False
  let ?f = "\<lparr>sf_entries = es, sf_timestamp = ts\<rparr>"
  let ?b = "foldl (bloom_add h) (BloomFilterImpl 1000 7) (map e_key es)"
  have ne: "bf_bit_array (BloomFilterImpl 1000 7) \<noteq> []" by (auto simp: BloomFilterImpl_def)
  have read: "mgr_readFileToMemory w m = (Inr None, m\<lparr>sm_ssTableFile := Some ?f\<rparr>)"
    using assms False by (auto simp: mgr_holds_def mgr_readFileToMemory_def)
  moreover have "sm_bloomFilter m = BloomFilterImpl 1000 7" using assms False by (simp add: mgr_holds_def)
  ultimately have "mgr_ensure h w m = (Inr None, m\<lparr>sm_ssTableFile := Some ?f, sm_bloomFilter := ?b, sm_initialized := True\<rparr>)"
    using False bloom_insert_all_eq [OF ne] by (simp add: mgr_ensure_def mgr_init_def sx_simps)
  moreover have "bf_bit_array ?b \<noteq> []" by (rule blf.wf_add_all [OF ne])
  moreover have "bloom_contains h (e_key e) ?b = Inr True" if "e \<in> set es" for e
    using blf.add_all_contains [OF ne, of "e_key e" "map e_key es" h] that by (simp add: bloom_may_contain_def)
  ultimately show ?thesis by (simp add: mgr_holds_def)
qed

text \<open>What the operations of such an object return; all of them keep the property.\<close>

lemma mgr_operations_hold:
  assumes "mgr_holds h w es ts m"
  shows "\<exists>m'. mgr_holds h w es ts m' \<and> mgr_getEntries h w m = (Inr (Some es), m') \<and> mgr_getTimestamp h w m = (Inr (Some ts), m') \<and>
    mgr_getStartKey h w m = (Inr (case es of [] \<Rightarrow> None | e # _ \<Rightarrow> Some (e_key e)), m') \<and>
    mgr_getEndKey m' = Inr (if es = [] then None else Some (e_key (last es))) \<and>
    (\<forall>e \<in> set es. mgr_contains h w (e_key e) m = (Inr True, m')) \<and>
    (sorted_keys e_key es \<and> length es < 2 ^ 31 \<longrightarrow> (\<forall>k. mgr_get h w k m = (Inr (find_key e_key k es), m')))"
proof -
  obtain m' where m': "mgr_ensure h w m = (Inr None, m')" "mgr_holds h w es ts m'" "sm_initialized m'"
    using mgr_ensure_holds [OF assms] by blast
  then have f: "mgr_file m' = Inr \<lparr>sf_entries = es, sf_timestamp = ts\<rparr>"
      and c: "\<forall>e \<in> set es. bloom_contains h (e_key e) (sm_bloomFilter m') = Inr True"
    by (simp_all add: mgr_holds_def mgr_file_def)
  have "mgr_get h w k m = (Inr (find_key e_key k es), m')" if "sorted_keys e_key es" "length es < 2 ^ 31" for k
  proof (cases "es = []")
    case False
    then have "sstable_search es k 0 (int (length es) - 1) = Inr (find_key e_key k es)"
      using that(1) by (intro sstable_search_correct narrowed_init) simp_all
    then show ?thesis
      using m'(1) f that(2) False by (simp add: mgr_get_def sx_simps int_of_size_small)
  qed (use m'(1) f in \<open>simp add: mgr_get_def sx_simps\<close>)
  moreover have "mgr_getEndKey m' = Inr (if es = [] then None else Some (e_key (last es)))"
    using m'(3) f vec_at_last [of es] by (auto simp: mgr_getEndKey_def simp del: vec_at_in)
  moreover have "mgr_getStartKey h w m = (Inr (case es of [] \<Rightarrow> None | e # _ \<Rightarrow> Some (e_key e)), m')"
    using m'(1) f by (cases es) (simp_all add: mgr_getStartKey_def sx_simps)
  ultimately show ?thesis
    using m'(1,2) f c by (intro exI [of _ m']) (simp add: mgr_getEntries_def mgr_getTimestamp_def mgr_contains_def sx_simps)
qed

lemma mgr_create_writes:
  assumes "healthy w"
  shows "\<exists>m w' ts. mgr_create d (map Some es) (n, w) = (Inr m, (n + 1, w')) \<and>
    healthy w' \<and> host_order w' = host_order w \<and> sm_fullPath m = d @ ''/'' @ fst (mgr_generateSSTableFileName w) \<and>
    sm_file_number m = Some n \<and> \<not> sm_initialized m \<and> sm_bloomFilter m = BloomFilterImpl 1000 7 \<and>
    sm_ssTableFile m = Some \<lparr>sf_entries = es, sf_timestamp = ts\<rparr> \<and>
    content w' (sm_fullPath m) = Some (mgr_bytes (host_order w) es ts)"
proof -
  obtain fname w1 where n: "mgr_generateSSTableFileName w = (fname, w1)" by fastforce
  then have w1: "healthy w1" "host_order w1 = host_order w"
    using assms by (auto simp: mgr_generateSSTableFileName_def read_clock_def healthy_def)
  let ?p = "d @ ''/'' @ fname"
  have "fs_mkdir_error w1 (parent_path ?p) = None" "fs_openable w1 ?p" using w1(1) by (simp_all add: healthy_def)
  then have "createFileIfNotExists ?p w1 = (Inr True, set_file ?p [] (mkdir_all (parent_path ?p) w1))"
    using can_create_mkdir mkdir_ok(1) by (simp add: createFileIfNotExists_def sx_simps open_trunc_def)
  then obtain w2 where w2: "createFileIfNotExists ?p w1 = (Inr True, w2)" "healthy w2" "host_order w2 = host_order w"
    using w1 by simp
  obtain ts w3 where t: "mgr_getTimeNow w2 = (ts, w3)" by fastforce
  then have w3: "healthy w3" "host_order w3 = host_order w"
    using w2(2,3) by (auto simp: mgr_getTimeNow_def read_clock_def healthy_def)
  then have "writeBinaryToFile ?p (mgr_bytes (host_order w) es ts) w3 =
      (Inr True, set_file ?p (mgr_bytes (host_order w) es ts) (mkdir_all (parent_path ?p) w3))"
    using writeBinaryToFile_ok [of w3 ?p] by (simp add: healthy_def accepted_def)
  then show ?thesis
    using n w2(1) t w3
    by (simp add: mgr_create_def file_number_next_def mgr_file_io_eq mgr_writeEntriesToFile_def mgr_collect_all
        mgr_bytes_def [symmetric] Let_def)
qed

text \<open>The files on which the decoder has undefined behaviour are those too short for the timestamp.\<close>

lemma mgr_decode_undefined_iff:
  "(\<exists>m. mgr_decode p w = Inl (Undefined_behaviour m)) \<longleftrightarrow>
     (\<exists>d. content w p = Some d \<and> fs_openable w p \<and> 0 < length d \<and> length d < 8)"
proof -
  have "(\<exists>m. mgr_decode p w = Inl (Undefined_behaviour m)) \<longleftrightarrow>
      (\<exists>d. readBinaryFromFile p w = Some d \<and> 0 < length d \<and> length d < 8)"
    by (auto simp: mgr_decode_def mgr_file_io_eq Let_def split: option.splits)
  then show ?thesis using readBinaryFromFile_length [of p w "\<lambda>n. 0 < n \<and> n < 8"] by simp
qed

text \<open>A sequence of lookups on one object.\<close>

fun mgr_gets :: "(string \<Rightarrow> u64) \<Rightarrow> world \<Rightarrow> string list \<Rightarrow> (sst_manager, entry option list) sx" where
  "mgr_gets h w [] = sx_return []"
| "mgr_gets h w (k # ks) = sx_bind (mgr_get h w k) (\<lambda>e. sx_bind (mgr_gets h w ks) (\<lambda>es. sx_return (e # es)))"

lemma mgr_gets_hold:
  assumes "mgr_holds h w es ts m" and "sorted_keys e_key es" and "length es < 2 ^ 31"
  shows "\<exists>m'. mgr_gets h w ks m = (Inr (map (\<lambda>k. find_key e_key k es) ks), m') \<and> mgr_holds h w es ts m'"
  using assms(1)
proof (induction ks arbitrary: m)
  case (Cons k ks)
  obtain m1 where m1: "mgr_get h w k m = (Inr (find_key e_key k es), m1)" "mgr_holds h w es ts m1"
    using mgr_operations_hold [OF Cons.prems] assms(2,3) by blast
  then show ?case using Cons.IH [OF m1(2)] by (auto simp: sx_simps)
qed (simp add: sx_simps)

section \<open>Properties\<close>

text \<open>
  C37: a table file written by the archived class can be used through the object that wrote it and
  through an object made for the file: every sequence of lookups answers as the sorted entries do,
  and the Bloom filter denies no key of the table, whatever the hash function.
\<close>

theorem manager_serves_file:
  assumes "healthy w" and "sorted_keys e_key es" and "length es < 2 ^ 31" and "\<forall>e \<in> set es. entry_fits e"
  shows "\<exists>m n' w'. mgr_create d (map Some es) (n, w) = (Inr m, (n', w')) \<and>
    (\<forall>m0 \<in> {m, mgr_existing d (fst (mgr_generateSSTableFileName w))}.
      fst (mgr_gets h w' ks m0) = Inr (map (\<lambda>k. find_key e_key k es) ks) \<and>
      fst (mgr_getEntries h w' m0) = Inr (Some es) \<and>
      (\<forall>e \<in> set es. fst (mgr_contains h w' (e_key e) m0) = Inr True))"
proof -
  obtain m w' ts where c: "mgr_create d (map Some es) (n, w) = (Inr m, (n + 1, w'))" "healthy w'" "host_order w' = host_order w"
      "sm_fullPath m = d @ ''/'' @ fst (mgr_generateSSTableFileName w)" "\<not> sm_initialized m" "sm_bloomFilter m = BloomFilterImpl 1000 7"
      "sm_ssTableFile m = Some \<lparr>sf_entries = es, sf_timestamp = ts\<rparr>" "content w' (sm_fullPath m) = Some (mgr_bytes (host_order w) es ts)"
    using mgr_create_writes [OF assms(1)] by blast
  have "mgr_decode (sm_fullPath m) w' = Inr (Some \<lparr>sf_entries = es, sf_timestamp = ts\<rparr>)"
    using c(2,3,8) assms(3,4) by (intro mgr_decode_written) simp_all
  then have "mgr_holds h w' es ts m" "mgr_holds h w' es ts (mgr_existing d (fst (mgr_generateSSTableFileName w)))"
    using c by (simp_all add: mgr_holds_def mgr_existing_def)
  then have "fst (mgr_gets h w' ks m0) = Inr (map (\<lambda>k. find_key e_key k es) ks) \<and> fst (mgr_getEntries h w' m0) = Inr (Some es) \<and>
      (\<forall>e \<in> set es. fst (mgr_contains h w' (e_key e) m0) = Inr True)"
    if "m0 \<in> {m, mgr_existing d (fst (mgr_generateSSTableFileName w))}" for m0
    using that mgr_gets_hold [of h w' es ts m0 ks] mgr_operations_hold [of h w' es ts m0] assms(2,3) by auto
  then show ?thesis using c(1) by blast
qed

theorem manager_serves_file_witness:
  "\<exists>m n' w'. mgr_create ''d'' [Some (Entry ''a'' ''1'' False), Some (Entry ''b'' [] True)] (5, fresh_world) = (Inr m, (n', w')) \<and>
    fst (mgr_gets (\<lambda>s. of_nat (length s)) w' [''b'', ''c''] (mgr_existing ''d'' (fst (mgr_generateSSTableFileName fresh_world)))) =
      Inr [Some (Entry ''b'' [] True), None]"
  using manager_serves_file [of fresh_world "[Entry ''a'' ''1'' False, Entry ''b'' [] True]" "''d''" 5 "\<lambda>s. of_nat (length s)" "[''b'', ''c'']"]
  by (auto simp: entry_fits_def simp del: mgr_gets.simps)

text \<open>
  The error behaviour of an object for an existing file is not uniform.  For a file that cannot
  be read, \<open>get\<close>, \<open>getEntries\<close> and \<open>contains\<close> report nothing found, \<open>getStartKey\<close> follows a null
  pointer, and \<open>getFileNumber\<close> reads a field that was never set.
\<close>

theorem manager_errors_differ:
  assumes "mgr_decode (d @ ''/'' @ f) w = Inr None"
  shows "fst (mgr_get h w k (mgr_existing d f)) = Inr None \<and> fst (mgr_getEntries h w (mgr_existing d f)) = Inr None \<and>
    fst (mgr_contains h w k (mgr_existing d f)) = Inr False \<and>
    fst (mgr_getStartKey h w (mgr_existing d f)) = Inl (Undefined_behaviour ''null pointer'') \<and>
    mgr_getFileNumber (mgr_existing d f) = Inl (Undefined_behaviour ''indeterminate value'')"
proof -
  have "mgr_ensure h w (mgr_existing d f) = (Inr (Some (Error ''Failed to read file to memory'')), mgr_existing d f)"
    using assms by (simp add: mgr_ensure_def mgr_init_def mgr_readFileToMemory_def mgr_existing_def sx_simps)
  then show ?thesis
    by (simp add: mgr_get_def mgr_getEntries_def mgr_contains_def mgr_getStartKey_def mgr_getFileNumber_def mgr_file_def sx_simps)
       (simp add: mgr_existing_def)
qed

theorem manager_errors_differ_witness:
  "fst (mgr_get (\<lambda>_. 0) fresh_world ''k'' (mgr_existing ''d'' ''t'')) = Inr None \<and>
   fst (mgr_getStartKey (\<lambda>_. 0) fresh_world (mgr_existing ''d'' ''t'')) = Inl (Undefined_behaviour ''null pointer'')"
proof -
  have "mgr_decode (''d'' @ ''/'' @ ''t'') fresh_world = Inr None"
    by (simp add: mgr_decode_def mgr_readBinaryFromFile_def open_in_def)
  from manager_errors_differ [OF this] show ?thesis by simp
qed

end
