(* ===== verification/Bench.thy ===== *)
theory Bench
  imports Db
begin

text \<open>
  The workloads of \<open>bench/bench_minimum.cpp\<close> and \<open>bench/bench_read_heavy.cpp\<close> on the store.  The
  benchmark library decides how many iterations a workload runs: their number is an argument.  Times
  and counters of the library are left out; what a workload checks and what it counts itself is
  kept.  Sizes and indices are natural numbers: the arguments the workloads are registered with are
  positive.
\<close>

section \<open>Keys, values and directories\<close>

definition makeKey :: "nat \<Rightarrow> string" where
  "makeKey index = (let n = to_string index in ''key-'' @ replicate (12 - min 12 (length n)) (CHR ''0'') @ n)"

definition makeMissingKey :: "nat \<Rightarrow> string" where
  "makeMissingKey index = (let n = to_string index in ''missing-'' @ replicate (8 - min 8 (length n)) (CHR ''0'') @ n)"

definition makeValue :: "nat \<Rightarrow> nat \<Rightarrow> string" where
  "makeValue valueSize seed = replicate valueSize (char_of (97 + seed mod 26))"

record bench_paths =
  bp_root :: path
  bp_wal :: path
  bp_sstables :: path

definition makePaths :: "string \<Rightarrow> nat \<Rightarrow> nat \<Rightarrow> bench_paths" where
  "makePaths name range0 range1 =
     (let root = ''bench/run-data/minimum'' @ ''/'' @ name @ ''-'' @ to_string range0 @ ''-'' @ to_string range1
      in \<lparr>bp_root = root, bp_wal = root @ ''/wal'', bp_sstables = root @ ''/sstables''\<rparr>)"

text \<open>\<open>std::filesystem::remove_all\<close>, with the error code dropped: what cannot be removed stays.\<close>

definition below :: "path \<Rightarrow> path \<Rightarrow> bool" where
  "below root p \<longleftrightarrow> p = root \<or> take (length root + 1) p = root @ ''/''"

definition remove_all :: "path \<Rightarrow> world \<Rightarrow> world" where
  "remove_all root w =
     w\<lparr>fs_files := filter (\<lambda>f. \<not> below root (fst f) \<or> fs_remove_error w (fst f) \<noteq> None) (fs_files w),
       fs_dirs := filter (\<lambda>d. \<not> below root d \<or> fs_remove_error w d \<noteq> None) (fs_dirs w)\<rparr>"

definition resetPaths :: "bench_paths \<Rightarrow> world \<Rightarrow> world" where
  "resetPaths paths w = mkdir_all (bp_sstables paths) (mkdir_all (bp_wal paths) (remove_all (bp_root paths) w))"

definition cleanupPaths :: "bench_paths \<Rightarrow> world \<Rightarrow> world" where
  "cleanupPaths paths w = remove_all (bp_root paths) w"

definition makeConfig :: "bench_paths \<Rightarrow> db_config" where
  "makeConfig paths =
     DbFactoryConfig\<lparr>cfg_memtableCapacity := 1024, cfg_walDirectory := bp_wal paths,
       cfg_sstableDirectory := bp_sstables paths, cfg_walId := 0\<rparr>"

definition kRandomStep :: nat where
  "kRandomStep = 97"

text \<open>The cursor of the workloads in random order: its successive values.\<close>

fun cursors :: "nat \<Rightarrow> nat \<Rightarrow> nat \<Rightarrow> nat list" where
  "cursors keyCount c 0 = []"
| "cursors keyCount c (Suc n) = (let c' = (c + kRandomStep) mod keyCount in c' # cursors keyCount c' n)"

section \<open>Workloads\<close>

datatype bench_outcome = Completed | SkippedWithError string

text \<open>\<open>requireOk\<close> throws; \<open>preloadDataset\<close> writes all keys and flushes.\<close>

definition requireOk :: "response \<Rightarrow> string \<Rightarrow> exn + unit" where
  "requireOk r message = (if \<not> res_ok r then Inl (Runtime_error message) else Inr ())"

fun preload_loop :: "(nat \<Rightarrow> string) \<Rightarrow> nat \<Rightarrow> nat list \<Rightarrow> (db, unit) sx" where
  "preload_loop key valueSize [] = sx_return ()"
| "preload_loop key valueSize (i # is) =
     sx_bind (db_put (key i) (makeValue valueSize i)) (\<lambda>r s.
       case requireOk r ''failed to preload benchmark dataset'' of
         Inl ex \<Rightarrow> (Inl ex, s)
       | Inr _ \<Rightarrow> preload_loop key valueSize is s)"

definition preloadDataset :: "nat \<Rightarrow> nat \<Rightarrow> (db, unit) sx" where
  "preloadDataset keyCount valueSize =
     sx_bind (preload_loop makeKey valueSize [0..<keyCount]) (\<lambda>_.
     sx_bind db_forceFlushForTests (\<lambda>r s. (requireOk r ''failed to flush benchmark dataset'', s)))"

text \<open>The inner loop of the write workloads: it stops at the first answer that is not ok.\<close>

fun put_loop :: "string \<Rightarrow> nat \<Rightarrow> (nat \<Rightarrow> nat) \<Rightarrow> nat list \<Rightarrow> (db, bench_outcome) sx" where
  "put_loop msg valueSize seed [] = sx_return Completed"
| "put_loop msg valueSize seed (i # is) =
     sx_bind (db_put (makeKey i) (makeValue valueSize (seed i))) (\<lambda>r.
       if \<not> res_ok r then sx_return (SkippedWithError msg) else put_loop msg valueSize seed is)"

text \<open>One iteration of \<open>BM_PutSequential\<close> and \<open>BM_PutRandom\<close>; the store is destroyed at its end.\<close>

definition BM_PutSequential :: "nat \<Rightarrow> nat \<Rightarrow> (world, bench_outcome) sx" where
  "BM_PutSequential keyCount valueSize w =
     (let paths = makePaths ''put-sequential'' keyCount valueSize;
          db = createDbWithConfig (makeConfig paths) (resetPaths paths w)
      in case put_loop ''PUT failed during sequential write benchmark'' valueSize (\<lambda>i. i) [0..<keyCount] db of
           (r, s) \<Rightarrow> (r, db_world s))"

definition BM_PutRandom :: "nat \<Rightarrow> nat \<Rightarrow> (world, bench_outcome) sx" where
  "BM_PutRandom keyCount valueSize w =
     (let paths = makePaths ''put-random'' keyCount valueSize;
          db = createDbWithConfig (makeConfig paths) (resetPaths paths w)
      in case put_loop ''PUT failed during random write benchmark'' valueSize (\<lambda>i. i) (cursors keyCount 0 keyCount) db of
           (r, s) \<Rightarrow> (r, db_world s))"

text \<open>The read workloads; the number is \<open>bytesRead\<close>.\<close>

fun hit_loop :: "string \<Rightarrow> (nat \<Rightarrow> string) \<Rightarrow> nat list \<Rightarrow> nat \<Rightarrow> db \<Rightarrow> exn + bench_outcome \<times> nat" where
  "hit_loop msg key [] bytesRead s = Inr (Completed, bytesRead)"
| "hit_loop msg key (c # cs) bytesRead s =
     rbind (db_get (key c) s) (\<lambda>response.
       case res_data response of
         Some d \<Rightarrow> if res_ok response then hit_loop msg key cs (bytesRead + length d) s else Inr (SkippedWithError msg, bytesRead)
       | None \<Rightarrow> Inr (SkippedWithError msg, bytesRead))"

fun miss_loop :: "nat list \<Rightarrow> db \<Rightarrow> exn + bench_outcome" where
  "miss_loop [] s = Inr Completed"
| "miss_loop (c # cs) s =
     rbind (db_get (makeMissingKey c) s) (\<lambda>response.
       if res_ok response \<or> res_data response \<noteq> None then Inr (SkippedWithError ''GET miss unexpectedly found a key'')
       else miss_loop cs s)"

text \<open>The set-up the workloads on a loaded store share, and their end.\<close>

definition on_preloaded ::
  "string \<Rightarrow> nat \<Rightarrow> nat \<Rightarrow> (db, 'a) sx \<Rightarrow> (world, 'a) sx" where
  "on_preloaded name keyCount valueSize body w =
     (let paths = makePaths name keyCount valueSize
      in case preloadDataset keyCount valueSize (createDbWithConfig (makeConfig paths) (resetPaths paths w)) of
           (Inl ex, s) \<Rightarrow> (Inl ex, db_world s)
         | (Inr _, s) \<Rightarrow>
             (case body s of
                (Inl ex, s') \<Rightarrow> (Inl ex, db_world s')
              | (Inr r, s') \<Rightarrow> (Inr r, cleanupPaths paths (db_world s'))))"

definition BM_GetExistingRandom :: "nat \<Rightarrow> nat \<Rightarrow> nat \<Rightarrow> (world, bench_outcome \<times> nat) sx" where
  "BM_GetExistingRandom iterations keyCount valueSize =
     on_preloaded ''get-existing-random'' keyCount valueSize
       (\<lambda>s. (hit_loop ''GET hit failed during benchmark'' makeKey (cursors keyCount 0 iterations) 0 s, s))"

definition BM_GetMissingRandom :: "nat \<Rightarrow> nat \<Rightarrow> nat \<Rightarrow> (world, bench_outcome) sx" where
  "BM_GetMissingRandom iterations keyCount valueSize =
     on_preloaded ''get-missing-random'' keyCount valueSize (\<lambda>s. (miss_loop (cursors keyCount 0 iterations) s, s))"

definition BM_OverwriteRandom :: "nat \<Rightarrow> nat \<Rightarrow> nat \<Rightarrow> (world, bench_outcome) sx" where
  "BM_OverwriteRandom iterations keyCount valueSize =
     on_preloaded ''overwrite-random'' keyCount valueSize
       (put_loop ''PUT failed during overwrite benchmark'' valueSize (\<lambda>c. c + 1) (cursors keyCount 0 iterations))"

text \<open>
  \<open>runMixed\<close>: every \<open>writeEveryN\<close>-th operation is a write.  The numbers are \<open>bytesProcessed\<close> and
  \<open>writes\<close>.
\<close>

fun mixed_loop :: "nat \<Rightarrow> nat \<Rightarrow> nat list \<Rightarrow> nat \<Rightarrow> nat \<Rightarrow> nat \<Rightarrow> (db, bench_outcome \<times> nat \<times> nat) sx" where
  "mixed_loop writeEveryN valueSize [] op bytesProcessed writes = sx_return (Completed, bytesProcessed, writes)"
| "mixed_loop writeEveryN valueSize (c # cs) op bytesProcessed writes =
     (if op mod writeEveryN = 0 then
        sx_bind (db_put (makeKey c) (makeValue valueSize (c + 2))) (\<lambda>r.
          if \<not> res_ok r then sx_return (SkippedWithError ''PUT failed during mixed benchmark'', bytesProcessed, writes)
          else mixed_loop writeEveryN valueSize cs (op + 1) (bytesProcessed + length (makeKey c) + valueSize) (writes + 1))
      else
        (\<lambda>s. case db_get (makeKey c) s of
           Inl ex \<Rightarrow> (Inl ex, s)
         | Inr r \<Rightarrow>
             (case res_data r of
                None \<Rightarrow> (Inr (SkippedWithError ''GET failed during mixed benchmark'', bytesProcessed, writes), s)
              | Some d \<Rightarrow>
                  if \<not> res_ok r then (Inr (SkippedWithError ''GET failed during mixed benchmark'', bytesProcessed, writes), s)
                  else mixed_loop writeEveryN valueSize cs (op + 1) (bytesProcessed + length d) writes s)))"

definition runMixed :: "nat \<Rightarrow> nat \<Rightarrow> nat \<Rightarrow> nat \<Rightarrow> (world, bench_outcome \<times> nat \<times> nat) sx" where
  "runMixed writeEveryN iterations keyCount valueSize =
     on_preloaded (if writeEveryN = 20 then ''mixed-95r-5w'' else ''mixed-50r-50w'') keyCount valueSize
       (mixed_loop writeEveryN valueSize (cursors keyCount 0 iterations) 0 0 0)"

definition BM_Mixed95Read5Write :: "nat \<Rightarrow> nat \<Rightarrow> nat \<Rightarrow> (world, bench_outcome \<times> nat \<times> nat) sx" where
  "BM_Mixed95Read5Write = runMixed 20"

definition BM_Mixed50Read50Write :: "nat \<Rightarrow> nat \<Rightarrow> nat \<Rightarrow> (world, bench_outcome \<times> nat \<times> nat) sx" where
  "BM_Mixed50Read50Write = runMixed 2"

section \<open>The read-heavy benchmark\<close>

text \<open>
  \<open>bench_read_heavy.cpp\<close>: the fixture loads one store, destroys it, and creates the store the reads
  go to on the same directories.
\<close>

definition rh_makeKey :: "nat \<Rightarrow> string" where
  "rh_makeKey index = ''key-'' @ to_string index"

definition rh_makePaths :: "nat \<Rightarrow> nat \<Rightarrow> bench_paths" where
  "rh_makePaths range0 range1 =
     (let root = ''bench/run-data'' @ ''/'' @ ''read-heavy-'' @ to_string range0 @ ''-'' @ to_string range1
      in \<lparr>bp_root = root, bp_wal = root @ ''/wal'', bp_sstables = root @ ''/sstables''\<rparr>)"

definition rh_makeConfig :: "bench_paths \<Rightarrow> db_config" where
  "rh_makeConfig paths =
     DbFactoryConfig\<lparr>cfg_memtableCapacity := 64, cfg_walDirectory := bp_wal paths,
       cfg_sstableDirectory := bp_sstables paths, cfg_walId := 0\<rparr>"

definition rh_preloadDataset :: "nat \<Rightarrow> nat \<Rightarrow> (db, unit) sx" where
  "rh_preloadDataset keyCount valueSize =
     sx_bind (preload_loop rh_makeKey valueSize [0..<keyCount]) (\<lambda>_.
     sx_bind db_forceFlushForTests (\<lambda>r s. (requireOk r ''failed to flush benchmark dataset'', s)))"

definition ReadHeavy_SetUp :: "nat \<Rightarrow> nat \<Rightarrow> (world, db) sx" where
  "ReadHeavy_SetUp keyCount valueSize w =
     (let paths = rh_makePaths keyCount valueSize; config = rh_makeConfig paths
      in case rh_preloadDataset keyCount valueSize (createDbWithConfig config (resetPaths paths w)) of
           (Inl ex, s) \<Rightarrow> (Inl ex, db_world s)
         | (Inr _, s) \<Rightarrow> (Inr (createDbWithConfig config (db_world s)), db_world s))"

definition RandomishGets :: "nat \<Rightarrow> nat \<Rightarrow> db \<Rightarrow> exn + bench_outcome \<times> nat" where
  "RandomishGets iterations keyCount db =
     hit_loop ''GET failed during benchmark'' rh_makeKey (cursors keyCount 0 iterations) 0 db"

section \<open>Keys in order\<close>

lemma decimal_value_Cons: "decimal_value (c # s) = digit_value c * 10 ^ length s + decimal_value s"
proof (induction s rule: rev_induct)
  case (snoc d s)
  have "decimal_value (c # s @ [d]) = decimal_value ((c # s) @ [d])" by simp
  also have "\<dots> = 10 * decimal_value (c # s) + digit_value d" by (rule decimal_value_snoc)
  finally show ?case by (simp add: snoc.IH decimal_value_snoc algebra_simps)
qed (simp add: decimal_value_def)

lemma digit_value_less: "isdigit c \<Longrightarrow> digit_value c < 10"
  by (auto simp: isdigit_def digit_value_def)

lemma decimal_value_less: "\<forall>c \<in> set s. isdigit c \<Longrightarrow> decimal_value s < 10 ^ length s"
proof (induction s)
  case (Cons c s)
  then have "digit_value c \<le> 9" "decimal_value s < 10 ^ length s" using digit_value_less by fastforce+
  then have "digit_value c * 10 ^ length s \<le> 9 * 10 ^ length s" by simp
  then show ?case using \<open>decimal_value s < _\<close> unfolding decimal_value_Cons length_Cons power_Suc by linarith
qed (simp add: decimal_value_def)

lemma digit_less_iff: "isdigit c \<Longrightarrow> isdigit d \<Longrightarrow> c < d \<longleftrightarrow> digit_value c < digit_value d"
  by (auto simp: isdigit_def digit_value_def less_char_def)

lemma digit_eq_iff: "isdigit c \<Longrightarrow> isdigit d \<Longrightarrow> c = d \<longleftrightarrow> digit_value c = digit_value d"
  by (auto simp: isdigit_def digit_value_def) (metis (no_types) char_of_char le_add_diff_inverse)

text \<open>Numerals of the same length are ordered as strings the way their values are.\<close>

lemma numerals_order:
  assumes "length s = length t" and "\<forall>c \<in> set s. isdigit c" and "\<forall>c \<in> set t. isdigit c"
  shows "s < t \<longleftrightarrow> decimal_value s < decimal_value t"
  using assms
proof (induction s t rule: list_induct2)
  case (Cons c s d t)
  let ?n = "10 ^ length s"
  have le: "decimal_value s < ?n" "decimal_value t < ?n"
    using Cons.prems Cons.hyps decimal_value_less [of s] decimal_value_less [of t] by simp_all
  have step: "x * ?n + decimal_value u < y * ?n + decimal_value v" if "x < y" "decimal_value u < ?n" for x y u v
  proof -
    have "Suc x * ?n \<le> y * ?n" using that(1) by (intro mult_right_mono) simp_all
    then show ?thesis using that(2) by simp
  qed
  have d: "isdigit c" "isdigit d" using Cons.prems by simp_all
  consider "digit_value c < digit_value d" | "digit_value c = digit_value d" | "digit_value d < digit_value c" by linarith
  then show ?case
  proof cases
    case 1
    then show ?thesis
      using step [OF 1 le(1), of t] digit_less_iff [OF d] Cons.hyps by (simp add: decimal_value_Cons)
  next
    case 2
    then show ?thesis
      using digit_eq_iff [OF d] Cons by (simp add: decimal_value_Cons)
  next
    case 3
    then have "\<not> c < d" "c \<noteq> d" using digit_less_iff [OF d] by auto
    then show ?thesis using step [OF 3 le(2), of s] Cons.hyps by (simp add: decimal_value_Cons)
  qed
qed simp

lemma length_to_string_le: "n < 10 ^ Suc k \<Longrightarrow> length (to_string n) \<le> Suc k"
proof (induction k arbitrary: n)
  case 0
  then show ?case by (simp add: to_string.simps)
next
  case (Suc k)
  show ?case
  proof (cases "n < 10")
    case True
    then show ?thesis by (simp add: to_string.simps)
  next
    case False
    then show ?thesis using Suc.IH [of "n div 10"] Suc.prems by (simp add: to_string.simps [of n] less_mult_imp_div_less)
  qed
qed

definition padded :: "nat \<Rightarrow> nat \<Rightarrow> string" where
  "padded k n = replicate (k - min k (length (to_string n))) (CHR ''0'') @ to_string n"

lemma decimal_value_zeros: "decimal_value (replicate j (CHR ''0'') @ s) = decimal_value s"
  by (induction j) (simp_all add: decimal_value_Cons digit_value_def)

lemma padded_numeral:
  assumes "n < 10 ^ Suc k"
  shows "length (padded (Suc k) n) = Suc k" and "decimal_value (padded (Suc k) n) = n" and "\<forall>c \<in> set (padded (Suc k) n). isdigit c"
  using length_to_string_le [OF assms] to_string_digits [of n]
  by (auto simp: padded_def decimal_value_zeros isdigit_def)

lemma makeKey_padded: "makeKey i = ''key-'' @ padded 12 i" "makeMissingKey i = ''missing-'' @ padded 8 i"
  by (simp_all add: makeKey_def makeMissingKey_def padded_def Let_def)

lemma makeKey_less_iff: "i < 10 ^ 12 \<Longrightarrow> j < 10 ^ 12 \<Longrightarrow> makeKey i < makeKey j \<longleftrightarrow> i < j"
  using numerals_order [of "padded 12 i" "padded 12 j"] padded_numeral [of i 11] padded_numeral [of j 11]
  by (simp add: makeKey_padded)

lemma makeKey_inject: "i < 10 ^ 12 \<Longrightarrow> j < 10 ^ 12 \<Longrightarrow> makeKey i = makeKey j \<longleftrightarrow> i = j"
  using makeKey_less_iff [of i j] makeKey_less_iff [of j i] by (metis less_irrefl linorder_less_linear)

lemma missing_not_key: "makeMissingKey i \<noteq> makeKey j"
  by (simp add: makeKey_padded)

lemma length_makeKey: "i < 10 ^ 12 \<Longrightarrow> length (makeKey i) = 16"
  using padded_numeral(1) [of i 11] by (simp add: makeKey_padded)

section \<open>The cursor\<close>

lemma cursors_eq: "cursors n c m = map (\<lambda>i. (c + 97 * Suc i) mod n) [0..<m]"
proof (induction m arbitrary: c)
  case (Suc m)
  have u: "[0..<Suc m] = 0 # map Suc [0..<m]" by (simp add: upt_conv_Cons map_Suc_upt del: upt_Suc)
  have "((c + 97) mod n + 97 * Suc i) mod n = (c + 97 * Suc (Suc i)) mod n" for i
  proof -
    have "((c + 97) mod n + 97 * Suc i) mod n = (c + 97 + 97 * Suc i) mod n" by (rule mod_add_left_eq)
    also have "c + 97 + 97 * Suc i = c + 97 * Suc (Suc i)" by simp
    finally show ?thesis .
  qed
  then show ?case unfolding u cursors.simps Let_def kRandomStep_def Suc.IH by (simp only: list.map map_map comp_def) simp
qed simp

lemma length_cursors [simp]: "length (cursors n c m) = m"
  by (simp add: cursors_eq)

lemma cursors_less: "0 < n \<Longrightarrow> c' \<in> set (cursors n c m) \<Longrightarrow> c' < n"
  by (auto simp: cursors_eq)

lemma step_injective:
  assumes "coprime 97 n" and "i < n" and "j < n" and "97 * Suc i mod n = 97 * Suc j mod n"
  shows "i = j"
proof -
  have "x = y" if "x \<le> y" "y < n" "97 * Suc y mod n = 97 * Suc x mod n" for x y
  proof -
    have "n dvd 97 * Suc y - 97 * Suc x" using that mod_eq_dvd_iff_nat [of "97 * Suc x" "97 * Suc y" n] by simp
    then have "n dvd 97 * (y - x)" by (simp add: diff_mult_distrib2)
    then have "n dvd y - x" using assms(1) coprime_dvd_mult_right_iff [of n 97] by (simp add: coprime_commute)
    then show ?thesis using that by (auto dest: dvd_imp_le)
  qed
  then show ?thesis using assms(2-4) by (cases "i \<le> j") (metis nat_le_linear)+
qed

lemma cursors_permute:
  assumes "coprime 97 n"
  shows "distinct (cursors n 0 n)" and "set (cursors n 0 n) = {..<n}"
proof -
  have "inj_on (\<lambda>i. (0 + 97 * Suc i) mod n) (set [0..<n])"
    by (rule inj_onI, rule step_injective [OF assms]) (simp_all only: set_upt atLeastLessThan_iff add_0)
  then show d: "distinct (cursors n 0 n)" unfolding cursors_eq distinct_map by (intro conjI distinct_upt)
  show "set (cursors n 0 n) = {..<n}"
  proof (cases "n = 0")
    case False
    have "set (cursors n 0 n) \<subseteq> {..<n}" using False cursors_less by auto
    moreover have "card (set (cursors n 0 n)) = n" using distinct_card [OF d] by simp
    ultimately show ?thesis using card_subset_eq [of "{..<n}"] by simp
  qed simp
qed

section \<open>The store under the workloads\<close>

section \<open>The store under the workloads\<close>

text \<open>
  After \<open>resetPaths\<close> the disk is as a new store needs it.  The theorems are about the first workload a
  process runs: later ones start with a file-name counter that is not zero.
\<close>

definition bench_world :: "world \<Rightarrow> bool" where
  "bench_world w \<longleftrightarrow> healthy w \<and> lists_all w \<and> name_counter w = 0"

lemma remove_all_frame:
  "healthy (remove_all r w) = healthy w" "lists_all (remove_all r w) = lists_all w" "name_counter (remove_all r w) = name_counter w"
  by (simp_all add: remove_all_def healthy_def lists_all_def)

lemma remove_all_directories: "healthy w \<Longrightarrow> is_directory (remove_all r w) d \<longleftrightarrow> is_directory w d \<and> \<not> below r d"
  by (auto simp: remove_all_def is_directory_def healthy_def)

lemma child_of_below: "child_of (r @ n) d \<Longrightarrow> hd (n @ [CHR ''/'']) = CHR ''/'' \<Longrightarrow> below r d"
proof -
  assume c: "child_of (r @ n) d" and n: "hd (n @ [CHR ''/'']) = CHR ''/''"
  have "take (length r + 1) d = take (length r + 1) (take (length (r @ n) + 1) d)" by (simp add: min_def)
  also have "\<dots> = take (length r + 1) ((r @ n) @ ''/'')" using c by (simp add: child_of_def)
  also have "\<dots> = r @ ''/''" using n by (cases n) auto
  finally show ?thesis by (simp add: below_def)
qed

text \<open>Nothing in a directory that was just created, or outside of the root, looks like a level.\<close>

lemma not_a_level:
  assumes "\<not> below r d \<or> length d \<le> length (r @ ''/sstables'')"
  shows "\<not> child_of (r @ ''/sstables'') d"
  using assms child_of_length [of "r @ ''/sstables''" d] child_of_below [of r "''/sstables''" d] by auto

lemma lists_all_mkdir [simp]: "lists_all (mkdir_all p w) = lists_all w"
  by (simp add: lists_all_def)

lemma resetPaths_clear:
  assumes "healthy w" and "lists_all w" and "bp_wal paths = bp_root paths @ ''/wal''" and "bp_sstables paths = bp_root paths @ ''/sstables''"
  shows "healthy (resetPaths paths w)" and "lists_all (resetPaths paths w)" and "name_counter (resetPaths paths w) = name_counter w"
    and "no_levels_on_disk (bp_sstables paths) (resetPaths paths w)"
    and "\<forall>d \<in> set (path_and_ancestors (bp_wal paths)). \<not> child_of (bp_sstables paths) d"
proof -
  let ?r = "bp_root paths" and ?s = "bp_sstables paths" and ?l = "bp_wal paths"
  have short: "length d \<le> length (?r @ ''/sstables'')" if "d \<in> set (path_and_ancestors ?l) \<or> d \<in> set (path_and_ancestors ?s)" for d
    using that ancestors_length [of d ?l] ancestors_length [of d ?s] assms(3,4) by auto
  then show "\<forall>d \<in> set (path_and_ancestors ?l). \<not> child_of ?s d" unfolding assms(4) using not_a_level assms(4) by blast
  have "\<not> child_of ?s d" if "is_directory (resetPaths paths w) d" for d
  proof -
    have "\<not> below ?r d \<or> d \<in> set (path_and_ancestors ?l) \<or> d \<in> set (path_and_ancestors ?s)"
      using that assms(1) by (auto simp: resetPaths_def remove_all_frame remove_all_directories)
    then show ?thesis unfolding assms(4) using short not_a_level assms(4) by metis
  qed
  then show "no_levels_on_disk ?s (resetPaths paths w)" "lists_all (resetPaths paths w)"
    using assms(2) by (simp_all add: no_levels_on_disk_def resetPaths_def remove_all_frame)
  show "healthy (resetPaths paths w)" "name_counter (resetPaths paths w) = name_counter w"
    using assms(1) by (simp_all add: resetPaths_def remove_all_frame)
qed

lemma resetPaths_fresh:
  assumes "bench_world w" and "bp_wal paths = bp_root paths @ ''/wal''" and "bp_sstables paths = bp_root paths @ ''/sstables''"
  shows "fresh_disk (bp_sstables paths) (bp_wal paths) (resetPaths paths w)"
proof -
  have "healthy w" "lists_all w" using assms(1) by (simp_all add: bench_world_def)
  note resetPaths_clear [OF this assms(2,3)]
  then show ?thesis using assms(1) unfolding fresh_disk_def bench_world_def by simp
qed

lemma bench_capacity [simp]: "cfg_memtableCapacity (makeConfig p) = 1024" "cfg_memtableCapacity (rh_makeConfig p) = 64"
  by (simp_all add: makeConfig_def rh_makeConfig_def)

lemma bench_db_ok:
  assumes "bench_world w" and "bp_wal paths = bp_root paths @ ''/wal''" and "bp_sstables paths = bp_root paths @ ''/sstables''"
  shows "b \<le> 1024 * 2 ^ 16 \<Longrightarrow> db_ok b (createDbWithConfig (makeConfig paths) (resetPaths paths w))"
    and "db_view (createDbWithConfig (makeConfig paths) (resetPaths paths w)) = Map.empty"
    and "b \<le> 64 * 2 ^ 16 \<Longrightarrow> db_ok b (createDbWithConfig (rh_makeConfig paths) (resetPaths paths w))"
  using resetPaths_fresh [OF assms]
  by (auto simp: makeConfig_def rh_makeConfig_def DbFactoryConfig_def intro!: db_new_ok db_new_ok(2) [where b = 0])

lemma preload_loop_ok:
  assumes "db_ok (length is + b) s" and "\<forall>i \<in> set is. length (key i) \<le> 2 ^ 30" and "valueSize \<le> 2 ^ 30"
    and "inj_on key (set is \<union> J)" and "\<forall>j \<in> J. db_view s (key j) = Some (makeValue valueSize j)"
    and "is \<noteq> [] \<or> m_map (db_skiplist s) \<noteq> []"
  shows "\<exists>s'. preload_loop key valueSize is s = (Inr (), s') \<and> db_ok b s' \<and> m_map (db_skiplist s') \<noteq> [] \<and> db_size s' = db_size s \<and>
    (\<forall>j \<in> set is \<union> J. db_view s' (key j) = Some (makeValue valueSize j)) \<and> (\<forall>k. k \<notin> key ` set is \<longrightarrow> db_view s' k = db_view s k)"
  using assms
proof (induction "is" arbitrary: s J)
  case (Cons i "is")
  have "length (makeValue valueSize i) \<le> 2 ^ 30" using Cons.prems(3) by (simp add: makeValue_def)
  then obtain s1 where s1: "db_put (key i) (makeValue valueSize i) s = (Inr (Response True ''OK'' None), s1)" "db_ok (length is + b) s1"
      "db_view s1 = (db_view s)(key i \<mapsto> makeValue valueSize i)" "db_size s1 = db_size s"
    using db_put_ok [of "length is + b" s "key i"] Cons.prems(1,2) by auto
  have ne: "m_map (db_skiplist s1) \<noteq> []" by (rule db_put_nonempty [OF s1(1)])
  have "\<forall>j \<in> insert i J. db_view s1 (key j) = Some (makeValue valueSize j)"
    using Cons.prems(4,5) s1(3) by (auto simp: inj_on_def)
  then obtain s' where s': "preload_loop key valueSize is s1 = (Inr (), s')" "db_ok b s'" "m_map (db_skiplist s') \<noteq> []"
      "\<forall>j \<in> set is \<union> insert i J. db_view s' (key j) = Some (makeValue valueSize j)" "\<forall>k. k \<notin> key ` set is \<longrightarrow> db_view s' k = db_view s1 k"
      "db_size s' = db_size s1"
    using Cons.IH [OF s1(2) _ Cons.prems(3), of "insert i J"] Cons.prems(2,4) ne by auto
  have "preload_loop key valueSize (i # is) s = (Inr (), s')" using s1(1) s'(1) by (simp add: sx_simps requireOk_def)
  moreover have "\<forall>j \<in> set (i # is) \<union> J. db_view s' (key j) = Some (makeValue valueSize j)" using s'(4) by auto
  moreover have "\<forall>k. k \<notin> key ` set (i # is) \<longrightarrow> db_view s' k = db_view s k" using s'(5) s1(3) by auto
  ultimately show ?case using s'(2,3,6) s1(4) by auto
qed (auto simp: sx_simps)

definition loaded :: "(nat \<Rightarrow> string) \<Rightarrow> nat \<Rightarrow> nat \<Rightarrow> db \<Rightarrow> bool" where
  "loaded key keyCount valueSize s \<longleftrightarrow> (\<forall>i < keyCount. \<exists>v. db_view s (key i) = Some v \<and> length v = valueSize)"

lemma preload_and_flush:
  assumes "db_ok (keyCount + (nat (db_size s) + b)) s" and "\<forall>i < keyCount. length (key i) \<le> 2 ^ 30" and "valueSize \<le> 2 ^ 30"
    and "inj_on key {..<keyCount}" and "0 < keyCount" and "db_view s = Map.empty"
  shows "\<exists>s'. sx_bind (preload_loop key valueSize [0..<keyCount]) (\<lambda>_. sx_bind db_forceFlushForTests (\<lambda>r s. (requireOk r msg, s))) s = (Inr (), s') \<and>
    db_ok b s' \<and> loaded key keyCount valueSize s' \<and> (\<forall>k. k \<notin> key ` {..<keyCount} \<longrightarrow> db_view s' k = None)"
proof -
  have set: "set [0..<keyCount] = {..<keyCount}" by auto
  obtain s1 where s1: "preload_loop key valueSize [0..<keyCount] s = (Inr (), s1)" "db_ok (nat (db_size s) + b) s1" "m_map (db_skiplist s1) \<noteq> []" "db_size s1 = db_size s"
      "\<forall>i < keyCount. db_view s1 (key i) = Some (makeValue valueSize i)" "\<forall>k. k \<notin> key ` {..<keyCount} \<longrightarrow> db_view s1 k = None"
    using preload_loop_ok [of "[0..<keyCount]" "nat (db_size s) + b" s key valueSize "{}"] assms unfolding set by auto
  obtain s2 where "db_forceFlushForTests s1 = (Inr (Response True ''OK'' None), s2)" "db_ok b s2" "db_view s2 = db_view s1"
    using db_flush_ok [OF s1(2,3)] s1(4) by auto
  then show ?thesis using s1 by (auto simp: sx_simps requireOk_def loaded_def makeValue_def)
qed

lemma makePaths_dirs:
  "bp_wal (makePaths n a b) = bp_root (makePaths n a b) @ ''/wal''" "bp_sstables (makePaths n a b) = bp_root (makePaths n a b) @ ''/sstables''"
  "bp_wal (rh_makePaths a b) = bp_root (rh_makePaths a b) @ ''/wal''" "bp_sstables (rh_makePaths a b) = bp_root (rh_makePaths a b) @ ''/sstables''"
  by (simp_all add: makePaths_def rh_makePaths_def Let_def)

lemma preloadDataset_ok:
  assumes "bench_world w" and "0 < keyCount" and "keyCount + (1024 + b) \<le> 1024 * 2 ^ 16" and "valueSize \<le> 2 ^ 30"
  shows "\<exists>s. preloadDataset keyCount valueSize (createDbWithConfig (makeConfig (makePaths name keyCount valueSize))
      (resetPaths (makePaths name keyCount valueSize) w)) = (Inr (), s) \<and> db_ok b s \<and> loaded makeKey keyCount valueSize s \<and>
    (\<forall>i. db_view s (makeMissingKey i) = None)"
proof -
  have k: "\<forall>i < keyCount. length (makeKey i) \<le> 2 ^ 30" using assms(3) length_makeKey by simp
  have inj: "inj_on makeKey {..<keyCount}" using assms(3) makeKey_inject by (auto simp: inj_on_def)
  let ?s = "createDbWithConfig (makeConfig (makePaths name keyCount valueSize)) (resetPaths (makePaths name keyCount valueSize) w)"
  note db = bench_db_ok [OF assms(1) makePaths_dirs(1,2)]
  have "db_ok (keyCount + (nat (db_size ?s) + b)) ?s" using db(1) [OF assms(3)] by simp
  then show ?thesis
    using preload_and_flush [OF _ k assms(4) inj assms(2) db(2)] missing_not_key unfolding preloadDataset_def by fastforce
qed

lemma on_preloaded_ok:
  assumes "bench_world w" and "0 < keyCount" and "keyCount + (1024 + b) \<le> 1024 * 2 ^ 16" and "valueSize \<le> 2 ^ 30"
    and "\<And>s. db_ok b s \<Longrightarrow> loaded makeKey keyCount valueSize s \<Longrightarrow> (\<forall>i. db_view s (makeMissingKey i) = None) \<Longrightarrow>
      \<exists>r s'. body s = (Inr r, s') \<and> Q r"
  shows "\<exists>r w'. on_preloaded name keyCount valueSize body w = (Inr r, w') \<and> Q r"
proof -
  obtain s where s: "preloadDataset keyCount valueSize (createDbWithConfig (makeConfig (makePaths name keyCount valueSize))
      (resetPaths (makePaths name keyCount valueSize) w)) = (Inr (), s)" "db_ok b s" "loaded makeKey keyCount valueSize s"
      "\<forall>i. db_view s (makeMissingKey i) = None"
    using preloadDataset_ok [OF assms(1-4)] by blast
  then show ?thesis using assms(5) [OF s(2-4)] by (auto simp: on_preloaded_def Let_def)
qed

lemma hit_loop_ok:
  assumes "db_ok b s" and "loaded key keyCount valueSize s" and "\<forall>c \<in> set cs. c < keyCount"
  shows "hit_loop msg key cs n s = Inr (Completed, n + length cs * valueSize)"
  using assms(3)
proof (induction cs arbitrary: n)
  case (Cons c cs)
  then obtain v where "db_view s (key c) = Some v" "length v = valueSize" using assms(2) by (auto simp: loaded_def)
  then show ?case using Cons db_get_ok [OF assms(1)] by (simp add: get_response_def)
qed simp

lemma miss_loop_ok: "db_ok b s \<Longrightarrow> \<forall>i. db_view s (makeMissingKey i) = None \<Longrightarrow> miss_loop cs s = Inr Completed"
  by (induction cs) (simp_all add: db_get_ok get_response_def)

lemma loaded_put:
  assumes "loaded key keyCount valueSize s" and "db_view s' = (db_view s)(k \<mapsto> makeValue valueSize x)"
  shows "loaded key keyCount valueSize s'"
  using assms by (auto simp: loaded_def makeValue_def)

lemma bench_put:
  assumes "db_ok (Suc b) s" and "loaded makeKey keyCount valueSize s" and "c < 10 ^ 12" and "valueSize \<le> 2 ^ 30"
  shows "\<exists>s'. db_put (makeKey c) (makeValue valueSize x) s = (Inr (Response True ''OK'' None), s') \<and> db_ok b s' \<and>
    loaded makeKey keyCount valueSize s'"
proof -
  have "length (makeKey c) \<le> 2 ^ 30" "length (makeValue valueSize x) \<le> 2 ^ 30"
    using length_makeKey [OF assms(3)] assms(4) by (simp_all add: makeValue_def)
  then show ?thesis using db_put_ok [OF assms(1)] loaded_put [OF assms(2)] by blast
qed

lemma put_loop_ok:
  assumes "db_ok (length cs + b) s" and "loaded makeKey keyCount valueSize s" and "\<forall>c \<in> set cs. c < 10 ^ 12" and "valueSize \<le> 2 ^ 30"
  shows "\<exists>s'. put_loop msg valueSize seed cs s = (Inr Completed, s')"
  using assms(1-3)
proof (induction cs arbitrary: s)
  case (Cons c cs)
  obtain s1 where "db_put (makeKey c) (makeValue valueSize (seed c)) s = (Inr (Response True ''OK'' None), s1)" "db_ok (length cs + b) s1"
      "loaded makeKey keyCount valueSize s1"
    using bench_put [of "length cs + b" s keyCount valueSize c] Cons.prems assms(4) by auto
  then show ?case using Cons.IH [of s1] Cons.prems(3) by (simp add: sx_simps)
qed (simp add: sx_simps)

lemma mixed_loop_ok:
  assumes "db_ok (length cs + b) s" and "loaded makeKey keyCount valueSize s" and "\<forall>c \<in> set cs. c < keyCount" and "keyCount \<le> 10 ^ 12"
    and "valueSize \<le> 2 ^ 30"
  shows "\<exists>s' bytes. mixed_loop N valueSize cs op bp wr s =
    (Inr (Completed, bytes, wr + length (filter (\<lambda>i. i mod N = 0) [op..<op + length cs])), s')"
  using assms(1-3)
proof (induction cs arbitrary: s op bp wr)
  case (Cons c cs)
  have c: "c < 10 ^ 12" using Cons.prems(3) assms(4) by simp
  have rest: "[op..<op + length (c # cs)] = op # [op + 1..<op + 1 + length cs]" by (simp add: upt_conv_Cons del: upt_Suc)
  show ?case
  proof (cases "op mod N = 0")
    case True
    obtain s1 where "db_put (makeKey c) (makeValue valueSize (c + 2)) s = (Inr (Response True ''OK'' None), s1)" "db_ok (length cs + b) s1"
        "loaded makeKey keyCount valueSize s1"
      using bench_put [of "length cs + b" s keyCount valueSize c] Cons.prems c assms(5) by auto
    then show ?thesis
      using Cons.IH [of s1 "op + 1" "bp + length (makeKey c) + valueSize" "wr + 1"] Cons.prems(3) True unfolding rest
      by (simp add: sx_simps del: upt_Suc)
  next
    case False
    obtain v where "db_view s (makeKey c) = Some v" using Cons.prems(2,3) by (auto simp: loaded_def)
    then have "db_get (makeKey c) s = Inr (Response True ''OK'' (Some v))"
      using db_get_ok [OF Cons.prems(1)] by (simp add: get_response_def)
    moreover have "db_ok (length cs + b) s" using db_ok_mono [OF Cons.prems(1)] by simp
    ultimately show ?thesis
      using Cons.IH [of s "op + 1" "bp + length v" wr] Cons.prems(2,3) False unfolding rest by (simp del: upt_Suc)
  qed
qed (simp add: sx_simps)

lemma multiples_below:
  assumes "0 < N"
  shows "length (filter (\<lambda>i. i mod N = 0) [0..<n]) = (n + N - 1) div N"
proof (induction n)
  case 0
  then show ?case using assms by simp
next
  case (Suc n)
  have "Suc n + N - 1 = n + N" by simp
  then have "(Suc n + N - 1) div N = Suc (n div N)" using assms div_add_self2 [of N n] by simp
  moreover have "(n + N - 1) div N = (if n mod N = 0 then n div N else Suc (n div N))"
  proof -
    have "n + N - 1 = n div N * N + (n mod N + (N - 1))" using assms div_mult_mod_eq [of n N] by linarith
    then have "(n + N - 1) div N = n div N + (n mod N + (N - 1)) div N"
      using assms div_mult_self3 [of N "n div N" "n mod N + (N - 1)"] by (simp only:)
    moreover have "(n mod N + (N - 1)) div N = (if n mod N = 0 then 0 else 1)"
    proof (cases "n mod N = 0")
      case False
      moreover have "n mod N < N" using assms by simp
      ultimately have "n mod N + (N - 1) = N + (n mod N - 1)" "n mod N - 1 < N" using assms by linarith+
      then have "(n mod N + (N - 1)) div N = (n mod N - 1) div N + 1" using assms div_add_self1 [of N "n mod N - 1"] by (simp only:)
      then show ?thesis using False \<open>n mod N - 1 < N\<close> by simp
    qed (use assms in simp)
    ultimately show ?thesis by simp
  qed
  ultimately show ?case using Suc.IH by simp
qed

section \<open>Properties\<close>

text \<open>
  The workloads of \<open>bench_minimum\<close> measure what they mean to: on a system without faults no
  workload is skipped, every read of an existing key finds its value (so the counted bytes are the
  number of reads times the value size), no read of a missing key finds anything, and the mixed
  workloads do one write in 20 and one in 2 operations.
\<close>

theorem benchmarks_complete:
  assumes "bench_world w" and "0 < keyCount" and "keyCount + (1024 + iterations) \<le> 1024 * 2 ^ 16" and "valueSize \<le> 2 ^ 30"
  shows "fst (BM_GetExistingRandom iterations keyCount valueSize w) = Inr (Completed, iterations * valueSize) \<and>
    fst (BM_GetMissingRandom iterations keyCount valueSize w) = Inr Completed \<and>
    fst (BM_OverwriteRandom iterations keyCount valueSize w) = Inr Completed \<and>
    (\<exists>bytes. fst (BM_Mixed95Read5Write iterations keyCount valueSize w) = Inr (Completed, bytes, (iterations + 19) div 20)) \<and>
    (\<exists>bytes. fst (BM_Mixed50Read50Write iterations keyCount valueSize w) = Inr (Completed, bytes, (iterations + 1) div 2))"
proof -
  let ?cs = "cursors keyCount 0 iterations"
  note run = on_preloaded_ok [OF assms]
  have cs: "\<forall>c \<in> set ?cs. c < keyCount" using cursors_less assms(2) by blast
  have big: "keyCount \<le> 10 ^ 12" using assms(3) by simp
  then have cs12: "\<forall>c \<in> set ?cs. c < 10 ^ 12" using cs by (meson less_le_trans)
  have mixed: "\<exists>r w'. on_preloaded name keyCount valueSize (mixed_loop N valueSize ?cs 0 0 0) w = (Inr r, w') \<and>
      (\<exists>bytes. r = (Completed, bytes, (iterations + N - 1) div N))" if "0 < N" for N name
  proof (rule run)
    fix s assume "db_ok iterations s" "loaded makeKey keyCount valueSize s"
    then show "\<exists>r s'. mixed_loop N valueSize ?cs 0 0 0 s = (Inr r, s') \<and> (\<exists>bytes. r = (Completed, bytes, (iterations + N - 1) div N))"
      using mixed_loop_ok [of ?cs 0 s keyCount valueSize N 0 0 0] cs big assms(4) multiples_below [OF that, of iterations] by auto
  qed
  have "\<exists>r w'. BM_GetExistingRandom iterations keyCount valueSize w = (Inr r, w') \<and> r = (Completed, iterations * valueSize)"
    unfolding BM_GetExistingRandom_def by (rule run) (simp add: hit_loop_ok [OF _ _ cs])
  moreover have "\<exists>r w'. BM_GetMissingRandom iterations keyCount valueSize w = (Inr r, w') \<and> r = Completed"
    unfolding BM_GetMissingRandom_def by (rule run) (simp add: miss_loop_ok)
  moreover have "\<exists>r w'. BM_OverwriteRandom iterations keyCount valueSize w = (Inr r, w') \<and> r = Completed"
    unfolding BM_OverwriteRandom_def
  proof (rule run)
    fix s assume "db_ok iterations s" "loaded makeKey keyCount valueSize s"
    then show "\<exists>r s'. put_loop ''PUT failed during overwrite benchmark'' valueSize (\<lambda>c. c + 1) ?cs s = (Inr r, s') \<and> r = Completed"
      using put_loop_ok [of ?cs 0 s keyCount valueSize] cs12 assms(4) by simp
  qed
  moreover have "\<exists>bytes. fst (BM_Mixed95Read5Write iterations keyCount valueSize w) = Inr (Completed, bytes, (iterations + 19) div 20)"
    using mixed [of 20 "''mixed-95r-5w''"] by (auto simp: BM_Mixed95Read5Write_def runMixed_def)
  moreover have "\<exists>bytes. fst (BM_Mixed50Read50Write iterations keyCount valueSize w) = Inr (Completed, bytes, (iterations + 1) div 2)"
    using mixed [of 2 "''mixed-50r-50w''"] by (auto simp: BM_Mixed50Read50Write_def runMixed_def)
  ultimately show ?thesis by auto
qed

lemma bench_world_fresh: "bench_world fresh_world"
  by (simp add: bench_world_def lists_all_def fresh_world_def healthy_def)

theorem benchmarks_complete_witness:
  "fst (BM_GetExistingRandom 500 1024 64 fresh_world) = Inr (Completed, 32000) \<and>
   fst (BM_GetMissingRandom 500 1024 64 fresh_world) = Inr Completed"
  using benchmarks_complete [OF bench_world_fresh, of 1024 500 64] by simp

text \<open>
  The write workloads write every key once.  For the registered numbers of keys, and for every
  number prime to 97, the step of 97 makes the cursor visit each index exactly once,
  and the keys of different indices differ and are ordered as strings the way the indices are.
\<close>

theorem random_order_visits_every_key:
  assumes "coprime 97 keyCount" and "keyCount \<le> 10 ^ 12"
  shows "distinct (map makeKey (cursors keyCount 0 keyCount)) \<and>
    set (map makeKey (cursors keyCount 0 keyCount)) = set (map makeKey [0..<keyCount]) \<and>
    sorted_wrt (<) (map makeKey [0..<keyCount])"
proof -
  note c = cursors_permute [OF assms(1)]
  have "inj_on makeKey {..<keyCount}" using assms(2) makeKey_inject by (auto simp: inj_on_def)
  moreover have "sorted_wrt (<) (map makeKey [0..<keyCount])"
    unfolding sorted_wrt_map by (rule sorted_wrt_mono_rel [OF _ sorted_wrt_upt]) (use assms(2) makeKey_less_iff in auto)
  ultimately show ?thesis using c by (auto simp: distinct_map)
qed

theorem random_order_visits_every_key_witness:
  "distinct (map makeKey (cursors 1024 0 1024)) \<and> distinct (map makeKey (cursors 4096 0 4096))"
proof -
  have "coprime 97 (1024 :: nat)" "coprime 97 (4096 :: nat)" by (simp_all add: coprime_iff_gcd_eq_1 gcd_non_0_nat)
  then show ?thesis using random_order_visits_every_key [of 1024] random_order_visits_every_key [of 4096] by simp
qed

text \<open>
  C40: the read-heavy benchmark never measures a read.  Its fixture loads the data through one store
  and reads through another one on the same directories; that store has no tables, so the first read
  finds nothing and the benchmark is skipped, for every size and every number of iterations.
\<close>

theorem read_heavy_always_skipped:
  assumes "bench_world w" and "0 < keyCount" and "keyCount + 64 \<le> 64 * 2 ^ 16" and "valueSize \<le> 2 ^ 30" and "0 < iterations"
  shows "\<exists>db w'. ReadHeavy_SetUp keyCount valueSize w = (Inr db, w') \<and>
    RandomishGets iterations keyCount db = Inr (SkippedWithError ''GET failed during benchmark'', 0)"
proof -
  let ?p = "rh_makePaths keyCount valueSize"
  let ?c = "rh_makeConfig ?p"
  have "length (to_string i) \<le> 2 ^ 29" if "i < keyCount" for i
  proof -
    have "i < 10 ^ Suc 7" using that assms(3) by simp
    then show ?thesis using length_to_string_le [of i 7] by simp
  qed
  then have k: "\<forall>i < keyCount. length (rh_makeKey i) \<le> 2 ^ 30" by (fastforce simp: rh_makeKey_def)
  have inj: "inj_on rh_makeKey {..<keyCount}" by (auto simp: inj_on_def rh_makeKey_def)
  note db = bench_db_ok [OF assms(1) makePaths_dirs(3,4)]
  have "db_ok (keyCount + 64) (createDbWithConfig ?c (resetPaths ?p w))" using db(3) assms(3) by blast
  then have ok: "db_ok (keyCount + (nat (db_size (createDbWithConfig ?c (resetPaths ?p w))) + 0)) (createDbWithConfig ?c (resetPaths ?p w))"
    by simp
  have v: "db_view (createDbWithConfig ?c w0) = Map.empty" for w0
    by (simp add: fun_eq_iff db_view_def createDbWithConfig_def MemTableImpl_def StorageManagerImpl_def mem_get_def
        storage_get_def sl.lookup_empty)
  obtain s where "rh_preloadDataset keyCount valueSize (createDbWithConfig ?c (resetPaths ?p w)) = (Inr (), s)"
    using preload_and_flush [OF ok k assms(4) inj assms(2) v]
    unfolding rh_preloadDataset_def by blast
  then have "ReadHeavy_SetUp keyCount valueSize w = (Inr (createDbWithConfig ?c (db_world s)), db_world s)"
    by (simp add: ReadHeavy_SetUp_def Let_def)
  moreover have "db_get k (createDbWithConfig ?c w0) = Inr (Response False ''Key does not exist'' None)" for k w0
    by (simp add: db_get_def createDbWithConfig_def MemTableImpl_def StorageManagerImpl_def mem_get_def storage_get_def
        sl.lookup_empty)
  then have "RandomishGets iterations keyCount (createDbWithConfig ?c w0) = Inr (SkippedWithError ''GET failed during benchmark'', 0)" for w0
    using assms(5) by (cases iterations) (simp_all add: RandomishGets_def Let_def)
  ultimately show ?thesis by simp
qed

theorem read_heavy_always_skipped_witness:
  "\<exists>db w'. ReadHeavy_SetUp 1024 64 fresh_world = (Inr db, w') \<and>
    RandomishGets 1 1024 db = Inr (SkippedWithError ''GET failed during benchmark'', 0)"
  using read_heavy_always_skipped [OF bench_world_fresh, of 1024 64 1] by simp

end
