(* ===== verification/Memory_Bench.thy ===== *)
theory Memory_Bench
  imports Bench Complex_Main "HOL-Library.Multiset"
begin

text \<open>
  The program \<open>bench/memory_investigation.cpp\<close>: it loads stores of growing size, reads from them and
  writes one line per store to a table of results.  What the operating system says about the memory
  of the process is an argument (\<open>probe\<close>); the lines are records, before they are printed.  Megabytes
  and microseconds are rational numbers: the \<open>double\<close> of the code is exact below \<open>2 ^ 53\<close> bytes.  The
  column \<open>log2_keys\<close>, which is a function of the first one, and the messages on the terminal are left
  out.
\<close>

section \<open>Memory of the process\<close>

text \<open>
  The successive contents of \<open>/proc/self/statm\<close>, \<open>None\<close> when it cannot be read, in which case the counts
  keep their initial value; and how often a weak compare-and-exchange fails for no reason.
\<close>

record probe =
  pr_statm :: "nat \<Rightarrow> (u64 \<times> u64) option"
  pr_spurious :: "nat \<Rightarrow> nat"
  pr_pageSize :: u64
  pr_reads :: nat

definition getCurrentRSSBytes :: "probe \<Rightarrow> u64 \<times> probe" where
  "getCurrentRSSBytes pr =
     (let residentPages = (case pr_statm pr (pr_reads pr) of None \<Rightarrow> 0 | Some (totalPages, resident) \<Rightarrow> resident)
      in (residentPages * pr_pageSize pr, pr\<lparr>pr_reads := pr_reads pr + 1\<rparr>))"

definition to_mb :: "u64 \<Rightarrow> rat" where
  "to_mb b = of_nat (unat b) / (1024 * 1024)"

definition getRSSMB :: "probe \<Rightarrow> rat \<times> probe" where
  "getRSSMB pr = (case getCurrentRSSBytes pr of (b, pr') \<Rightarrow> (to_mb b, pr'))"

text \<open>\<open>MemorySampler\<close>, as its atomic counter; only one thread uses it.\<close>

definition sampler_start :: "probe \<Rightarrow> u64 \<times> probe" where
  "sampler_start pr = getCurrentRSSBytes pr"

fun exchange_loop :: "nat \<Rightarrow> u64 \<Rightarrow> u64 \<Rightarrow> u64" where
  "exchange_loop 0 current peak = (if current > peak then current else peak)"
| "exchange_loop (Suc spurious) current peak = (if current > peak then exchange_loop spurious current peak else peak)"

definition sampler_update :: "u64 \<Rightarrow> probe \<Rightarrow> u64 \<times> probe" where
  "sampler_update peak pr =
     (case getCurrentRSSBytes pr of (current, pr') \<Rightarrow> (exchange_loop (pr_spurious pr (pr_reads pr)) current peak, pr'))"

definition stopAndGetPeakMB :: "u64 \<Rightarrow> probe \<Rightarrow> rat \<times> u64 \<times> probe" where
  "stopAndGetPeakMB peak pr = (case sampler_update peak pr of (peak', pr') \<Rightarrow> (to_mb peak', peak', pr'))"

section \<open>Keys, directories, files\<close>

definition mi_makeKey :: "nat \<Rightarrow> string" where
  "mi_makeKey index = (let n = to_string index in ''key-'' @ replicate (12 - min 12 (length n)) (CHR ''0'') @ n)"

definition mi_makeValue :: "nat \<Rightarrow> nat \<Rightarrow> string" where
  "mi_makeValue valueSize seed = replicate valueSize (char_of (97 + seed mod 26))"

definition mi_makePaths :: "string \<Rightarrow> bench_paths" where
  "mi_makePaths name =
     (let root = ''bench/run-data/memory-investigation'' @ ''/'' @ name
      in \<lparr>bp_root = root, bp_wal = root @ ''/wal'', bp_sstables = root @ ''/sstables''\<rparr>)"

definition mi_resetPaths :: "bench_paths \<Rightarrow> world \<Rightarrow> world" where
  "mi_resetPaths paths w = mkdir_all (bp_sstables paths) (mkdir_all (bp_wal paths) (remove_all (bp_root paths) w))"

definition mi_cleanupPaths :: "bench_paths \<Rightarrow> world \<Rightarrow> world" where
  "mi_cleanupPaths paths w = remove_all (bp_root paths) w"

definition mi_makeConfig :: "bench_paths \<Rightarrow> db_config" where
  "mi_makeConfig paths =
     DbFactoryConfig\<lparr>cfg_memtableCapacity := 1024, cfg_walDirectory := bp_wal paths,
       cfg_sstableDirectory := bp_sstables paths, cfg_walId := 0\<rparr>"

text \<open>The regular files a recursive iteration visits; a path names one file.\<close>

definition files_below :: "path \<Rightarrow> world \<Rightarrow> path list" where
  "files_below dir w =
     (if is_directory w dir then fs_listing w (filter (below dir) (remdups (map fst (fs_files w)))) else [])"

definition directorySizeBytes :: "path \<Rightarrow> world \<Rightarrow> u64" where
  "directorySizeBytes dir w =
     fold (\<lambda>p total. total + of_nat (case content w p of None \<Rightarrow> 0 | Some d \<Rightarrow> length d)) (files_below dir w) 0"

definition fileCount :: "path \<Rightarrow> world \<Rightarrow> nat" where
  "fileCount dir w = fold (\<lambda>p count. count + 1) (files_below dir w) 0"

section \<open>The measurement\<close>

record mi_state =
  mi_db :: db
  mi_peak :: u64
  mi_probe :: probe

record mi_row =
  row_keys :: nat
  row_keySize :: nat
  row_valueSize :: nat
  row_rssBefore :: rat
  row_rssAfter :: rat
  row_peak :: rat
  row_diskBytes :: u64
  row_sstableFiles :: nat
  row_readOps :: nat
  row_latencyUs :: rat

datatype mi_result = Row mi_row | Stopped string

definition on_db :: "(db, 'a) sx \<Rightarrow> (mi_state, 'a) sx" where
  "on_db f m = (case f (mi_db m) of (r, s) \<Rightarrow> (r, m\<lparr>mi_db := s\<rparr>))"

definition mi_sample :: "(mi_state, unit) sx" where
  "mi_sample m = (case sampler_update (mi_peak m) (mi_probe m) of (p, pr) \<Rightarrow> (Inr (), m\<lparr>mi_peak := p, mi_probe := pr\<rparr>))"

definition mi_rss :: "(mi_state, rat) sx" where
  "mi_rss m = (case getRSSMB (mi_probe m) of (x, pr) \<Rightarrow> (Inr x, m\<lparr>mi_probe := pr\<rparr>))"

definition mi_stop :: "(mi_state, rat) sx" where
  "mi_stop m = (case stopAndGetPeakMB (mi_peak m) (mi_probe m) of (x, p, pr) \<Rightarrow> (Inr x, m\<lparr>mi_peak := p, mi_probe := pr\<rparr>))"

definition mi_now :: "(mi_state, u64) sx" where
  "mi_now m = (case read_clock (db_world (mi_db m)) of (t, w) \<Rightarrow> (Inr t, m\<lparr>mi_db := (mi_db m)\<lparr>db_world := w\<rparr>\<rparr>))"

text \<open>The loops; the result is the message of an early return.\<close>

fun mi_load :: "nat \<Rightarrow> nat list \<Rightarrow> (mi_state, string option) sx" where
  "mi_load valueSize [] = sx_return None"
| "mi_load valueSize (i # is) =
     sx_bind (on_db (db_put (mi_makeKey i) (mi_makeValue valueSize i))) (\<lambda>response.
       if \<not> res_ok response then sx_return (Some (''Failed to load data at key '' @ to_string i))
       else sx_bind (if i mod 10000 = 0 then mi_sample else sx_return ()) (\<lambda>_. mi_load valueSize is))"

definition mi_kRandomStep :: nat where
  "mi_kRandomStep = 104729"

definition kReadOps :: nat where
  "kReadOps = 100000"

fun mi_read :: "nat \<Rightarrow> nat list \<Rightarrow> nat \<Rightarrow> (mi_state, string option) sx" where
  "mi_read numKeys [] pos = sx_return None"
| "mi_read numKeys (i # is) pos =
     (let pos' = (pos + mi_kRandomStep) mod numKeys
      in sx_bind (on_db (\<lambda>s. (db_get (mi_makeKey pos') s, s))) (\<lambda>response.
           if \<not> res_ok response then
             sx_return (Some (''Failed to read key during warm read phase. Cursor: '' @ to_string pos' @
               '', key: '' @ mi_makeKey pos' @ '', message: '' @ res_message response))
           else sx_bind (if i mod 1000 = 0 then mi_sample else sx_return ()) (\<lambda>_. mi_read numKeys is pos')))"

text \<open>The body of the loop over the sizes.\<close>

definition mi_measure :: "bench_paths \<Rightarrow> nat \<Rightarrow> nat \<Rightarrow> (mi_state, mi_result) sx" where
  "mi_measure paths valueSize numKeys =
     sx_bind (mi_load valueSize [0..<numKeys]) (\<lambda>failed. case failed of Some msg \<Rightarrow> sx_return (Stopped msg) | None \<Rightarrow>
     sx_bind mi_sample (\<lambda>_.
     sx_bind (on_db db_forceFlushForTests) (\<lambda>flushResp.
       if \<not> res_ok flushResp then sx_return (Stopped ''Failed to flush to disk'') else
     sx_bind mi_sample (\<lambda>_.
     sx_bind mi_rss (\<lambda>rssBefore.
     sx_bind (\<lambda>m. (Inr (directorySizeBytes (bp_root paths) (db_world (mi_db m)),
       fileCount (bp_sstables paths) (db_world (mi_db m))), m)) (\<lambda>(diskBytes, sstableFiles).
     sx_bind mi_now (\<lambda>start.
     sx_bind (mi_read numKeys [0..<kReadOps] 0) (\<lambda>failed. case failed of Some msg \<Rightarrow> sx_return (Stopped msg) | None \<Rightarrow>
     sx_bind mi_now (\<lambda>stop.
     sx_bind mi_sample (\<lambda>_.
     sx_bind mi_rss (\<lambda>rssAfter.
     sx_bind mi_stop (\<lambda>peak.
       sx_return (Row \<lparr>row_keys = numKeys, row_keySize = length (mi_makeKey 0), row_valueSize = valueSize,
         row_rssBefore = rssBefore, row_rssAfter = rssAfter, row_peak = peak, row_diskBytes = diskBytes,
         row_sstableFiles = sstableFiles, row_readOps = kReadOps,
         row_latencyUs = of_int (sint (stop - start)) / 1000 / of_nat kReadOps\<rparr>)))))))))))))"

text \<open>With the set-up and the end: after an early return the directories stay.\<close>

definition mi_dataset :: "nat \<Rightarrow> nat \<Rightarrow> (world \<times> probe, mi_result) sx" where
  "mi_dataset valueSize numKeys st =
     (let paths = mi_makePaths (''warm-read-scaling-'' @ to_string numKeys);
          w = mi_resetPaths paths (fst st);
          (peak, pr) = sampler_start (snd st)
      in case mi_measure paths valueSize numKeys
                \<lparr>mi_db = createDbWithConfig (mi_makeConfig paths) w, mi_peak = peak, mi_probe = pr\<rparr> of
           (Inr (Row row), m) \<Rightarrow> (Inr (Row row), mi_cleanupPaths paths (db_world (mi_db m)), mi_probe m)
         | (r, m) \<Rightarrow> (r, db_world (mi_db m), mi_probe m))"

text \<open>The rows in the table stay when a later size fails.\<close>

fun mi_datasets :: "nat \<Rightarrow> nat list \<Rightarrow> mi_row list \<Rightarrow> world \<times> probe \<Rightarrow> (exn + string option) \<times> mi_row list \<times> world \<times> probe" where
  "mi_datasets valueSize [] rows st = (Inr None, rows, st)"
| "mi_datasets valueSize (n # ns) rows st =
     (case mi_dataset valueSize n st of
        (Inl ex, st') \<Rightarrow> (Inl ex, rows, st')
      | (Inr (Stopped msg), st') \<Rightarrow> (Inr (Some msg), rows, st')
      | (Inr (Row row), st') \<Rightarrow> mi_datasets valueSize ns (rows @ [row]) st')"

definition datasetSizes :: "nat list" where
  "datasetSizes = [1024, 4096, 16384, 65536, 250000, 500000, 1000000, 2000000, 4000000, 8000000, 10000000]"

definition investigateMemoryUsage :: "world \<times> probe \<Rightarrow> (exn + string option) \<times> mi_row list \<times> world \<times> probe" where
  "investigateMemoryUsage = mi_datasets 64 datasetSizes []"

text \<open>\<open>main\<close>: the value it returns and the rows of the table.\<close>

definition mi_main :: "world \<times> probe \<Rightarrow> int \<times> mi_row list" where
  "mi_main st = (case investigateMemoryUsage st of (Inl ex, rows, _) \<Rightarrow> (1, rows) | (Inr _, rows, _) \<Rightarrow> (0, rows))"

section \<open>Readings\<close>

lemma exchange_loop_max: "exchange_loop spurious current peak = max peak current"
  by (induction spurious) (auto simp: max_def)

lemma mi_sample_ok: "\<exists>m'. mi_sample m = (Inr (), m') \<and> mi_db m' = mi_db m \<and> mi_peak m \<le> mi_peak m'"
  by (auto simp: mi_sample_def sampler_update_def exchange_loop_max split: prod.splits)

lemma mi_rss_ok: "\<exists>x m'. mi_rss m = (Inr x, m') \<and> mi_db m' = mi_db m \<and> mi_peak m' = mi_peak m"
  by (auto simp: mi_rss_def split: prod.splits)

lemma mi_stop_ok: "\<exists>m'. mi_stop m = (Inr (to_mb (mi_peak m')), m') \<and> mi_db m' = mi_db m \<and> mi_peak m \<le> mi_peak m'"
  by (auto simp: mi_stop_def stopAndGetPeakMB_def sampler_update_def exchange_loop_max split: prod.splits)

lemma mi_now_ok: "mi_now m = (Inr (clock (db_world (mi_db m)) (ticks (db_world (mi_db m)))), m\<lparr>mi_db := (mi_db m)\<lparr>db_world :=
    (db_world (mi_db m))\<lparr>ticks := Suc (ticks (db_world (mi_db m)))\<rparr>\<rparr>\<rparr>)"
  by (simp add: mi_now_def read_clock_def)

text \<open>The clock does not matter to the store.\<close>

lemma db_inv_ticks:
  assumes "db_inv False n ts s"
  shows "db_inv False n ts (s\<lparr>db_world := (db_world s)\<lparr>ticks := t\<rparr>\<rparr>)"
proof -
  let ?w = "(db_world s)\<lparr>ticks := t\<rparr>"
  have "level_serves fmt l us (db_world s) \<Longrightarrow> level_serves fmt l us ?w" for fmt l us
    using tf.serves_stable [where w = "db_world s" and w' = ?w] unfolding level_serves_def
    by (auto elim!: list.rel_mono_strong simp: content_def)
  then have "storage_serves (db_storage s) tss (db_world s) \<Longrightarrow> storage_serves (db_storage s) tss ?w" for tss
    unfolding storage_serves_def by (auto elim!: list.rel_mono_strong)
  moreover have "no_levels_on_disk b (db_world s) \<Longrightarrow> no_levels_on_disk b ?w" for b
    by (simp add: no_levels_on_disk_def lists_all_def is_directory_def)
  ultimately show ?thesis
    using assms by (auto simp: db_inv_def db_config_ok_def memtable_ok_def storage_inv_def healthy_def split: list.splits)
qed

lemma db_view_ticks: "db_inv False n ts s \<Longrightarrow> db_view (s\<lparr>db_world := (db_world s)\<lparr>ticks := t\<rparr>\<rparr>) = db_view s"
  by (rule ext) (simp add: db_inv_view [OF db_inv_ticks] db_inv_view mem_get_def)

section \<open>The files of the tables\<close>

lemma mi_agrees:
  "mi_makeKey = makeKey" "mi_makeValue = makeValue" "mi_resetPaths = resetPaths" "mi_cleanupPaths = cleanupPaths" "mi_makeConfig = makeConfig"
  by (simp_all add: fun_eq_iff mi_makeKey_def makeKey_def mi_makeValue_def makeValue_def mi_resetPaths_def resetPaths_def
      mi_cleanupPaths_def cleanupPaths_def mi_makeConfig_def makeConfig_def)

text \<open>Every listing shows each file once.\<close>

definition lists_once :: "world \<Rightarrow> bool" where
  "lists_once w \<longleftrightarrow> (\<forall>ps. mset (fs_listing w ps) = mset ps)"

lemma lists_once_all: "lists_once w \<Longrightarrow> lists_all w"
  unfolding lists_once_def lists_all_def by (metis set_mset_mset)

definition tables_on_disk :: "tables \<Rightarrow> db \<Rightarrow> bool" where
  "tables_on_disk ts s \<longleftrightarrow>
     distinct (map fst ts) \<and> is_directory (db_world s) (sm_basePath (db_storage s)) \<and>
     \<not> below (sm_basePath (db_storage s)) (w_fullPath (db_wal s)) \<and>
     {q. below (sm_basePath (db_storage s)) q \<and> content (db_world s) q \<noteq> None} = fst ` set ts"

lemma fileCount_tables:
  assumes "tables_on_disk ts s" and "lists_once (db_world s)"
  shows "fileCount (sm_basePath (db_storage s)) (db_world s) = length ts"
proof -
  let ?b = "sm_basePath (db_storage s)" and ?w = "db_world s"
  let ?fs = "filter (below ?b) (remdups (map fst (fs_files ?w)))"
  have count: "fold (\<lambda>p. Suc) ps c = c + length ps" for ps :: "path list" and c :: nat
    by (induction ps arbitrary: c) simp_all
  have "length (fs_listing ?w ?fs) = length ?fs"
    using assms(2) unfolding lists_once_def by (metis size_mset)
  moreover have "set ?fs = fst ` set ts"
    using assms(1) by (auto simp: tables_on_disk_def content_def map_of_eq_None_iff)
  then have "length ?fs = length ts"
    using assms(1) distinct_card [of ?fs] distinct_card [of "map fst ts"] by (simp add: tables_on_disk_def)
  ultimately show ?thesis
    using assms(1) by (simp add: fileCount_def files_below_def count tables_on_disk_def)
qed

lemma tables_on_disk_unchanged:
  assumes "tables_on_disk ts s" and "changes_files {} s s'"
  shows "tables_on_disk ts s'"
proof -
  let ?b = "sm_basePath (db_storage s)"
  have "{q. below ?b q \<and> content (db_world s') q \<noteq> None} = {q. below ?b q \<and> content (db_world s) q \<noteq> None}"
    using assms unfolding tables_on_disk_def changes_files_def by (metis (no_types, lifting) empty_iff)
  then show ?thesis using assms by (simp add: tables_on_disk_def changes_files_def)
qed

lemma table_file_exists:
  assumes "db_inv False n ((p, es) # ts) s"
  shows "below (sm_basePath (db_storage s)) p \<and> content (db_world s) p \<noteq> None"
proof -
  obtain l0 ls where l: "sm_levels (db_storage s) = l0 # ls"
    using assms by (auto simp: db_inv_def storage_inv_def split: list.splits)
  then obtain r where "table_serves (sm_format (db_storage s)) r p es (db_world s)"
    using assms by (auto simp: db_inv_def storage_inv_def storage_serves_def level_serves_def list_all2_Cons2)
  then have "content (db_world s) p \<noteq> None" by (cases "sm_format (db_storage s)") auto
  moreover have "below (sm_basePath (db_storage s)) p"
    using assms by (auto simp: db_inv_def storage_inv_def level_paths_def level_path_def below_def)
  ultimately show ?thesis by blast
qed

lemma tables_on_disk_flushed:
  assumes "tables_on_disk ts s" and "changes_files {p} s s'" and "p \<notin> fst ` set ts" and "db_inv False n ((p, es) # ts) s'"
  shows "tables_on_disk ((p, es) # ts) s'"
proof -
  let ?b = "sm_basePath (db_storage s)"
  have b: "sm_basePath (db_storage s') = ?b" "db_wal s' = db_wal s" using assms(2) by (simp_all add: changes_files_def)
  note p = table_file_exists [OF assms(4)]
  have eq: "content (db_world s') q = content (db_world s) q" if "below ?b q" "q \<noteq> p" for q
    using assms(1,2) that by (auto simp: changes_files_def tables_on_disk_def)
  have "{q. below ?b q \<and> content (db_world s') q \<noteq> None} = insert p {q. below ?b q \<and> content (db_world s) q \<noteq> None}"
    using p b eq by auto (metis option.distinct(1))+
  then show ?thesis
    using assms b by (auto simp: tables_on_disk_def changes_files_def)
qed

section \<open>Loading\<close>

text \<open>
  After \<open>i\<close> of the writes: the keys are in the tables, 1024 in each, and in the memtable, which is not
  empty unless nothing was written.
\<close>

definition load_inv :: "path \<Rightarrow> nat \<Rightarrow> nat \<Rightarrow> db \<Rightarrow> bool" where
  "load_inv b n0 i s \<longleftrightarrow>
     (\<exists>ts. db_inv False (n0 + length ts) ts s \<and> tables_on_disk ts s \<and> lists_once (db_world s) \<and> sm_basePath (db_storage s) = b \<and>
        db_size s = 1024 \<and> length (m_map (db_skiplist s)) + 1024 * length ts = i \<and> (m_map (db_skiplist s) = [] \<longrightarrow> i = 0) \<and>
        fst ` set (m_map (db_skiplist s)) \<subseteq> makeKey ` {..<i} \<and> (\<forall>j < i. db_view s (makeKey j) \<noteq> None))"

lemma length_map_assign_new: "k \<notin> fst ` set m \<Longrightarrow> length (map_assign k e m) = Suc (length m)"
  by (induction k e m rule: map_assign.induct) auto

lemma load_step:
  assumes "load_inv b n0 i s" and "n0 + i div 1024 < 2 ^ 16" and "i < 10 ^ 12" and "valueSize \<le> 2 ^ 30"
  shows "\<exists>s'. db_put (makeKey i) (makeValue valueSize i) s = (Inr (Response True ''OK'' None), s') \<and> load_inv b n0 (Suc i) s'"
proof -
  let ?m = "m_map (db_skiplist s)"
  obtain ts where ts: "db_inv False (n0 + length ts) ts s" "tables_on_disk ts s" "lists_once (db_world s)"
      "sm_basePath (db_storage s) = b" "db_size s = 1024" "length ?m + 1024 * length ts = i" "?m = [] \<longrightarrow> i = 0"
      "fst ` set ?m \<subseteq> makeKey ` {..<i}" "\<forall>j < i. db_view s (makeKey j) \<noteq> None"
    using assms(1) by (auto simp: load_inv_def)
  have "length ts \<le> i div 1024" using ts(6) by (auto simp: less_eq_div_iff_mult_less_eq)
  then have n: "n0 + length ts < 2 ^ 16" using assms(2) by linarith
  have len: "length (makeKey i) \<le> 2 ^ 30" "length (makeValue valueSize i) \<le> 2 ^ 30"
    using length_makeKey [OF assms(3)] assms(4) by (simp_all add: makeValue_def)
  obtain s' n' ts' where s': "db_put (makeKey i) (makeValue valueSize i) s = (Inr (Response True ''OK'' None), s')"
      "db_inv False n' ts' s'" "db_view s' = (db_view s)(makeKey i \<mapsto> makeValue valueSize i)"
      "flushed_if (mem_full s) (n0 + length ts) ts n' ts' s s'"
      "m_map (db_skiplist s') = map_assign (makeKey i) (Entry (makeKey i) (makeValue valueSize i) False) (if mem_full s then [] else ?m)"
    using db_put_exact [OF ts(1) n len] by blast
  have "makeKey i \<noteq> makeKey j" if "j < i" for j using that assms(3) makeKey_inject [of i j] by simp
  then have new: "makeKey i \<notin> fst ` set ?m" using ts(8) by blast
  have keys: "fst ` set (m_map (db_skiplist s')) \<subseteq> makeKey ` {..<Suc i}"
    using ts(8) unfolding s'(5) fst_map_assign by (auto split: if_splits)
  have view: "\<forall>j < Suc i. db_view s' (makeKey j) \<noteq> None" using ts(9) s'(3) by (auto simp: less_Suc_eq)
  have ne: "m_map (db_skiplist s') \<noteq> []" by (rule db_put_nonempty [OF s'(1)])
  have "load_inv b n0 (Suc i) s'"
  proof (cases "mem_full s")
    case True
    then obtain p es where p: "n' = Suc (n0 + length ts)" "ts' = (p, es) # ts" "p \<notin> fst ` set ts" "changes_files {p} s s'"
      using s'(4) by (auto simp: flushed_if_def)
    have "length ?m = 1024" using True ts(5) by (simp add: mem_full_def)
    then show ?thesis
      using p s'(2,5) True ts ne keys view tables_on_disk_flushed [OF ts(2) p(4,3)]
      unfolding load_inv_def by (intro exI [of _ ts']) (simp add: changes_files_def lists_once_def)
  next
    case False
    then have p: "n' = n0 + length ts" "ts' = ts" "changes_files {} s s'" using s'(4) by (simp_all add: flushed_if_def)
    then show ?thesis
      using s'(2,5) False ts ne keys view tables_on_disk_unchanged [OF ts(2) p(3)] length_map_assign_new [OF new]
      unfolding load_inv_def by (intro exI [of _ ts]) (simp add: changes_files_def lists_once_def)
  qed
  then show ?thesis using s'(1) by blast
qed

lemma sampled_ok:
  "\<exists>m'. (if b then mi_sample else sx_return ()) m = (Inr (), m') \<and> mi_db m' = mi_db m"
  using mi_sample_ok [of m] by (auto simp: sx_simps)

lemma mi_load_ok:
  assumes "load_inv b n0 i (mi_db m)" and "i \<le> N" and "n0 + (N + 1023) div 1024 \<le> 2 ^ 16" and "N \<le> 10 ^ 12" and "valueSize \<le> 2 ^ 30"
  shows "\<exists>m'. mi_load valueSize [i..<N] m = (Inr None, m') \<and> load_inv b n0 N (mi_db m')"
  using assms(1,2)
proof (induction "[i..<N]" arbitrary: i m)
  case Nil
  then have "i = N" using upt_eq_Nil_conv [of i N] by force
  then show ?case using Nil.prems(1) by (simp add: sx_simps)
next
  case (Cons j js)
  have "i < N" and js: "js = [Suc i..<N]" "j = i" using Cons.hyps(2) [symmetric] by (auto simp: upt_eq_Cons_conv)
  then have "(i + 1024) div 1024 \<le> (N + 1023) div 1024" by (intro div_le_mono) simp
  then have "i div 1024 < (N + 1023) div 1024" by simp
  then have "n0 + i div 1024 < 2 ^ 16" "i < 10 ^ 12" using assms(3,4) \<open>i < N\<close> by linarith+
  then obtain s where s: "db_put (makeKey i) (makeValue valueSize i) (mi_db m) = (Inr (Response True ''OK'' None), s)" "load_inv b n0 (Suc i) s"
    using load_step [OF Cons.prems(1) _ _ assms(5)] by blast
  obtain m1 where m1: "(if i mod 10000 = 0 then mi_sample else sx_return ()) (m\<lparr>mi_db := s\<rparr>) = (Inr (), m1)" "mi_db m1 = s"
    using sampled_ok [of "i mod 10000 = 0" "m\<lparr>mi_db := s\<rparr>"] by auto
  obtain m' where "mi_load valueSize js m1 = (Inr None, m')" "load_inv b n0 N (mi_db m')"
    using Cons.hyps(1) [of "Suc i" m1] js s(2) m1(2) \<open>i < N\<close> by auto
  then show ?case
    using s(1) m1(1) js \<open>i < N\<close> by (simp add: upt_conv_Cons mi_agrees on_db_def sx_simps del: upt_Suc)
qed

lemma load_flush:
  assumes "load_inv b n0 N s" and "0 < N" and "n0 + (N + 1023) div 1024 \<le> 2 ^ 16"
  shows "\<exists>s' ts. db_forceFlushForTests s = (Inr (Response True ''OK'' None), s') \<and> db_inv False (n0 + length ts) ts s' \<and>
    tables_on_disk ts s' \<and> lists_once (db_world s') \<and> sm_basePath (db_storage s') = b \<and> length ts = (N + 1023) div 1024 \<and>
    (\<forall>j < N. db_view s' (makeKey j) \<noteq> None)"
proof -
  let ?m = "m_map (db_skiplist s)"
  obtain ts where ts: "db_inv False (n0 + length ts) ts s" "tables_on_disk ts s" "lists_once (db_world s)"
      "sm_basePath (db_storage s) = b" "db_size s = 1024" "length ?m + 1024 * length ts = N" "?m \<noteq> []"
      "\<forall>j < N. db_view s (makeKey j) \<noteq> None"
    using assms(1,2) by (auto simp: load_inv_def)
  have "length ?m \<le> 1024" using ts(1,5) by (simp add: db_inv_def memtable_ok_def)
  moreover obtain j where "length ?m = Suc j" using ts(7) by (cases ?m) auto
  ultimately have "N + 1023 = j + Suc (length ts) * 1024" "j < 1024" using ts(6) by simp_all
  then have k: "Suc (length ts) = (N + 1023) div 1024" by simp
  then have "n0 + length ts < 2 ^ 16" using assms(3) by linarith
  then obtain s' p es where s': "db_forceFlushForTests s = (Inr (Response True ''OK'' None), s')"
      "db_inv False (Suc (n0 + length ts)) ((p, es) # ts) s'" "db_view s' = db_view s" "p \<notin> fst ` set ts" "changes_files {p} s s'"
    using db_flush_exact [OF ts(1) _ ts(7)] by blast
  then show ?thesis
    using tables_on_disk_flushed [OF ts(2) s'(5,4,2)] ts(3,4,8) k [symmetric]
    by (intro exI [of _ s'] exI [of _ "(p, es) # ts"]) (simp add: changes_files_def lists_once_def)
qed

section \<open>Reading\<close>

lemma mi_read_ok:
  assumes "db_inv False n ts (mi_db m)" and "\<forall>j < N. db_view (mi_db m) (makeKey j) \<noteq> None" and "0 < N"
  shows "\<exists>m'. mi_read N is pos m = (Inr None, m') \<and> mi_db m' = mi_db m"
  using assms(1,2)
proof (induction "is" arbitrary: pos m)
  case (Cons i "is")
  let ?c = "(pos + mi_kRandomStep) mod N"
  obtain v where "db_view (mi_db m) (makeKey ?c) = Some v" using Cons.prems(2) assms(3) by fastforce
  then have get: "db_get (makeKey ?c) (mi_db m) = Inr (Response True ''OK'' (Some v))"
    using db_get_inv [OF Cons.prems(1)] by (simp add: get_response_def)
  have same: "m\<lparr>mi_db := mi_db m\<rparr> = m" by simp
  obtain m1 where m1: "(if i mod 1000 = 0 then mi_sample else sx_return ()) m = (Inr (), m1)" "mi_db m1 = mi_db m"
    using sampled_ok by blast
  then obtain m' where "mi_read N is ?c m1 = (Inr None, m')" "mi_db m' = mi_db m"
    using Cons.IH [of m1 ?c] Cons.prems by auto
  then show ?case using get m1(1) by (simp add: Let_def mi_agrees on_db_def sx_simps same)
qed (simp add: sx_simps)

lemma mi_measure_ok:
  assumes "load_inv (bp_sstables paths) n0 0 (mi_db m)" and "0 < N" and "n0 + (N + 1023) div 1024 \<le> 2 ^ 16" and "N \<le> 10 ^ 12"
    and "valueSize \<le> 2 ^ 30"
  shows "\<exists>row m'. mi_measure paths valueSize N m = (Inr (Row row), m') \<and> row_keys row = N \<and>
    row_sstableFiles row = (N + 1023) div 1024 \<and> row_readOps row = 100000 \<and> healthy (db_world (mi_db m')) \<and>
    lists_once (db_world (mi_db m')) \<and> name_counter (db_world (mi_db m')) = of_nat (n0 + (N + 1023) div 1024)"
proof -
  let ?k = "(N + 1023) div 1024"
  obtain m1 where m1: "mi_load valueSize [0..<N] m = (Inr None, m1)" "load_inv (bp_sstables paths) n0 N (mi_db m1)"
    using mi_load_ok [OF assms(1) _ assms(3-5)] by auto
  obtain m2 where m2: "mi_sample m1 = (Inr (), m2)" "mi_db m2 = mi_db m1" using mi_sample_ok by blast
  obtain s ts where s: "db_forceFlushForTests (mi_db m2) = (Inr (Response True ''OK'' None), s)" "db_inv False (n0 + length ts) ts s"
      "tables_on_disk ts s" "lists_once (db_world s)" "sm_basePath (db_storage s) = bp_sstables paths" "length ts = ?k"
      "\<forall>j < N. db_view s (makeKey j) \<noteq> None"
    using load_flush [OF m1(2) assms(2,3)] m2(2) by auto
  obtain m3 where m3: "mi_sample (m2\<lparr>mi_db := s\<rparr>) = (Inr (), m3)" "mi_db m3 = s" using mi_sample_ok [of "m2\<lparr>mi_db := s\<rparr>"] by auto
  obtain x m4 where m4: "mi_rss m3 = (Inr x, m4)" "mi_db m4 = s" using mi_rss_ok [of m3] m3(2) by auto
  have files: "fileCount (bp_sstables paths) (db_world s) = ?k" using fileCount_tables [OF s(3,4)] s(5,6) by simp
  obtain t1 m5 where m5: "mi_now m4 = (Inr t1, m5)" "mi_db m5 = s\<lparr>db_world := (db_world s)\<lparr>ticks := Suc (ticks (db_world s))\<rparr>\<rparr>"
    using mi_now_ok [of m4] m4(2) by auto
  have inv5: "db_inv False (n0 + ?k) ts (mi_db m5)" unfolding m5(2) using db_inv_ticks s(2,6) by metis
  have "db_view (mi_db m5) = db_view s"
    unfolding m5(2) by (rule db_view_ticks [OF s(2)])
  then obtain m6 where m6: "mi_read N [0..<kReadOps] 0 m5 = (Inr None, m6)" "mi_db m6 = mi_db m5"
    using mi_read_ok [OF inv5 _ assms(2)] s(7) by metis
  obtain t2 m7 where m7: "mi_now m6 = (Inr t2, m7)" "mi_db m7 = (mi_db m6)\<lparr>db_world := (db_world (mi_db m6))\<lparr>ticks := Suc (ticks (db_world (mi_db m6)))\<rparr>\<rparr>"
    using mi_now_ok [of m6] by auto
  obtain m8 where m8: "mi_sample m7 = (Inr (), m8)" "mi_db m8 = mi_db m7" using mi_sample_ok by blast
  obtain y m9 where m9: "mi_rss m8 = (Inr y, m9)" "mi_db m9 = mi_db m8" using mi_rss_ok by blast
  obtain m' where m': "mi_stop m9 = (Inr (to_mb (mi_peak m')), m')" "mi_db m' = mi_db m9" using mi_stop_ok by blast
  have "db_inv False (n0 + ?k) ts (mi_db m')"
    unfolding m' m9 m8 m7(2) m6(2) by (rule db_inv_ticks [OF inv5])
  then have "healthy (db_world (mi_db m'))" "name_counter (db_world (mi_db m')) = of_nat (n0 + ?k)"
    by (simp_all add: db_inv_def storage_inv_def)
  moreover have "lists_once (db_world (mi_db m'))"
    using s(4) m'(2) m9(2) m8(2) m7(2) m6(2) m5(2) by (simp add: lists_once_def)
  ultimately show ?thesis
    using m1(1) m2(1) s(1) m3(1) m4 m5(1) m6(1) m7(1) m8(1) m9(1) m'(1) files
    by (simp add: mi_measure_def on_db_def sx_simps kReadOps_def [symmetric])
qed

section \<open>The whole run\<close>

lemma mi_paths:
  "bp_wal (mi_makePaths n) = bp_root (mi_makePaths n) @ ''/wal''" "bp_sstables (mi_makePaths n) = bp_root (mi_makePaths n) @ ''/sstables''"
  by (simp_all add: mi_makePaths_def Let_def)

lemma resetPaths_no_files:
  assumes "healthy w" and "below (bp_root paths) q"
  shows "content (resetPaths paths w) q = None"
  using assms by (auto simp: resetPaths_def remove_all_def content_def healthy_def map_of_eq_None_iff)

lemma below_trans:
  assumes "below (r @ ''/'' @ n) q"
  shows "below r q"
proof (cases "q = r @ ''/'' @ n")
  case False
  have "take (length r + 1) q = take (length r + 1) (take (length (r @ ''/'' @ n) + 1) q)" by (simp add: min_def)
  also have "\<dots> = take (length r + 1) ((r @ ''/'' @ n) @ ''/'')" using assms False by (simp add: below_def)
  also have "\<dots> = r @ ''/''" by simp
  finally show ?thesis by (simp add: below_def)
qed (simp add: below_def)

lemma mi_new_store:
  assumes "healthy w" and "lists_once w" and "name_counter w = of_nat n0"
  shows "load_inv (bp_sstables (mi_makePaths name)) n0 0 (createDbWithConfig (mi_makeConfig (mi_makePaths name)) (mi_resetPaths (mi_makePaths name) w))"
proof -
  let ?p = "mi_makePaths name"
  let ?w = "resetPaths ?p w"
  let ?s = "createDbWithConfig (makeConfig ?p) ?w"
  note clear = resetPaths_clear [OF assms(1) lists_once_all [OF assms(2)] mi_paths]
  have "db_inv False n0 [] ?s"
    unfolding createDbWithConfig_def Let_def using clear assms(3) by (intro db_inv_new_at) (simp_all add: makeConfig_def DbFactoryConfig_def)
  moreover have "lists_once ?w" using assms(2) by (simp add: lists_once_def resetPaths_def remove_all_def)
  moreover have "is_directory ?w (bp_sstables ?p)" using assms(1) by (simp add: resetPaths_def remove_all_frame)
  moreover have "content ?w q = None" if "below (bp_sstables ?p) q" for q
    using that below_trans [of "bp_root ?p" "''sstables''" q] resetPaths_no_files [OF assms(1)] by (simp add: mi_paths)
  moreover have "\<not> below (bp_sstables ?p) (w_fullPath (WAL 0 (bp_wal ?p)))"
    by (simp add: below_def WAL_def mi_paths)
  ultimately show ?thesis
    unfolding mi_agrees load_inv_def
    by (intro exI [of _ "[]"])
      (auto simp: tables_on_disk_def createDbWithConfig_def makeConfig_def DbFactoryConfig_def MemTableImpl_def StorageManagerImpl_def skip_list_empty_def)
qed

lemma mi_dataset_ok:
  assumes "healthy w" and "lists_once w" and "name_counter w = of_nat n0"
    and "0 < N" and "n0 + (N + 1023) div 1024 \<le> 2 ^ 16" and "N \<le> 10 ^ 12" and "valueSize \<le> 2 ^ 30"
  shows "\<exists>row w' pr'. mi_dataset valueSize N (w, pr) = (Inr (Row row), w', pr') \<and> row_keys row = N \<and>
    row_sstableFiles row = (N + 1023) div 1024 \<and> row_readOps row = 100000 \<and> healthy w' \<and> lists_once w' \<and>
    name_counter w' = of_nat (n0 + (N + 1023) div 1024)"
proof -
  let ?p = "mi_makePaths (''warm-read-scaling-'' @ to_string N)"
  obtain peak pr1 where st: "sampler_start pr = (peak, pr1)" by fastforce
  let ?m = "\<lparr>mi_db = createDbWithConfig (mi_makeConfig ?p) (mi_resetPaths ?p w), mi_peak = peak, mi_probe = pr1\<rparr>"
  obtain row m where m: "mi_measure ?p valueSize N ?m = (Inr (Row row), m)" "row_keys row = N"
      "row_sstableFiles row = (N + 1023) div 1024" "row_readOps row = 100000" "healthy (db_world (mi_db m))"
      "lists_once (db_world (mi_db m))" "name_counter (db_world (mi_db m)) = of_nat (n0 + (N + 1023) div 1024)"
    using mi_measure_ok [of ?p n0 ?m N valueSize] mi_new_store [OF assms(1-3)] assms(4-7) by auto
  then have "mi_dataset valueSize N (w, pr) = (Inr (Row row), mi_cleanupPaths ?p (db_world (mi_db m)), mi_probe m)"
    by (simp add: mi_dataset_def Let_def st)
  moreover have "lists_once (mi_cleanupPaths ?p (db_world (mi_db m)))"
    using m(6) by (simp add: mi_cleanupPaths_def remove_all_def lists_once_def)
  ultimately show ?thesis using m by (simp add: mi_cleanupPaths_def remove_all_frame)
qed

lemma mi_datasets_ok:
  assumes "healthy w" and "lists_once w" and "name_counter w = of_nat n0"
    and "\<forall>N \<in> set Ns. 0 < N \<and> N \<le> 10 ^ 12" and "n0 + (\<Sum>N \<leftarrow> Ns. (N + 1023) div 1024) \<le> 2 ^ 16" and "valueSize \<le> 2 ^ 30"
  shows "\<exists>rs w' pr'. mi_datasets valueSize Ns rows (w, pr) = (Inr None, rows @ rs, w', pr') \<and> map row_keys rs = Ns \<and>
    map row_sstableFiles rs = map (\<lambda>N. (N + 1023) div 1024) Ns \<and> (\<forall>r \<in> set rs. row_readOps r = 100000)"
  using assms(1-5)
proof (induction Ns arbitrary: n0 rows w pr)
  case (Cons N Ns)
  let ?k = "(N + 1023) div 1024"
  have b: "0 < N" "N \<le> 10 ^ 12" "n0 + ?k \<le> 2 ^ 16" "(n0 + ?k) + (\<Sum>N \<leftarrow> Ns. (N + 1023) div 1024) \<le> 2 ^ 16"
    using Cons.prems(4,5) by simp_all
  obtain row w1 pr1 where r: "mi_dataset valueSize N (w, pr) = (Inr (Row row), w1, pr1)" "row_keys row = N" "row_sstableFiles row = ?k"
      "row_readOps row = 100000" "healthy w1" "lists_once w1" "name_counter w1 = of_nat (n0 + ?k)"
    using mi_dataset_ok [OF Cons.prems(1-3) b(1,3,2) assms(6)] by blast
  have "\<forall>M \<in> set Ns. 0 < M \<and> M \<le> 10 ^ 12" using Cons.prems(4) by simp
  then obtain rs w' pr' where "mi_datasets valueSize Ns (rows @ [row]) (w1, pr1) = (Inr None, (rows @ [row]) @ rs, w', pr')"
      "map row_keys rs = Ns" "map row_sstableFiles rs = map (\<lambda>N. (N + 1023) div 1024) Ns" "\<forall>r \<in> set rs. row_readOps r = 100000"
    using Cons.IH [OF r(5-7) _ b(4)] by blast
  then show ?case using r by (intro exI [of _ "row # rs"]) simp
qed simp

section \<open>Properties\<close>

text \<open>
  C38: the memory investigation runs to its end.  On a system without faults, whatever the readings of
  the process memory and of the clock are, it returns 0 and its table has one row for each of the
  eleven sizes, in order; every one of the hundred thousand reads per size finds its key; and the
  number of files it reports is the number of keys over the memtable capacity, rounded up.
\<close>

theorem memory_investigation_completes:
  assumes "healthy w" and "lists_once w" and "name_counter w = 0"
  shows "\<exists>rows. mi_main (w, pr) = (0, rows) \<and> map row_keys rows = datasetSizes \<and>
    map row_sstableFiles rows = [1, 4, 16, 64, 245, 489, 977, 1954, 3907, 7813, 9766] \<and> (\<forall>r \<in> set rows. row_readOps r = 100000)"
proof -
  have "(\<forall>N \<in> set datasetSizes. 0 < N \<and> N \<le> 10 ^ 12) \<and> 0 + (\<Sum>N \<leftarrow> datasetSizes. (N + 1023) div 1024) \<le> 2 ^ 16"
    by (simp add: datasetSizes_def)
  then obtain rs w' pr' where "mi_datasets 64 datasetSizes [] (w, pr) = (Inr None, [] @ rs, w', pr')" "map row_keys rs = datasetSizes"
      "map row_sstableFiles rs = map (\<lambda>N. (N + 1023) div 1024) datasetSizes" "\<forall>r \<in> set rs. row_readOps r = 100000"
    using mi_datasets_ok [OF assms(1,2), of 0 datasetSizes 64 "[]" pr] assms(3) by auto
  then show ?thesis by (simp add: mi_main_def investigateMemoryUsage_def) (simp add: datasetSizes_def)
qed

theorem memory_investigation_completes_witness:
  "\<exists>rows. mi_main (fresh_world, \<lparr>pr_statm = (\<lambda>n. Some (of_nat n, of_nat n)), pr_spurious = (\<lambda>n. n mod 2), pr_pageSize = 4096, pr_reads = 0\<rparr>) = (0, rows) \<and>
    length rows = 11"
proof -
  have "lists_once fresh_world" "name_counter fresh_world = 0" by (simp_all add: lists_once_def fresh_world_def)
  then obtain rows where "mi_main (fresh_world, \<lparr>pr_statm = (\<lambda>n. Some (of_nat n, of_nat n)), pr_spurious = (\<lambda>n. n mod 2), pr_pageSize = 4096, pr_reads = 0\<rparr>) = (0, rows)"
      and "map row_keys rows = datasetSizes"
    using memory_investigation_completes [OF healthy_fresh_world] by metis
  moreover from this(2) have "length rows = length datasetSizes" by (metis length_map)
  ultimately show ?thesis by (simp add: datasetSizes_def)
qed

end
