(* ===== verification/Archived_Bench.thy ===== *)
theory Archived_Bench
  imports Complex_Main Bench Ports "HOL-Library.Multiset"
begin

text \<open>
  The archived benchmark program \<open>archive/tinykv_benchmarks/main.cpp\<close>: its command line, its four
  scenarios and the way it runs them.  The program was written for a database class whose responses had
  a field \<open>success\<close>; that class is not in the sources and its operations are an argument (\<open>old_api\<close>).
  The pseudo-random permutation of \<open>std::shuffle\<close> and the readings of the steady clock are arguments as
  well.  The \<open>double\<close> fields are the rational numbers they approximate.

  With \<open>--parallel\<close> above 1 the scenarios of a batch run concurrently under \<open>std::async\<close>.  What a batch
  does is an argument; the theorem is about the runs one by one, which is what the program does by
  default.
\<close>

section \<open>Command line\<close>

record BenchmarkOptions =
  opt_numKeys :: u64
  opt_valueSize :: u64
  opt_parallelism :: u64
  opt_memtableCapacity :: int

definition default_options :: BenchmarkOptions where
  "default_options = \<lparr>opt_numKeys = 10000, opt_valueSize = 128, opt_parallelism = 1, opt_memtableCapacity = 4096\<rparr>"

datatype ScenarioType = PutAscending | PutRandom | ReadSequential | ReadRandom

definition scenarioLabel :: "ScenarioType \<Rightarrow> string" where
  "scenarioLabel type =
     (case type of PutAscending \<Rightarrow> ''put-ascending'' | PutRandom \<Rightarrow> ''put-random''
      | ReadSequential \<Rightarrow> ''read-sequential'' | ReadRandom \<Rightarrow> ''read-random'')"

text \<open>
  \<open>std::stoull\<close> and \<open>std::stoi\<close>: the value and the number of characters used, or what the exception
  says, which is the name of the function in both cases.
\<close>

definition stoull_prefix :: "string \<Rightarrow> string + u64 \<times> nat" where
  "stoull_prefix s =
     (case strtoul s of (v, idx, failed) \<Rightarrow> if idx = 0 \<or> failed then Inl ''stoull'' else Inr (v, idx))"

definition stoi_prefix :: "string \<Rightarrow> string + int \<times> nat" where
  "stoi_prefix s =
     (case split_sign (dropWhile isspace_char s) of
        (negative, t) \<Rightarrow>
          let ds = takeWhile isdigit t; v = (if negative then - int (decimal_value ds) else int (decimal_value ds))
          in if ds = [] \<or> v < - (2 ^ 31) \<or> 2 ^ 31 \<le> v then Inl ''stoi''
             else Inr (v, length s - length (dropWhile isdigit t)))"

definition invalid_value :: "string \<Rightarrow> string \<Rightarrow> string \<Rightarrow> string" where
  "invalid_value value flag what = ''Invalid value for '' @ flag @ '': '' @ value @ '' ('' @ what @ '')''"

definition parseSizeT :: "string \<Rightarrow> string \<Rightarrow> string + u64" where
  "parseSizeT value flag =
     (case stoull_prefix value of
        Inl what \<Rightarrow> Inl (invalid_value value flag what)
      | Inr (parsed, idx) \<Rightarrow>
          if idx \<noteq> length value then Inl (invalid_value value flag ''contains trailing characters'') else Inr parsed)"

definition parseInt :: "string \<Rightarrow> string \<Rightarrow> string + int" where
  "parseInt value flag =
     (case stoi_prefix value of
        Inl what \<Rightarrow> Inl (invalid_value value flag what)
      | Inr (parsed, idx) \<Rightarrow>
          if idx \<noteq> length value then Inl (invalid_value value flag ''contains trailing characters'') else Inr parsed)"

text \<open>The loop over the arguments after the program name; unknown arguments are passed over.\<close>

fun parse_args :: "string list \<Rightarrow> BenchmarkOptions \<Rightarrow> string + BenchmarkOptions" where
  "parse_args [] opts = Inr opts"
| "parse_args (arg # args) opts =
     (if arg \<in> {''--keys'', ''--value-size'', ''--parallel'', ''--memtable''} then
        case args of
          [] \<Rightarrow> Inl (''Missing value for '' @ arg)
        | v # rest \<Rightarrow>
            (if arg = ''--memtable'' then
               case parseInt v arg of
                 Inl e \<Rightarrow> Inl e
               | Inr n \<Rightarrow> parse_args rest (opts\<lparr>opt_memtableCapacity := n\<rparr>)
             else
               case parseSizeT v arg of
                 Inl e \<Rightarrow> Inl e
               | Inr n \<Rightarrow> parse_args rest
                   (if arg = ''--keys'' then opts\<lparr>opt_numKeys := n\<rparr>
                    else if arg = ''--value-size'' then opts\<lparr>opt_valueSize := n\<rparr>
                    else opts\<lparr>opt_parallelism := n\<rparr>))
      else parse_args args opts)"

definition parseOptions :: "string list \<Rightarrow> string + BenchmarkOptions" where
  "parseOptions args =
     (case parse_args args default_options of
        Inl e \<Rightarrow> Inl e
      | Inr opts \<Rightarrow>
          let opts1 = (if opt_numKeys opts = 0 then opts\<lparr>opt_numKeys := 1\<rparr> else opts);
              opts2 = (if opt_valueSize opts1 = 0 then opts1\<lparr>opt_valueSize := 1\<rparr> else opts1);
              opts3 = (if opt_parallelism opts2 = 0 then opts2\<lparr>opt_parallelism := 1\<rparr> else opts2)
          in Inr (if opt_memtableCapacity opts3 \<le> 0 then opts3\<lparr>opt_memtableCapacity := 1\<rparr> else opts3))"

section \<open>Scenarios\<close>

record BenchmarkSpec =
  sp_id :: nat
  sp_type :: ScenarioType
  sp_options :: BenchmarkOptions
  sp_name :: string
  sp_seed :: u64

definition buildSpecs :: "BenchmarkOptions \<Rightarrow> BenchmarkSpec list" where
  "buildSpecs opts =
     map (\<lambda>(i, type). \<lparr>sp_id = i, sp_type = type, sp_options = opts, sp_name = scenarioLabel type, sp_seed = 1337 + of_nat i\<rparr>)
       (enumerate 0 [PutAscending, PutRandom, ReadSequential, ReadRandom])"

definition makeOrderedKeys :: "nat \<Rightarrow> string list" where
  "makeOrderedKeys n = map (\<lambda>i. ''key-'' @ to_string i) [0..<n]"

definition ab_makeValue :: "nat \<Rightarrow> string" where
  "ab_makeValue bytes = replicate bytes (CHR ''v'')"

definition computeBytes :: "string list \<Rightarrow> u64 \<Rightarrow> u64" where
  "computeBytes keys valueSize = fold (\<lambda>key total. total + of_nat (length key)) keys 0 + of_nat (length keys) * valueSize"

record BenchmarkMetrics =
  bm_scenario :: string
  bm_operations :: nat
  bm_bytesProcessed :: u64
  bm_durationSeconds :: rat
  bm_opsPerSecond :: rat
  bm_mbPerSecond :: rat

record BenchmarkResult =
  br_spec :: BenchmarkSpec
  br_metrics :: BenchmarkMetrics

text \<open>The duration is in nanoseconds.\<close>

definition buildMetrics :: "BenchmarkSpec \<Rightarrow> nat \<Rightarrow> u64 \<Rightarrow> int \<Rightarrow> BenchmarkMetrics" where
  "buildMetrics spec operations bytes duration =
     (let seconds = of_int duration / 1000000000
      in \<lparr>bm_scenario = sp_name spec, bm_operations = operations, bm_bytesProcessed = bytes, bm_durationSeconds = seconds,
          bm_opsPerSecond = (if seconds > 0 then of_nat operations / seconds else 0),
          bm_mbPerSecond = (if seconds > 0 then (of_nat (unat bytes) / (1024 * 1024)) / seconds else 0)\<rparr>)"

text \<open>
  The readings of the steady clock, in nanoseconds, before and after the timed loop of a scenario.
\<close>

record stopwatch =
  sw_start :: int
  sw_stop :: int

definition elapsed :: "stopwatch \<Rightarrow> int" where
  "elapsed t = sw_stop t - sw_start t"

text \<open>The directories of a scenario.  An error in creating them throws, one in removing them does not.\<close>

definition ab_paths :: "BenchmarkSpec \<Rightarrow> bench_paths" where
  "ab_paths spec =
     (let root = ''benchmarks/run-data'' @ ''/'' @ sp_name spec @ ''-'' @ to_string (sp_id spec)
      in \<lparr>bp_root = root, bp_wal = root @ ''/wal'', bp_sstables = root @ ''/sstables''\<rparr>)"

definition prepareStorage :: "BenchmarkSpec \<Rightarrow> (world, bench_paths) sx" where
  "prepareStorage spec w =
     (let paths = ab_paths spec
      in sx_bind (create_directories_or_throw (bp_root paths)) (\<lambda>_.
         sx_bind (create_directories_or_throw (bp_wal paths)) (\<lambda>_.
         sx_bind (create_directories_or_throw (bp_sstables paths)) (\<lambda>_.
           sx_return paths))) (remove_all (bp_root paths) w))"

definition cleanupStorage :: "bench_paths \<Rightarrow> world \<Rightarrow> world" where
  "cleanupStorage paths w = remove_all (bp_root paths) w"

text \<open>The database the program was written for.\<close>

record old_response =
  or_success :: bool
  or_message :: string
  or_data :: "string option"

record 'd old_api =
  api_create :: "db_config \<Rightarrow> world \<Rightarrow> 'd"
  api_put :: "string \<Rightarrow> string \<Rightarrow> ('d, old_response) sx"
  api_get :: "string \<Rightarrow> ('d, old_response) sx"
  api_flush :: "('d, old_response) sx"
  api_world :: "'d \<Rightarrow> world"

definition ab_config :: "bench_paths \<Rightarrow> BenchmarkSpec \<Rightarrow> db_config" where
  "ab_config paths spec =
     DbFactoryConfig\<lparr>cfg_memtableCapacity := opt_memtableCapacity (sp_options spec), cfg_walId := of_nat (sp_id spec),
       cfg_walDirectory := bp_wal paths, cfg_sstableDirectory := bp_sstables paths\<rparr>"

definition createDb :: "'d old_api \<Rightarrow> bench_paths \<Rightarrow> BenchmarkSpec \<Rightarrow> world \<Rightarrow> 'd" where
  "createDb api paths spec w = api_create api (ab_config paths spec) w"

definition ensureSuccess :: "old_response \<Rightarrow> string \<Rightarrow> ('d, unit) sx" where
  "ensureSuccess resp action =
     (if \<not> or_success resp then sx_throw (Runtime_error (action @ '': '' @ or_message resp)) else sx_return ())"

definition ensureSuccess_data :: "old_response \<Rightarrow> string \<Rightarrow> ('d, unit) sx" where
  "ensureSuccess_data resp action =
     (if \<not> or_success resp \<or> or_data resp = None then sx_throw (Runtime_error (action @ '': '' @ or_message resp)) else sx_return ())"

fun put_all :: "'d old_api \<Rightarrow> string \<Rightarrow> string \<Rightarrow> string list \<Rightarrow> ('d, unit) sx" where
  "put_all api action value [] = sx_return ()"
| "put_all api action value (key # keys) =
     sx_bind (api_put api key value) (\<lambda>resp. sx_bind (ensureSuccess resp action) (\<lambda>_. put_all api action value keys))"

definition populate :: "'d old_api \<Rightarrow> string list \<Rightarrow> string \<Rightarrow> ('d, unit) sx" where
  "populate api keys value = put_all api ''populate put'' value keys"

fun get_all :: "'d old_api \<Rightarrow> string list \<Rightarrow> ('d, unit) sx" where
  "get_all api [] = sx_return ()"
| "get_all api (key # keys) =
     sx_bind (api_get api key) (\<lambda>resp. sx_bind (ensureSuccess_data resp ''get'') (\<lambda>_. get_all api keys))"

text \<open>A database is created in the world and destroyed at the end of the call.\<close>

definition with_db :: "'d old_api \<Rightarrow> bench_paths \<Rightarrow> BenchmarkSpec \<Rightarrow> ('d, unit) sx \<Rightarrow> (world, unit) sx" where
  "with_db api paths spec body w = (case body (createDb api paths spec w) of (r, d) \<Rightarrow> (r, api_world api d))"

type_synonym shuffler = "u64 \<Rightarrow> string list \<Rightarrow> string list"

definition runPutBenchmark :: "'d old_api \<Rightarrow> shuffler \<Rightarrow> (BenchmarkSpec \<Rightarrow> stopwatch) \<Rightarrow> BenchmarkSpec \<Rightarrow> bool \<Rightarrow> (world, BenchmarkResult) sx" where
  "runPutBenchmark api shuffleKeys steady spec randomOrder =
     (let orderedKeys = makeOrderedKeys (unat (opt_numKeys (sp_options spec)));
          keys = (if randomOrder then shuffleKeys (sp_seed spec) orderedKeys else orderedKeys);
          value = ab_makeValue (unat (opt_valueSize (sp_options spec)));
          bytes = computeBytes keys (of_nat (length value))
      in sx_bind (prepareStorage spec) (\<lambda>storage.
         sx_bind (with_db api storage spec (put_all api ''put'' value keys)) (\<lambda>_ w.
           (Inr \<lparr>br_spec = spec, br_metrics = buildMetrics spec (length keys) bytes (elapsed (steady spec))\<rparr>, cleanupStorage storage w))))"

definition runReadBenchmark :: "'d old_api \<Rightarrow> shuffler \<Rightarrow> (BenchmarkSpec \<Rightarrow> stopwatch) \<Rightarrow> BenchmarkSpec \<Rightarrow> bool \<Rightarrow> (world, BenchmarkResult) sx" where
  "runReadBenchmark api shuffleKeys steady spec randomOrder =
     (let orderedKeys = makeOrderedKeys (unat (opt_numKeys (sp_options spec)));
          readKeys = (if randomOrder then shuffleKeys (sp_seed spec) orderedKeys else orderedKeys);
          value = ab_makeValue (unat (opt_valueSize (sp_options spec)));
          bytes = computeBytes readKeys (of_nat (length value))
      in sx_bind (prepareStorage spec) (\<lambda>storage.
         sx_bind (with_db api storage spec
           (sx_bind (populate api orderedKeys value) (\<lambda>_.
            sx_bind (api_flush api) (\<lambda>resp.
            sx_bind (ensureSuccess resp ''flush'') (\<lambda>_. get_all api readKeys))))) (\<lambda>_ w.
           (Inr \<lparr>br_spec = spec, br_metrics = buildMetrics spec (length readKeys) bytes (elapsed (steady spec))\<rparr>, cleanupStorage storage w))))"

definition executeBenchmark :: "'d old_api \<Rightarrow> shuffler \<Rightarrow> (BenchmarkSpec \<Rightarrow> stopwatch) \<Rightarrow> BenchmarkSpec \<Rightarrow> (world, BenchmarkResult) sx" where
  "executeBenchmark api shuffleKeys steady spec =
     (case sp_type spec of
        PutAscending \<Rightarrow> runPutBenchmark api shuffleKeys steady spec False
      | PutRandom \<Rightarrow> runPutBenchmark api shuffleKeys steady spec True
      | ReadSequential \<Rightarrow> runReadBenchmark api shuffleKeys steady spec False
      | ReadRandom \<Rightarrow> runReadBenchmark api shuffleKeys steady spec True)"

section \<open>Running them\<close>

fun run_sequential :: "(BenchmarkSpec \<Rightarrow> (world, BenchmarkResult) sx) \<Rightarrow> BenchmarkSpec list \<Rightarrow> (world, BenchmarkResult list) sx" where
  "run_sequential exec [] = sx_return []"
| "run_sequential exec (spec # specs) =
     sx_bind (exec spec) (\<lambda>r. sx_bind (run_sequential exec specs) (\<lambda>rs. sx_return (r # rs)))"

text \<open>The loop over the batches; \<open>async\<close> is what starting the tasks of a batch and waiting for all gives.\<close>

function run_batches :: "(BenchmarkSpec list \<Rightarrow> (world, BenchmarkResult list) sx) \<Rightarrow>
    nat \<Rightarrow> BenchmarkSpec list \<Rightarrow> nat \<Rightarrow> BenchmarkResult list \<Rightarrow> (world, BenchmarkResult list) sx" where
  "run_batches async parallelism specs index results =
     (if parallelism = 0 \<or> length specs \<le> index then sx_return results
      else
        let batch = min parallelism (length specs - index)
        in sx_bind (async (take batch (drop index specs))) (\<lambda>rs.
             run_batches async parallelism specs (index + batch) (results @ rs)))"
  by pat_completeness auto
termination by (relation "measure (\<lambda>(_, _, specs, index, _). length specs - index)") auto

declare run_batches.simps [simp del]

definition runAllBenchmarks :: "(BenchmarkSpec list \<Rightarrow> (world, BenchmarkResult list) sx) \<Rightarrow> (BenchmarkSpec \<Rightarrow> (world, BenchmarkResult) sx) \<Rightarrow>
    BenchmarkSpec list \<Rightarrow> nat \<Rightarrow> (world, BenchmarkResult list) sx" where
  "runAllBenchmarks async exec specs parallelism =
     (if parallelism \<le> 1 then run_sequential exec specs else run_batches async parallelism specs 0 [])"

text \<open>\<open>printResults\<close> prints one line per result, in this order; \<open>main\<close> returns 1 after an exception.\<close>

definition printed :: "BenchmarkResult list \<Rightarrow> BenchmarkResult list" where
  "printed results = sort_key (\<lambda>r. sp_id (br_spec r)) results"

definition ab_main :: "(BenchmarkSpec list \<Rightarrow> (world, BenchmarkResult list) sx) \<Rightarrow> 'd old_api \<Rightarrow> shuffler \<Rightarrow>
    (BenchmarkSpec \<Rightarrow> stopwatch) \<Rightarrow> string list \<Rightarrow> world \<Rightarrow> int \<times> BenchmarkResult list" where
  "ab_main async api shuffleKeys steady args w =
     (case parseOptions args of
        Inl e \<Rightarrow> (1, [])
      | Inr opts \<Rightarrow>
          (case runAllBenchmarks async (executeBenchmark api shuffleKeys steady) (buildSpecs opts) (unat (opt_parallelism opts)) w of
             (Inl ex, _) \<Rightarrow> (1, [])
           | (Inr results, _) \<Rightarrow> (0, printed results)))"

section \<open>Options\<close>

lemma parseOptions_positive:
  assumes "parseOptions args = Inr opts"
  shows "opt_numKeys opts \<noteq> 0 \<and> opt_valueSize opts \<noteq> 0 \<and> opt_parallelism opts \<noteq> 0 \<and> 1 \<le> opt_memtableCapacity opts"
  using assms by (auto simp: parseOptions_def Let_def split: sum.splits if_splits)

lemma parseSizeT_numeral:
  assumes "n < 2 ^ 64"
  shows "parseSizeT (to_string n) flag = Inr (of_nat n)"
  using strtoul_digits(1) [of "to_string n"] to_string_digits assms by (simp add: parseSizeT_def stoull_prefix_def)

section \<open>Keys and bytes\<close>

text \<open>What a scenario reports, whatever the order of its keys.\<close>

definition scenario_result :: "(BenchmarkSpec \<Rightarrow> stopwatch) \<Rightarrow> BenchmarkSpec \<Rightarrow> BenchmarkResult" where
  "scenario_result steady spec =
     (let n = unat (opt_numKeys (sp_options spec))
      in \<lparr>br_spec = spec,
          br_metrics = buildMetrics spec n (computeBytes (makeOrderedKeys n) (opt_valueSize (sp_options spec))) (elapsed (steady spec))\<rparr>)"

lemma computeBytes_sum: "computeBytes keys x = (\<Sum>k \<leftarrow> keys. of_nat (length k)) + of_nat (length keys) * x"
proof -
  have "fold (\<lambda>k t. t + of_nat (length k)) keys a = a + (\<Sum>k \<leftarrow> keys. of_nat (length k))" for a :: u64
    by (induction keys arbitrary: a) (simp_all add: add.assoc)
  then show ?thesis by (simp add: computeBytes_def)
qed

lemma computeBytes_perm:
  assumes "mset keys = mset keys'"
  shows "computeBytes keys x = computeBytes keys' x"
proof -
  have "(\<Sum>k \<leftarrow> ks. of_nat (length k)) = (\<Sum>k \<in># mset ks. of_nat (length k) :: u64)" for ks :: "string list"
    by (simp flip: sum_mset_sum_list)
  then show ?thesis unfolding computeBytes_sum using assms mset_eq_length [OF assms] by simp
qed

lemma makeOrderedKeys_ok:
  fixes c :: u64
  shows "length (makeOrderedKeys n) = n" and "\<forall>k \<in> set (makeOrderedKeys (unat c)). length k \<le> 2 ^ 30"
proof -
  have "length (to_string i) \<le> 2 ^ 29" if "i < unat c" for i
  proof -
    have "unat c < 2 ^ 64" using unsigned_less [of c, where 'a = nat] by simp
    then have "i < 10 ^ Suc 19" using that by simp
    then show ?thesis using length_to_string_le [of i 19] by simp
  qed
  then show "\<forall>k \<in> set (makeOrderedKeys (unat c)). length k \<le> 2 ^ 30" by (fastforce simp: makeOrderedKeys_def)
qed (simp add: makeOrderedKeys_def)

definition valid_spec :: "BenchmarkSpec \<Rightarrow> bool" where
  "valid_spec spec \<longleftrightarrow>
     1 \<le> opt_memtableCapacity (sp_options spec) \<and> opt_memtableCapacity (sp_options spec) \<le> 2 ^ 20 \<and>
     unat (opt_valueSize (sp_options spec)) \<le> 2 ^ 30 \<and> opt_numKeys (sp_options spec) \<noteq> 0"

section \<open>What the program needs of the database\<close>

text \<open>
  \<open>ready b\<close>: a system on which stores can be created and take \<open>b\<close> more writes and flushes in all;
  \<open>holds b v u\<close>: a store with the contents \<open>v\<close> that can take \<open>b\<close> more, with writes since the last flush
  if \<open>u\<close>.
\<close>

locale old_store =
  fixes api :: "'d old_api"
    and ready :: "nat \<Rightarrow> world \<Rightarrow> bool"
    and holds :: "nat \<Rightarrow> (string \<Rightarrow> string option) \<Rightarrow> bool \<Rightarrow> 'd \<Rightarrow> bool"
  assumes ready_mono: "ready b w \<Longrightarrow> c \<le> b \<Longrightarrow> ready c w"
    and ready_remove: "ready b w \<Longrightarrow> ready b (remove_all r w)"
    and create: "ready b w \<Longrightarrow> 1 \<le> opt_memtableCapacity (sp_options spec) \<Longrightarrow> opt_memtableCapacity (sp_options spec) \<le> 2 ^ 20 \<Longrightarrow>
      \<exists>w'. prepareStorage spec w = (Inr (ab_paths spec), w') \<and> holds b Map.empty False (api_create api (ab_config (ab_paths spec) spec) w')"
    and put: "holds (Suc b) v u d \<Longrightarrow> length k \<le> 2 ^ 30 \<Longrightarrow> length x \<le> 2 ^ 30 \<Longrightarrow>
      \<exists>r d'. api_put api k x d = (Inr r, d') \<and> or_success r \<and> holds b (v(k \<mapsto> x)) True d'"
    and get: "holds b v u d \<Longrightarrow> v k = Some x \<Longrightarrow> \<exists>r. api_get api k d = (Inr r, d) \<and> or_success r \<and> or_data r = Some x"
    and flush: "holds (Suc b) v True d \<Longrightarrow> \<exists>r d'. api_flush api d = (Inr r, d') \<and> or_success r \<and> holds b v False d'"
    and finish: "holds b v u d \<Longrightarrow> ready b (api_world api d)"
begin

lemma put_all_ok:
  assumes "holds (length keys + b) v u d" and "\<forall>k \<in> set keys. length k \<le> 2 ^ 30" and "length x \<le> 2 ^ 30"
  shows "\<exists>d' v'. put_all api action x keys d = (Inr (), d') \<and> holds b v' (u \<or> keys \<noteq> []) d' \<and>
    (\<forall>k. v' k = (if k \<in> set keys then Some x else v k))"
  using assms(1,2)
proof (induction keys arbitrary: v u d)
  case (Cons k keys)
  then obtain r d1 where d1: "api_put api k x d = (Inr r, d1)" "or_success r" "holds (length keys + b) (v(k \<mapsto> x)) True d1"
    using put [of "length keys + b" v u d k x] assms(3) by auto
  obtain d' v' where d': "put_all api action x keys d1 = (Inr (), d')" "holds b v' True d'"
      "\<forall>j. v' j = (if j \<in> set keys then Some x else (v(k \<mapsto> x)) j)"
    using Cons.IH [OF d1(3)] Cons.prems(2) by auto
  then have "put_all api action x (k # keys) d = (Inr (), d')" using d1(1,2) by (simp add: sx_simps ensureSuccess_def)
  moreover have "\<forall>j. v' j = (if j \<in> set (k # keys) then Some x else v j)" using d'(3) by simp
  moreover have "holds b v' (u \<or> k # keys \<noteq> []) d'" using d'(2) by simp
  ultimately show ?case by blast
qed (auto simp: sx_simps)

lemma get_all_ok:
  assumes "holds b v u d" and "\<forall>k \<in> set keys. v k \<noteq> None"
  shows "get_all api keys d = (Inr (), d)"
  using assms(2)
proof (induction keys)
  case (Cons k keys)
  then obtain x r where "api_get api k d = (Inr r, d)" "or_success r" "or_data r = Some x" using get [OF assms(1), of k] by auto
  then show ?case using Cons by (simp add: sx_simps ensureSuccess_data_def)
qed (simp add: sx_simps)

lemma runPutBenchmark_ok:
  assumes "ready (unat (opt_numKeys (sp_options spec)) + b) w" and "valid_spec spec" and "\<And>seed ks. mset (shuffleKeys seed ks) = mset ks"
  shows "\<exists>w'. runPutBenchmark api shuffleKeys steady spec randomOrder w = (Inr (scenario_result steady spec), w') \<and> ready b w'"
proof -
  let ?n = "unat (opt_numKeys (sp_options spec))"
  define keys where "keys = (if randomOrder then shuffleKeys (sp_seed spec) (makeOrderedKeys ?n) else makeOrderedKeys ?n)"
  define x where "x = ab_makeValue (unat (opt_valueSize (sp_options spec)))"
  have perm: "mset keys = mset (makeOrderedKeys ?n)" using assms(3) by (simp add: keys_def)
  then have keys: "length keys = ?n" "\<forall>k \<in> set keys. length k \<le> 2 ^ 30"
    using makeOrderedKeys_ok(1) makeOrderedKeys_ok(2) [of "opt_numKeys (sp_options spec)"] by (metis size_mset, metis set_mset_mset)
  obtain w1 where w1: "prepareStorage spec w = (Inr (ab_paths spec), w1)"
      "holds (length keys + b) Map.empty False (api_create api (ab_config (ab_paths spec) spec) w1)"
    using create [OF assms(1)] assms(2) keys(1) by (auto simp: valid_spec_def)
  have "length x \<le> 2 ^ 30" using assms(2) by (simp add: x_def ab_makeValue_def valid_spec_def)
  then obtain d v where d: "put_all api ''put'' x keys (api_create api (ab_config (ab_paths spec) spec) w1) = (Inr (), d)"
      "holds b v (False \<or> keys \<noteq> []) d"
    using put_all_ok [OF w1(2) keys(2)] by blast
  have "runPutBenchmark api shuffleKeys steady spec randomOrder w =
      (Inr \<lparr>br_spec = spec, br_metrics = buildMetrics spec (length keys) (computeBytes keys (of_nat (length x))) (elapsed (steady spec))\<rparr>, cleanupStorage (ab_paths spec) (api_world api d))"
    unfolding runPutBenchmark_def Let_def keys_def [symmetric] x_def [symmetric]
    using w1(1) d(1) by (simp add: sx_simps with_db_def createDb_def)
  moreover have "computeBytes keys (of_nat (length x)) = computeBytes (makeOrderedKeys ?n) (opt_valueSize (sp_options spec))"
    using computeBytes_perm [OF perm] by (simp add: x_def ab_makeValue_def)
  ultimately show ?thesis
    using keys(1) ready_remove [OF finish [OF d(2)]] by (simp add: scenario_result_def cleanupStorage_def Let_def)
qed

lemma runReadBenchmark_ok:
  assumes "ready (Suc (unat (opt_numKeys (sp_options spec)) + b)) w" and "valid_spec spec" and "\<And>seed ks. mset (shuffleKeys seed ks) = mset ks"
  shows "\<exists>w'. runReadBenchmark api shuffleKeys steady spec randomOrder w = (Inr (scenario_result steady spec), w') \<and> ready b w'"
proof -
  let ?n = "unat (opt_numKeys (sp_options spec))"
  let ?ks = "makeOrderedKeys ?n"
  define keys where "keys = (if randomOrder then shuffleKeys (sp_seed spec) ?ks else ?ks)"
  define x where "x = ab_makeValue (unat (opt_valueSize (sp_options spec)))"
  have perm: "mset keys = mset ?ks" using assms(3) by (simp add: keys_def)
  then have keys: "length keys = ?n" "set keys = set ?ks" using makeOrderedKeys_ok(1) by (metis size_mset, metis set_mset_mset)
  have ne: "?ks \<noteq> []" using assms(2) makeOrderedKeys_ok(1) [of ?n] by (auto simp: valid_spec_def unat_eq_zero)
  obtain w1 where w1: "prepareStorage spec w = (Inr (ab_paths spec), w1)"
      "holds (length ?ks + Suc b) Map.empty False (api_create api (ab_config (ab_paths spec) spec) w1)"
    using create [OF assms(1)] assms(2) makeOrderedKeys_ok(1) [of ?n] by (auto simp: valid_spec_def)
  have "length x \<le> 2 ^ 30" using assms(2) by (simp add: x_def ab_makeValue_def valid_spec_def)
  then obtain d v where d: "put_all api ''populate put'' x ?ks (api_create api (ab_config (ab_paths spec) spec) w1) = (Inr (), d)"
      "holds (Suc b) v True d" "\<forall>k. v k = (if k \<in> set ?ks then Some x else None)"
    using put_all_ok [OF w1(2) makeOrderedKeys_ok(2)] ne by fastforce
  obtain r d' where d': "api_flush api d = (Inr r, d')" "or_success r" "holds b v False d'" using flush [OF d(2)] by blast
  have "get_all api keys d' = (Inr (), d')" using get_all_ok [OF d'(3)] d(3) keys(2) by simp
  then have "runReadBenchmark api shuffleKeys steady spec randomOrder w =
      (Inr \<lparr>br_spec = spec, br_metrics = buildMetrics spec (length keys) (computeBytes keys (of_nat (length x))) (elapsed (steady spec))\<rparr>, cleanupStorage (ab_paths spec) (api_world api d'))"
    unfolding runReadBenchmark_def Let_def keys_def [symmetric] x_def [symmetric]
    using w1(1) d(1) d'(1,2) by (simp add: sx_simps with_db_def createDb_def populate_def ensureSuccess_def)
  moreover have "computeBytes keys (of_nat (length x)) = computeBytes ?ks (opt_valueSize (sp_options spec))"
    using computeBytes_perm [OF perm] by (simp add: x_def ab_makeValue_def)
  ultimately show ?thesis
    using keys(1) ready_remove [OF finish [OF d'(3)]] by (simp add: scenario_result_def cleanupStorage_def Let_def)
qed

lemma executeBenchmark_ok:
  assumes "ready (Suc (unat (opt_numKeys (sp_options spec))) + b) w" and "valid_spec spec" and "\<And>seed ks. mset (shuffleKeys seed ks) = mset ks"
  shows "\<exists>w'. executeBenchmark api shuffleKeys steady spec w = (Inr (scenario_result steady spec), w') \<and> ready b w'"
proof -
  have "ready (unat (opt_numKeys (sp_options spec)) + b) w" using ready_mono [OF assms(1)] by simp
  then show ?thesis
    using runPutBenchmark_ok [OF _ assms(2,3)] runReadBenchmark_ok [of spec b w shuffleKeys] assms
    by (cases "sp_type spec") (simp_all add: executeBenchmark_def)
qed

end

section \<open>Today's database\<close>

text \<open>The store of the development, with its responses read the old way.\<close>

definition old_response_of :: "response \<Rightarrow> old_response" where
  "old_response_of r = \<lparr>or_success = res_ok r, or_message = res_message r, or_data = res_data r\<rparr>"

definition current_api :: "db old_api" where
  "current_api =
     \<lparr>api_create = createDbWithConfig,
      api_put = (\<lambda>k v. sx_bind (db_put k v) (\<lambda>r. sx_return (old_response_of r))),
      api_get = (\<lambda>k s. case db_get k s of Inl ex \<Rightarrow> (Inl ex, s) | Inr r \<Rightarrow> (Inr (old_response_of r), s)),
      api_flush = sx_bind db_forceFlushForTests (\<lambda>r. sx_return (old_response_of r)),
      api_world = db_world\<rparr>"

definition current_ready :: "nat \<Rightarrow> world \<Rightarrow> bool" where
  "current_ready b w \<longleftrightarrow> healthy w \<and> lists_all w \<and> (\<exists>n. name_counter w = of_nat n \<and> n + b \<le> 2 ^ 16)"

definition current_holds :: "nat \<Rightarrow> (string \<Rightarrow> string option) \<Rightarrow> bool \<Rightarrow> db \<Rightarrow> bool" where
  "current_holds b v u s \<longleftrightarrow>
     (\<exists>n ts. db_inv False n ts s \<and> n + b \<le> 2 ^ 16) \<and> db_view s = v \<and> (u \<longrightarrow> m_map (db_skiplist s) \<noteq> []) \<and> lists_all (db_world s)"

lemma current_put:
  assumes "current_holds (Suc b) v u s" and "length k \<le> 2 ^ 30" and "length x \<le> 2 ^ 30"
  shows "\<exists>r s'. api_put current_api k x s = (Inr r, s') \<and> or_success r \<and> current_holds b (v(k \<mapsto> x)) True s'"
proof -
  obtain n ts where n: "db_inv False n ts s" "n + Suc b \<le> 2 ^ 16" using assms(1) by (auto simp: current_holds_def)
  then have "n < 2 ^ 16" by simp
  then obtain s' n' ts' where s': "db_put k x s = (Inr (Response True ''OK'' None), s')" "db_inv False n' ts' s'"
      "db_view s' = (db_view s)(k \<mapsto> x)" "flushed_if (mem_full s) n ts n' ts' s s'"
    using db_put_exact [OF n(1) _ assms(2,3)] by blast
  have "n' + b \<le> 2 ^ 16" using s'(4) n(2) by (auto simp: flushed_if_def split: if_splits)
  moreover have "lists_all (db_world s')"
    using assms(1) s'(4) by (auto simp: current_holds_def flushed_if_def changes_files_def lists_all_def split: if_splits)
  ultimately have "current_holds b (v(k \<mapsto> x)) True s'"
    using assms(1) s'(2,3) db_put_nonempty [OF s'(1)] by (auto simp: current_holds_def)
  then show ?thesis using s'(1) by (simp add: current_api_def sx_simps old_response_of_def)
qed

lemma current_flush:
  assumes "current_holds (Suc b) v True s"
  shows "\<exists>r s'. api_flush current_api s = (Inr r, s') \<and> or_success r \<and> current_holds b v False s'"
proof -
  obtain n ts where n: "db_inv False n ts s" "n + Suc b \<le> 2 ^ 16" "m_map (db_skiplist s) \<noteq> []" using assms by (auto simp: current_holds_def)
  then have "n < 2 ^ 16" by simp
  then obtain s' p es where s': "db_forceFlushForTests s = (Inr (Response True ''OK'' None), s')" "db_inv False (Suc n) ((p, es) # ts) s'"
      "db_view s' = db_view s" "changes_files {p} s s'"
    using db_flush_exact [OF n(1) _ n(3)] by blast
  have "Suc n + b \<le> 2 ^ 16" using n(2) by simp
  then have "current_holds b v False s'"
    using assms s'(2-4) unfolding current_holds_def changes_files_def lists_all_def by auto
  then show ?thesis using s'(1) by (simp add: current_api_def sx_simps old_response_of_def)
qed

lemma current_get:
  assumes "current_holds b v u s" and "v k = Some x"
  shows "\<exists>r. api_get current_api k s = (Inr r, s) \<and> or_success r \<and> or_data r = Some x"
proof -
  obtain n ts where "db_inv False n ts s" "db_view s k = Some x" using assms by (auto simp: current_holds_def)
  then show ?thesis using db_get_inv [of n ts s k] by (simp add: current_api_def old_response_of_def get_response_def)
qed

lemma current_create:
  assumes "current_ready b w" and "1 \<le> opt_memtableCapacity (sp_options spec)" and "opt_memtableCapacity (sp_options spec) \<le> 2 ^ 20"
  shows "\<exists>w'. prepareStorage spec w = (Inr (ab_paths spec), w') \<and>
    current_holds b Map.empty False (api_create current_api (ab_config (ab_paths spec) spec) w')"
proof -
  let ?p = "ab_paths spec"
  let ?r = "bp_root ?p"
  let ?w = "mkdir_all (bp_sstables ?p) (mkdir_all (bp_wal ?p) (mkdir_all ?r (remove_all ?r w)))"
  have dirs: "bp_wal ?p = ?r @ ''/wal''" "bp_sstables ?p = ?r @ ''/sstables''" by (simp_all add: ab_paths_def Let_def)
  obtain n where w: "healthy w" "lists_all w" "name_counter w = of_nat n" "n + b \<le> 2 ^ 16" using assms(1) by (auto simp: current_ready_def)
  then have prep: "prepareStorage spec w = (Inr ?p, ?w)"
    by (simp add: prepareStorage_def Let_def sx_simps create_directories_or_throw_healthy remove_all_frame)
  have short: "length d \<le> length (?r @ ''/sstables'')"
    if "d \<in> set (path_and_ancestors ?r) \<or> d \<in> set (path_and_ancestors (bp_wal ?p)) \<or> d \<in> set (path_and_ancestors (bp_sstables ?p))" for d
    using that ancestors_length [of d ?r] ancestors_length [of d "bp_wal ?p"] ancestors_length [of d "bp_sstables ?p"] dirs by auto
  have "\<not> child_of (?r @ ''/sstables'') d" if "is_directory ?w d" for d
  proof -
    have "\<not> below ?r d \<or> d \<in> set (path_and_ancestors ?r) \<or> d \<in> set (path_and_ancestors (bp_wal ?p)) \<or> d \<in> set (path_and_ancestors (bp_sstables ?p))"
      using that w(1) by (auto simp: remove_all_frame remove_all_directories)
    then show ?thesis using short not_a_level by blast
  qed
  then have "no_levels_on_disk (bp_sstables ?p) ?w" using w(2) unfolding dirs(2) by (simp add: no_levels_on_disk_def remove_all_frame)
  moreover have "\<forall>d \<in> set (path_and_ancestors (bp_wal ?p)). \<not> child_of (bp_sstables ?p) d"
    unfolding dirs(2) using short not_a_level by blast
  ultimately have "db_inv False n [] (createDbWithConfig (ab_config ?p spec) ?w)"
    unfolding createDbWithConfig_def Let_def using w assms(2,3)
    by (intro db_inv_new_at) (simp_all add: ab_config_def DbFactoryConfig_def remove_all_frame)
  moreover have "db_view (createDbWithConfig (ab_config ?p spec) ?w) = Map.empty"
    by (simp add: fun_eq_iff db_view_def createDbWithConfig_def MemTableImpl_def StorageManagerImpl_def mem_get_def
        storage_get_def sl.lookup_empty)
  moreover have "lists_all (db_world (createDbWithConfig (ab_config ?p spec) ?w))"
    using w(2) by (simp add: createDbWithConfig_def MemTableImpl_def Let_def remove_all_frame)
  ultimately have "current_holds b Map.empty False (createDbWithConfig (ab_config ?p spec) ?w)"
    using w(4) unfolding current_holds_def by blast
  then show ?thesis using prep by (simp add: current_api_def)
qed

interpretation current: old_store current_api current_ready current_holds
proof (unfold_locales, goal_cases)
  case (1 b w c)
  then show ?case by (auto simp: current_ready_def intro: order_trans [rotated] add_left_mono)
next
  case (2 b w r)
  then show ?case by (simp add: current_ready_def remove_all_frame)
next
  case (7 b v u d)
  then show ?case by (auto simp: current_holds_def current_ready_def current_api_def db_inv_def storage_inv_def)
qed (use current_create current_put current_get current_flush in auto)

section \<open>Running them one by one\<close>

text \<open>
  Each scenario costs \<open>c\<close> of what is left; the results come in the order of the specifications.
\<close>

lemma run_sequential_ok:
  assumes "\<And>spec b w. spec \<in> set specs \<Longrightarrow> ready (c + b) w \<Longrightarrow> \<exists>w'. exec spec w = (Inr (f spec), w') \<and> ready b w'"
    and "ready (length specs * c + b) w"
  shows "\<exists>w'. run_sequential exec specs w = (Inr (map f specs), w') \<and> ready b w'"
  using assms
proof (induction specs arbitrary: w)
  case (Cons spec specs)
  have "ready (c + (length specs * c + b)) w" using Cons.prems(2) by (simp add: add.assoc)
  then obtain w1 where w1: "exec spec w = (Inr (f spec), w1)" "ready (length specs * c + b) w1" using Cons.prems(1) [of spec] by auto
  obtain w' where "run_sequential exec specs w1 = (Inr (map f specs), w')" "ready b w'"
    using Cons.IH [OF _ w1(2)] Cons.prems(1) by auto
  then show ?case using w1(1) by (simp add: sx_simps)
qed (simp add: sx_simps)

lemma buildSpecs_eq:
  "map sp_id (buildSpecs opts) = [0, 1, 2, 3]" "length (buildSpecs opts) = 4" "\<forall>spec \<in> set (buildSpecs opts). sp_options spec = opts"
  by (auto simp: buildSpecs_def enumerate_eq_zip)

lemma printed_in_order: "printed (map (scenario_result steady) (buildSpecs opts)) = map (scenario_result steady) (buildSpecs opts)"
  by (simp add: printed_def buildSpecs_def enumerate_eq_zip scenario_result_def buildMetrics_def Let_def)

section \<open>Properties\<close>

text \<open>
  The archived benchmark program on the store of today, running its scenarios one by one.  On a system
  without faults, with at most 16383 keys (so that the names of the tables suffice) and values of at
  most \<open>2 ^ 30\<close> bytes, it returns 0 and prints the four scenarios in order, each with as many operations
  as there are keys, with the bytes of all keys and values, and with the duration and the rates that
  follow from the clock; the permutation of the keys does not change that.  In particular every read
  of the read scenarios succeeds.
\<close>

theorem archived_benchmarks_complete:
  assumes "parseOptions args = Inr opts" and "opt_parallelism opts \<le> 1"
    and "4 * Suc (unat (opt_numKeys opts)) \<le> 2 ^ 16" and "unat (opt_valueSize opts) \<le> 2 ^ 30"
    and "opt_memtableCapacity opts \<le> 2 ^ 20" and "bench_world w"
    and shuffle: "\<And>seed ks. mset (shuffleKeys seed ks) = mset ks"
  shows "ab_main async current_api shuffleKeys steady args w = (0, map (scenario_result steady) (buildSpecs opts))"
proof -
  let ?exec = "executeBenchmark current_api shuffleKeys steady" and ?c = "Suc (unat (opt_numKeys opts))" and ?specs = "buildSpecs opts"
  have "valid_spec spec" if "spec \<in> set ?specs" for spec
    using that buildSpecs_eq(3) parseOptions_positive [OF assms(1)] assms(4,5) by (simp add: valid_spec_def)
  then have step: "\<exists>w'. ?exec spec v = (Inr (scenario_result steady spec), w') \<and> current_ready b w'"
    if "spec \<in> set ?specs" "current_ready (?c + b) v" for spec b v
    using current.executeBenchmark_ok [of spec b v shuffleKeys] that shuffle buildSpecs_eq(3) by simp
  have ready: "current_ready (length ?specs * ?c + 0) w"
    using assms(3,6) by (auto simp: current_ready_def bench_world_def buildSpecs_eq(2) intro!: exI [of _ 0])
  have "unat (opt_parallelism opts) \<le> 1" using assms(2) by (simp add: word_le_nat_alt)
  then have "\<exists>w'. runAllBenchmarks async ?exec ?specs (unat (opt_parallelism opts)) w = (Inr (map (scenario_result steady) ?specs), w')"
    using run_sequential_ok [of ?specs current_ready ?c ?exec "scenario_result steady" 0 w] step ready by (auto simp: runAllBenchmarks_def)
  then show ?thesis using assms(1) printed_in_order by (auto simp: ab_main_def)
qed

theorem archived_benchmarks_complete_witness:
  "\<exists>rs. ab_main async current_api (\<lambda>seed. rev) (\<lambda>_. \<lparr>sw_start = 5, sw_stop = 2000000005\<rparr>) [''--keys'', to_string 500] fresh_world = (0, rs) \<and>
     map (bm_opsPerSecond \<circ> br_metrics) rs = replicate 4 250"
proof -
  let ?o = "default_options\<lparr>opt_numKeys := 500\<rparr>" and ?t = "\<lambda>_. \<lparr>sw_start = 5, sw_stop = 2000000005\<rparr>"
  have "ab_main async current_api (\<lambda>seed. rev) ?t [''--keys'', to_string 500] fresh_world = (0, map (scenario_result ?t) (buildSpecs ?o))"
  proof (rule archived_benchmarks_complete)
    show "parseOptions [''--keys'', to_string 500] = Inr ?o"
      by (simp add: parseOptions_def parseSizeT_numeral default_options_def)
  qed (simp_all add: default_options_def bench_world_fresh)
  moreover have "bm_opsPerSecond (br_metrics (scenario_result ?t spec)) = 250" if "spec \<in> set (buildSpecs ?o)" for spec
  proof -
    have "unat (opt_numKeys (sp_options spec)) = 500" using that buildSpecs_eq(3) [of ?o] by simp
    then show ?thesis by (simp add: scenario_result_def buildMetrics_def elapsed_def Let_def)
  qed
  then have "map (bm_opsPerSecond \<circ> br_metrics) (map (scenario_result ?t) (buildSpecs ?o)) = replicate 4 250"
    using buildSpecs_eq(2) [of ?o] by (intro replicate_eqI) auto
  ultimately show ?thesis by blast
qed

end
