(* ===== verification/Spec2Isabelle.thy ===== *)
theory Spec2Isabelle
  imports Programs Compaction SSTable_Manager Memory_Bench Archived_Bench
begin

text \<open>
  TinyKV is a key-value store built as a log-structured merge tree, with a line protocol over TCP.
  This development models the program under \<open>src/src/\<close>, the benchmark programs that drive it and the
  archived table manager that it grew out of, and proves what their parts promise.

  \<^bold>\<open>The program.\<close>  A client types lines into \<open>runRepl\<close>; they are decoded, re-encoded and sent over an
  \<open>FdConnection\<close>.  The server gives every connection a \<open>Session\<close>, which reads a line, decodes it,
  hands the request to \<open>CommandHandler::execute\<close> and sends the encoded answer back.  The handler calls
  \<open>DbImpl\<close>, which calls the memtable: a write goes to the write-ahead log and then to the skip list; a
  full skip list is first flushed, that is handed as an iterator to \<open>StorageManagerImpl::write\<close>,
  which has level 0 (\<open>LevelManagerImpl::createTable\<close>) write it as a table file through one of two
  formats, after which the log is removed.  A read asks the skip list and then the levels.

  \<^bold>\<open>The theories\<close>, in the order they build on each other:

  \<^item> \<open>Prelude\<close>: exceptions (\<open>exn\<close>), calls that change a state and may throw (\<open>sx\<close>), vectors, lookup in
    lists.  \<open>Bytes\<close>, \<open>Decimal\<close>: byte orders and numerals.  \<open>World\<close>, \<open>Streams\<close>: the file system, the
    clock and the file streams, with the faults they may show (a directory that cannot be made, a
    file that cannot be opened, a device that stops accepting bytes, unreadable bytes).  \<open>healthy\<close> is
    the system without faults.
  \<^item> \<open>Entry\<close>: \<open>types/\<close> and \<open>sstable_metadata.h\<close>.  \<open>Skip_List\<close>: \<open>core/skip_list/\<close>, with the locales for
    ordered maps and for cursors.  \<open>WAL\<close>: \<open>core/wal/wal.cpp\<close>.
  \<^item> \<open>SSTable\<close>: \<open>sstable.cpp\<close>, \<open>sstable_iterator.cpp\<close>.  \<open>Iterators\<close>: the dispatch of \<open>tinykv::Iterator\<close>.
    \<open>SSTable_File\<close>: \<open>sstable_writer.cpp\<close>, \<open>sstable_reader.cpp\<close>.
  \<^item> \<open>Block_Writer\<close>, \<open>Block_Reader\<close>: \<open>block_based/\<close>.  \<open>Filters\<close>: the contract of a Bloom filter.
    \<open>Bloom\<close>: \<open>core/bloom_filter/\<close>.
  \<^item> \<open>Table_Format\<close>: \<open>in_memory_table_format.cpp\<close>, \<open>in_memory_table_reader.cpp\<close>, \<open>table_format.h\<close>,
    \<open>table_reader.h\<close>; the locale \<open>table_store\<close> is what the levels rely on, interpreted for both formats.
  \<^item> \<open>Level_Manager\<close>: \<open>level_manager_impl.cpp\<close>, \<open>system_context.h\<close>.  \<open>Storage_Manager\<close>:
    \<open>storage_manager_impl.cpp\<close>.  \<open>Mem_Table\<close>: \<open>mem_table_impl.cpp\<close>; its record \<open>db\<close> holds the objects that
    the C++ code shares by reference.  \<open>Db\<close>: \<open>db_impl.cpp\<close>, \<open>db_factory.cpp\<close>.
  \<^item> \<open>Message\<close>, \<open>Codec\<close>, \<open>Command_Handler\<close>: \<open>api/\<close>.  \<open>Connection\<close>, \<open>Session\<close>: \<open>net/\<close>.  \<open>Ports\<close>: the port
    number of both programs.  \<open>Server\<close>: the session threads on the shared store, as a transition system
    that interleaves them at reading a line, entering and leaving \<open>execute\<close>, and answering.  There is no
    lock, as there is none in the code: when two conflicting executions overlap, \<open>sv_race\<close> is set and
    the run stops.  \<open>Repl\<close>: \<open>cli/repl.cpp\<close>, and the client in conversation with a session, each over its
    own \<open>FdConnection\<close>.  \<open>Programs\<close>: \<open>main\<close> of \<open>server_main.cpp\<close>, \<open>cli_main.cpp\<close> and \<open>main.cpp\<close> with the socket
    calls they make (\<open>socket_os\<close> is what each call answers).
  \<^item> \<open>Compaction\<close>: the part of \<open>level_manager_impl.cpp\<close> under \<open>#if 0\<close>.  \<open>SSTable_Manager\<close>: the archived
    \<open>SSTableManagerImpl\<close> and its \<open>utils.cpp\<close>, with lemmas that relate them to \<open>SSTable_File\<close>.  \<open>Bench\<close>:
    \<open>bench_minimum.cpp\<close> and \<open>bench_read_heavy.cpp\<close> as sequences of calls of \<open>Db\<close>.  \<open>Memory_Bench\<close>:
    \<open>memory_investigation.cpp\<close>.  \<open>Archived_Bench\<close>: the archived benchmark program; the locale \<open>old_store\<close>
    is what it needs of a database, interpreted for \<open>Db\<close>.

  \<^bold>\<open>How the code is modelled.\<close>  A C++ object is a record, a call that changes it a function to the
  outcome and the new state, an exception the value \<open>Inl\<close>; the state reached before a throw is kept.
  Behaviour the language leaves undefined is the exception \<open>Undefined_behaviour\<close>, so that a theorem that
  a call returns also says that it is defined.  Strings are lists of 8-bit characters, 32- and 64-bit
  unsigned integers are words, \<open>int\<close> indices are converted where the code converts them.  Virtual
  classes are datatypes of their implementations (\<open>kv_iterator\<close>, \<open>table_reader\<close>) or arguments of the
  functions that use them (\<open>Connection\<close> in \<open>Session\<close> and \<open>Repl\<close>).  Loops are recursive functions with
  termination proofs; only the loop of \<open>Session::run\<close>, which depends on an abstract connection, is a
  partial function, and that it returns is part of its theorem.  The results of socket calls are
  part of the connection's state; \<open>std::hash\<close> is a parameter of \<open>Bloom\<close>.

  \<^bold>\<open>What is proved.\<close>
  \<^item> Refinement: the store answers request sequences as an abstract map does (\<open>Command_Handler\<close>); so
    does the server under every interleaving of its threads, up to the first data race (\<open>Server\<close>); the
    user of the client sees these answers, from the \<open>main\<close> of the server to the \<open>main\<close> of the client, when
    the network connects the two over the loopback address and each receives what the other sent
    (\<open>Programs\<close>).  Both table formats implement lookup in the sorted entries (\<open>Table_Format\<close>).
  \<^item> Round trips: the log, both table files, requests and responses.
  \<^item> Start and end: a socket is either handed on or closed, never leaked (\<open>Programs\<close>); every session ends on every finite input (\<open>Server\<close>).
  \<^item> Searches: the two binary searches, the index search and the scan of a block find what a linear
    search finds, and never index outside.
  \<^item> Layout: the index of a block-based table gives the last key, offset and size of every block in the
    file, and the blocks are cut greedily.
  \<^item> Invariants: the log on disk determines the memtable; file names do not collide; the file system
    holds what the open readers serve; the memtable is sorted, bounded and counted in every state.
  \<^item> Code around the program: the disabled compaction keeps every lookup of the tables it merges but
    misses overlaps (\<open>Compaction\<close>), a file written by the archived manager is read by its successor's
    rules (\<open>SSTable_Manager\<close>), the write benchmarks complete and the read benchmark never reads (\<open>Bench\<close>), the
    memory investigation completes for all its sizes and counts the files right (\<open>Memory_Bench\<close>),
    and the archived program, run one scenario after the other, completes with the rates that follow
    from its clock (\<open>Archived_Bench\<close>).
  \<^item> Faults and errors: what an append cut short by the device leaves, and how the next append then
    spoils the log; what a failed flush leaves; which table files make the reader run into undefined
    behaviour; how two clients get into a data race; and where the code loses data: it never replays
    the log at start, it ignores short writes, it passes over tombstones between levels, and
    \<open>_FLUSH\<close> on an empty memtable throws through the session.

  \<^bold>\<open>Bounds.\<close>  Table names mix the clock with a counter of which only 16 bits are guaranteed to show, so
  the store is shown correct for up to \<open>2 ^ 16\<close> tables per process, which is \<open>2 ^ 16\<close> times the capacity of
  the memtable in writes (\<open>filled\<close> counts them) and any number of reads; keys and values are up to \<open>2 ^ 30\<close> bytes, the limit of the log reader; memtable capacities up to \<open>2 ^ 20\<close> entries,
  so that a table fits the 32-bit counts and indices.  A table file read back has fewer than \<open>2 ^ 31\<close>
  entries, because the reader counts them in an \<open>int\<close>.

  The theorems on \<open>Bench\<close> are about the first workload of a process, within the same bound; the memory
  investigation writes ten million keys into one store, flushes once in 1024 writes, and the count of
  tables over all its stores stays below \<open>2 ^ 16\<close>.

  \<^bold>\<open>Not modelled.\<close>  Exhaustion of memory; logging to the terminal (\<open>common/log.h\<close>); the signal a \<open>send\<close> to
  a closed connection may raise; what happens after a data race, which the language leaves undefined;
  the buffer of a file stream (a short write shows at the write and not at the flush, which changes only
  the text of an error message); the overflow of \<open>m_maxLevel + 1\<close> in \<open>initLevels\<close> for a configuration of
  \<open>2 ^ 31 - 1\<close> levels.  The
  \<open>createTable\<close> overload that the disabled compaction calls exists nowhere and is a parameter of
  \<open>Compaction\<close>.  Of \<open>bench/\<close>, the counters and timers of the benchmark library and
  the printing of results.  Of \<open>archive/\<close>, the disk manager,
  whose text is a comment from the first line to the last, as is that of the benchmark of its compaction;
  the database class the archived benchmark program was written for is a parameter of \<open>Archived_Bench\<close>,
  and so is what a batch of concurrent \<open>std::async\<close> tasks of it gives; its \<open>double\<close>s are rationals there.
  The tests.
\<close>

end
